(* ===== verification/Prelude.thy ===== *)
theory Prelude
  imports Main "HOL-Library.Word"
begin

text \<open>
  Shared material of the development: the machine types of the Rust sources (\<open>u8\<close>, \<open>u16\<close>,
  \<open>u64\<close> as words, \<open>i64\<close> as \<open>int\<close> with the wrap-around of a release build written out), big-endian
  encodings, byte slices, saturating arithmetic, \<open>Result\<close> as a sum type, and the generic lemmas on
  lists and encodings that the component theories use. Two collections are declared here:
  \<open>be_simps\<close> holds the facts that evaluate big-endian codecs, \<open>slice_simps\<close> the facts that cut a
  concatenation of byte strings at known lengths.
\<close>

named_theorems be_simps "evaluation of big-endian encoders and decoders"
named_theorems slice_simps "cutting concatenations at known lengths"

section \<open>Machine types\<close>

type_synonym u8 = "8 word"
type_synonym u16 = "16 word"
type_synonym u32 = "32 word"
type_synonym u64 = "64 word"
type_synonym bytes = "u8 list"

text \<open>\<open>Result<T, E>\<close> is the sum \<open>'e + 'a\<close>; \<open>Err\<close> and \<open>Ok\<close> are its injections.\<close>

abbreviation Err :: "'e \<Rightarrow> 'e + 'a" where "Err \<equiv> Inl"
abbreviation Okay :: "'a \<Rightarrow> 'e + 'a" where "Okay \<equiv> Inr"

section \<open>Signed 64-bit arithmetic of a release build\<close>

text \<open>
  The release profile of the workspace leaves overflow checks off, so \<open>-\<close> on \<open>i64\<close> wraps and
  \<open>i64::abs\<close> maps \<open>i64::MIN\<close> to itself.
\<close>

definition i64_min :: int where "i64_min = - (2 ^ 63)"
definition i64_max :: int where "i64_max = 2 ^ 63 - 1"

definition i64_range :: "int \<Rightarrow> bool" where
  "i64_range x \<longleftrightarrow> i64_min \<le> x \<and> x \<le> i64_max"

definition i64_wrap :: "int \<Rightarrow> int" where
  "i64_wrap x = (x + 2 ^ 63) mod 2 ^ 64 - 2 ^ 63"

definition i64_sub :: "int \<Rightarrow> int \<Rightarrow> int" where
  "i64_sub a b = i64_wrap (a - b)"

definition i64_abs :: "int \<Rightarrow> int" where
  "i64_abs a = i64_wrap \<bar>a\<bar>"

lemma i64_wrap_id: "i64_range x \<Longrightarrow> i64_wrap x = x"
  by (simp add: i64_wrap_def i64_range_def i64_min_def i64_max_def)

lemma i64_wrap_range: "i64_range (i64_wrap x)"
proof -
  have "0 \<le> (x + 2 ^ 63) mod 2 ^ 64" "(x + 2 ^ 63) mod 2 ^ 64 < (2 ^ 64 :: int)"
    by (rule pos_mod_sign pos_mod_bound; simp)+
  then show ?thesis by (simp add: i64_wrap_def i64_range_def i64_min_def i64_max_def)
qed

lemma i64_wrap_mod: "i64_wrap (x mod 2 ^ 64) = i64_wrap x"
  by (simp add: i64_wrap_def mod_simps)

lemma i64_abs_id: "i64_range a \<Longrightarrow> a \<noteq> i64_min \<Longrightarrow> i64_abs a = \<bar>a\<bar>"
  unfolding i64_abs_def
  by (rule i64_wrap_id) (auto simp: i64_range_def i64_min_def i64_max_def)

lemma i64_abs_min [simp]: "i64_abs i64_min = i64_min"
  by (simp add: i64_abs_def i64_wrap_def i64_min_def)

text \<open>The distance of two timestamps is the mathematical one whenever it fits.\<close>

lemma i64_abs_diff:
  assumes "\<bar>a - b\<bar> \<le> i64_max"
  shows "i64_abs (i64_sub a b) = \<bar>a - b\<bar>"
proof -
  have "i64_range (a - b)" "a - b \<noteq> i64_min"
    using assms by (auto simp: i64_range_def i64_min_def i64_max_def)
  then show ?thesis
    by (simp add: i64_sub_def i64_wrap_id i64_abs_id)
qed

text \<open>The absolute-difference check of a clock value lets one wrong value through, $2^{63}$ away.\<close>

lemma i64_abs_window:
  assumes "i64_abs (i64_sub a b) \<le> k" "i64_range b" "0 \<le> a" "a < 2 ^ 62" "k < 2 ^ 62"
  shows "\<bar>a - b\<bar> \<le> k \<or> a - b = 2 ^ 63"
proof -
  let ?d = "a - b"
  have d: "- (2 ^ 63) \<le> ?d" "?d < 2 ^ 63 + 2 ^ 62" "0 \<le> ?d + 2 ^ 63"
    using assms by (simp_all add: i64_range_def i64_min_def i64_max_def)
  consider "?d > 2 ^ 63" | "?d = 2 ^ 63" | "?d < 2 ^ 63" by linarith
  then show ?thesis
  proof cases
    case 1
    with d have "i64_wrap ?d = ?d - 2 ^ 64"
      by (simp add: i64_wrap_def mod_pos_geq)
    then show ?thesis using assms 1 d
      by (auto simp: i64_sub_def i64_abs_id i64_range_def i64_min_def i64_max_def)
  next
    case 3
    have "i64_range ?d" "?d \<noteq> i64_min"
      using 3 d assms by (auto simp: i64_range_def i64_min_def i64_max_def)
    then show ?thesis using assms by (simp add: i64_sub_def i64_wrap_id i64_abs_id)
  qed simp
qed

section \<open>Unsigned 64-bit counters\<close>

definition u64_saturating_add :: "u64 \<Rightarrow> u64 \<Rightarrow> u64" where
  "u64_saturating_add a b = (if unat a + unat b < 2 ^ 64 then a + b else - 1)"

definition u64_saturating_sub :: "u64 \<Rightarrow> u64 \<Rightarrow> u64" where
  "u64_saturating_sub a b = (if b \<le> a then a - b else 0)"

definition u64_saturating_mul :: "u64 \<Rightarrow> u64 \<Rightarrow> u64" where
  "u64_saturating_mul a b = (if unat a * unat b < 2 ^ 64 then a * b else - 1)"

lemma unat_u64_saturating_add:
  "unat (u64_saturating_add a b) = min (unat a + unat b) (2 ^ 64 - 1)"
  by (auto simp: u64_saturating_add_def unat_word_ariths unsigned_minus_1_eq_mask mask_eq_exp_minus_1)

lemma unat_u64_saturating_sub: "unat (u64_saturating_sub a b) = unat a - unat b"
  by (auto simp: u64_saturating_sub_def unat_sub word_le_nat_alt)

lemma unat_u64_saturating_mul:
  "unat (u64_saturating_mul a b) = min (unat a * unat b) (2 ^ 64 - 1)"
  by (auto simp: u64_saturating_mul_def unat_word_ariths unsigned_minus_1_eq_mask mask_eq_exp_minus_1)

section \<open>Big-endian encodings\<close>

text \<open>
  \<open>nat_to_be k n\<close> is the \<open>k\<close>-byte big-endian encoding of \<open>n\<close> modulo \<open>256 ^ k\<close>;
  \<open>to_be_bytes\<close> and \<open>from_be_bytes\<close> of the source are its instances.
\<close>

fun nat_to_be :: "nat \<Rightarrow> nat \<Rightarrow> bytes" where
  "nat_to_be 0 n = []"
| "nat_to_be (Suc k) n = word_of_nat (n div 256 ^ k) # nat_to_be k n"

definition be_to_nat :: "bytes \<Rightarrow> nat" where
  "be_to_nat bs = foldl (\<lambda>acc b. acc * 256 + unat b) 0 bs"

definition u16_to_be_bytes :: "u16 \<Rightarrow> bytes" where
  "u16_to_be_bytes w = nat_to_be 2 (unat w)"

definition u16_from_be_bytes :: "u8 \<Rightarrow> u8 \<Rightarrow> u16" where
  "u16_from_be_bytes a b = word_of_nat (be_to_nat [a, b])"

definition i64_to_be_bytes :: "int \<Rightarrow> bytes" where
  "i64_to_be_bytes i = nat_to_be 8 (nat (i mod 2 ^ 64))"

definition i64_from_be_bytes :: "bytes \<Rightarrow> int" where
  "i64_from_be_bytes bs = i64_wrap (int (be_to_nat bs))"

lemma u8_less: "unat (b :: u8) < 256"
  using unsigned_less [of b, where 'a = nat] by simp

lemma u16_less: "unat (w :: u16) < 65536"
  using unsigned_less [of w, where 'a = nat] by simp

lemma length_nat_to_be [simp]: "length (nat_to_be k n) = k"
  by (induction k) simp_all

lemma unat_u8_of_nat: "unat (word_of_nat n :: u8) = n mod 256"
  by (simp add: unat_of_nat)

lemma be_to_nat_foldl: "foldl (\<lambda>acc b. acc * 256 + unat b) a (bs :: bytes) = a * 256 ^ length bs + be_to_nat bs"
proof (induction bs arbitrary: a)
  case Nil
  then show ?case by (simp add: be_to_nat_def)
next
  case (Cons b bs)
  have "be_to_nat (b # bs) = unat b * 256 ^ length bs + be_to_nat bs"
    using Cons.IH [of "unat b"] by (simp add: be_to_nat_def)
  then show ?case
    using Cons.IH [of "a * 256 + unat b"] by (simp add: algebra_simps)
qed

lemma be_to_nat_Cons [be_simps]: "be_to_nat (b # bs) = unat b * 256 ^ length bs + be_to_nat bs"
  using be_to_nat_foldl [of "unat b" bs] by (simp add: be_to_nat_def)

lemma be_to_nat_Nil [simp]: "be_to_nat [] = 0"
  by (simp add: be_to_nat_def)

lemma be_to_nat_less: "be_to_nat bs < 256 ^ length bs"
proof (induction bs)
  case Nil
  then show ?case by simp
next
  case (Cons b bs)
  have "unat b \<le> 255" using u8_less [of b] by simp
  then have "unat b * 256 ^ length bs \<le> 255 * 256 ^ length bs" by (rule mult_right_mono) simp
  with Cons.IH have "unat b * 256 ^ length bs + be_to_nat bs < 255 * 256 ^ length bs + 256 ^ length bs"
    by linarith
  then show ?case by (simp add: be_to_nat_Cons)
qed

lemma be_to_nat_to_be: "be_to_nat (nat_to_be k n) = n mod 256 ^ k"
proof (induction k)
  case 0
  then show ?case by simp
next
  case (Suc k)
  have "n mod 256 ^ Suc k = 256 ^ k * (n div 256 ^ k mod 256) + n mod 256 ^ k"
    using mod_mult2_eq [of n "256 ^ k" 256] by (simp add: mult.commute)
  with Suc.IH show ?case
    by (simp add: be_to_nat_Cons unat_u8_of_nat mult.commute)
qed

lemma length_u16_to_be_bytes [simp]: "length (u16_to_be_bytes w) = 2"
  by (simp add: u16_to_be_bytes_def)

lemma u16_to_be_bytes_eq: "u16_to_be_bytes w = [word_of_nat (unat w div 256), ucast w]"
  by (simp add: u16_to_be_bytes_def numeral_2_eq_2)

lemma u16_be_roundtrip [simp]: "u16_from_be_bytes (word_of_nat (unat w div 256)) (ucast w) = w"
proof -
  have "unat w < 256 ^ 2" using u16_less [of w] by simp
  then have "be_to_nat (u16_to_be_bytes w) = unat w"
    by (simp add: u16_to_be_bytes_def be_to_nat_to_be)
  then show ?thesis by (simp add: u16_from_be_bytes_def u16_to_be_bytes_eq)
qed

lemma unat_u16_from_be_bytes [be_simps]: "unat (u16_from_be_bytes a b) = unat a * 256 + unat b"
proof -
  have "be_to_nat [a, b] < 256 ^ 2" using be_to_nat_less [of "[a, b]"] by simp
  then have "unat (word_of_nat (be_to_nat [a, b]) :: u16) = be_to_nat [a, b]"
    by (simp only: unat_of_nat) simp
  then show ?thesis by (simp only: u16_from_be_bytes_def) (simp add: be_to_nat_Cons)
qed

lemma u16_to_from_be [simp]: "u16_to_be_bytes (u16_from_be_bytes a b) = [a, b]"
proof -
  have "word_of_nat (unat (u16_from_be_bytes a b) div 256) = a"
    using u8_less [of b] by (simp add: unat_u16_from_be_bytes)
  moreover have "unat (ucast (u16_from_be_bytes a b) :: u8) = unat b"
    using u8_less [of b] by (simp add: unsigned_ucast_eq take_bit_eq_mod unat_u16_from_be_bytes)
  then have "ucast (u16_from_be_bytes a b) = b" by (rule unsigned_word_eqI)
  ultimately show ?thesis by (simp add: u16_to_be_bytes_eq)
qed

lemma unat_u16_of_len: "n \<le> 65535 \<Longrightarrow> unat (word_of_nat n :: u16) = n"
  by (simp add: unat_of_nat)

lemma u16_len_fields:
  assumes "n \<le> 65535"
  shows "unat (u16_from_be_bytes (word_of_nat (n div 256)) (ucast (word_of_nat n :: u16))) = n"
  using u16_be_roundtrip [of "word_of_nat n"] assms by (simp only: unat_u16_of_len)

lemma u16_of_nat_be [simp]: "n < 65536 \<Longrightarrow> unat (word_of_nat n :: u16) = n"
  by (simp add: unat_of_nat)

lemma length_i64_to_be_bytes [simp]: "length (i64_to_be_bytes i) = 8"
  by (simp add: i64_to_be_bytes_def)

lemma i64_be_roundtrip: "i64_range i \<Longrightarrow> i64_from_be_bytes (i64_to_be_bytes i) = i"
proof -
  assume i: "i64_range i"
  have lt: "nat (i mod 2 ^ 64) < 256 ^ 8"
    by (simp add: nat_less_iff)
  then have "int (be_to_nat (i64_to_be_bytes i)) = i mod 2 ^ 64"
    by (simp add: i64_to_be_bytes_def be_to_nat_to_be)
  then show ?thesis
    using i by (simp only: i64_from_be_bytes_def i64_wrap_mod i64_wrap_id)
qed

section \<open>Slices\<close>

text \<open>\<open>&buf[a..b]\<close>; the source guards every use by a length check.\<close>

definition slice :: "nat \<Rightarrow> nat \<Rightarrow> 'a list \<Rightarrow> 'a list" where
  "slice a b xs = take (b - a) (drop a xs)"

lemma length_slice: "b \<le> length xs \<Longrightarrow> length (slice a b xs) = b - a"
  by (simp add: slice_def)

lemma slice_append_stable [slice_simps]: "b \<le> length xs \<Longrightarrow> slice a b (xs @ ys) = slice a b xs"
  by (cases "a \<le> b") (simp_all add: slice_def)

lemma slice_mid: "length xs = a \<Longrightarrow> a + length ys = b \<Longrightarrow> slice a b (xs @ ys @ zs) = ys"
  by (auto simp: slice_def)

lemma nth_at: "length xs = n \<Longrightarrow> (xs @ y # ys) ! n = y"
  by (auto simp: nth_append)

lemma split_at: "n \<le> length xs \<Longrightarrow> \<exists>ys zs. xs = ys @ zs \<and> length ys = n"
  by (rule exI [of _ "take n xs"], rule exI [of _ "drop n xs"]) simp

lemma slice_0 [simp]: "slice 0 n xs = take n xs"
  by (simp add: slice_def)

lemma nth_append_stable [slice_simps]: "i < length xs \<Longrightarrow> (xs @ ys) ! i = xs ! i"
  by (simp add: nth_append)

section \<open>Searching\<close>

text \<open>\<open>iter().position(p)\<close>: the index of the first element with \<open>p\<close>.\<close>

fun position :: "('a \<Rightarrow> bool) \<Rightarrow> 'a list \<Rightarrow> nat option" where
  "position p [] = None"
| "position p (x # xs) = (if p x then Some 0 else map_option Suc (position p xs))"

lemma position_Some_iff:
  "position p xs = Some i \<longleftrightarrow> i < length xs \<and> p (xs ! i) \<and> (\<forall>j < i. \<not> p (xs ! j))"
proof (induction xs arbitrary: i)
  case Nil
  then show ?case by simp
next
  case (Cons x xs)
  show ?case
  proof (cases i)
    case 0
    then show ?thesis by auto
  next
    case (Suc k)
    then show ?thesis using Cons.IH [of k] by (auto simp: nth_Cons less_Suc_eq_0_disj)
  qed
qed

lemma position_None_iff: "position p xs = None \<longleftrightarrow> (\<forall>x \<in> set xs. \<not> p x)"
  by (induction xs) auto

lemma position_append_Some: "position p xs = Some i \<Longrightarrow> position p (xs @ ys) = Some i"
  by (auto simp: position_Some_iff nth_append)

lemma position_append_None:
  "position p xs = None \<Longrightarrow> position p (xs @ ys) = map_option ((+) (length xs)) (position p ys)"
proof (induction xs)
  case Nil
  then show ?case by (cases "position p ys") simp_all
next
  case (Cons x xs)
  then show ?case by (cases "position p ys") (auto split: if_splits)
qed

end
