(* ===== verification/Rust_Text.thy ===== *)
theory Rust_Text
  imports Prelude "HOL-Library.Sublist"
begin

text \<open>
  The part of Rust's \<open>str\<close> and integer parsing that the sources use. A Rust \<open>String\<close> is the list of
  its UTF-8 bytes, written as a HOL \<open>string\<close> (a HOL character is one byte); \<open>wf_str\<close> is the type
  invariant of \<open>str\<close>, that those bytes are well-formed UTF-8. The theory defines UTF-8 validation
  and lossy decoding, trimming of Unicode white space, ASCII case folding, splitting, decimal
  printing and \<open>FromStr\<close> of the integer types, with the laws the component theories rest on.
\<close>

section \<open>Strings and bytes\<close>

definition char_byte :: "char \<Rightarrow> u8" where
  "char_byte c = word_of_nat (of_char c)"

definition byte_char :: "u8 \<Rightarrow> char" where
  "byte_char b = char_of (unat b)"

definition as_bytes :: "string \<Rightarrow> bytes" where
  "as_bytes s = map char_byte s"

definition bytes_str :: "bytes \<Rightarrow> string" where
  "bytes_str bs = map byte_char bs"

lemma byte_char_byte [simp]: "byte_char (char_byte c) = c"
  by (simp add: byte_char_def char_byte_def unat_of_nat)

lemma char_byte_char [simp]: "char_byte (byte_char b) = b"
  using u8_less [of b] by (simp add: byte_char_def char_byte_def)

lemma bytes_str_as_bytes [simp]: "bytes_str (as_bytes s) = s"
  by (simp add: bytes_str_def as_bytes_def comp_def)

lemma as_bytes_bytes_str [simp]: "as_bytes (bytes_str bs) = bs"
  by (simp add: bytes_str_def as_bytes_def comp_def)

lemma length_as_bytes [simp]: "length (as_bytes s) = length s"
  by (simp add: as_bytes_def)

lemma length_bytes_str [simp]: "length (bytes_str bs) = length bs"
  by (simp add: bytes_str_def)

lemma as_bytes_append [simp]: "as_bytes (s @ t) = as_bytes s @ as_bytes t"
  by (simp add: as_bytes_def)

lemma as_bytes_inj [simp]: "as_bytes s = as_bytes t \<longleftrightarrow> s = t"
  by (metis bytes_str_as_bytes)

section \<open>UTF-8\<close>

text \<open>
  One step of the standard library's validation loop: the width of the well-formed character at the
  front, or the number of bytes of the maximal ill-formed prefix. A missing byte reads as 0, which
  is no continuation byte.
\<close>

datatype utf8_step = Utf8_Char nat | Utf8_Bad nat

definition utf8_cont :: "u8 \<Rightarrow> bool" where
  "utf8_cont b \<longleftrightarrow> 0x80 \<le> b \<and> b \<le> 0xBF"

definition byte_at :: "bytes \<Rightarrow> nat \<Rightarrow> u8" where
  "byte_at bs i = (if i < length bs then bs ! i else 0)"

definition utf8_second3 :: "u8 \<Rightarrow> u8 \<Rightarrow> bool" where
  "utf8_second3 a b \<longleftrightarrow>
     (a = 0xE0 \<and> 0xA0 \<le> b \<and> b \<le> 0xBF) \<or>
     (0xE1 \<le> a \<and> a \<le> 0xEC \<and> utf8_cont b) \<or>
     (a = 0xED \<and> 0x80 \<le> b \<and> b \<le> 0x9F) \<or>
     (0xEE \<le> a \<and> a \<le> 0xEF \<and> utf8_cont b)"

definition utf8_second4 :: "u8 \<Rightarrow> u8 \<Rightarrow> bool" where
  "utf8_second4 a b \<longleftrightarrow>
     (a = 0xF0 \<and> 0x90 \<le> b \<and> b \<le> 0xBF) \<or>
     (0xF1 \<le> a \<and> a \<le> 0xF3 \<and> utf8_cont b) \<or>
     (a = 0xF4 \<and> 0x80 \<le> b \<and> b \<le> 0x8F)"

definition utf8_next :: "bytes \<Rightarrow> utf8_step" where
  "utf8_next bs =
    (let a = byte_at bs 0 in
     if a < 0x80 then Utf8_Char 1
     else if 0xC2 \<le> a \<and> a \<le> 0xDF then
       (if utf8_cont (byte_at bs 1) then Utf8_Char 2 else Utf8_Bad 1)
     else if 0xE0 \<le> a \<and> a \<le> 0xEF then
       (if \<not> utf8_second3 a (byte_at bs 1) then Utf8_Bad 1
        else if \<not> utf8_cont (byte_at bs 2) then Utf8_Bad 2 else Utf8_Char 3)
     else if 0xF0 \<le> a \<and> a \<le> 0xF4 then
       (if \<not> utf8_second4 a (byte_at bs 1) then Utf8_Bad 1
        else if \<not> utf8_cont (byte_at bs 2) then Utf8_Bad 2
        else if \<not> utf8_cont (byte_at bs 3) then Utf8_Bad 3 else Utf8_Char 4)
     else Utf8_Bad 1)"

lemma utf8_next_pos: "utf8_next bs = Utf8_Char n \<Longrightarrow> 0 < n" "utf8_next bs = Utf8_Bad n \<Longrightarrow> 0 < n"
  by (auto simp: utf8_next_def Let_def split: if_splits)

function utf8_valid :: "bytes \<Rightarrow> bool" where
  "utf8_valid bs = (if bs = [] then True else
     (case utf8_next bs of Utf8_Char n \<Rightarrow> utf8_valid (drop n bs) | Utf8_Bad _ \<Rightarrow> False))"
  by pat_completeness auto
termination
  by (relation "measure length") (auto dest: utf8_next_pos(1))

function utf8_lossy :: "bytes \<Rightarrow> bytes" where
  "utf8_lossy bs = (if bs = [] then [] else
     (case utf8_next bs of
        Utf8_Char n \<Rightarrow> take n bs @ utf8_lossy (drop n bs)
      | Utf8_Bad n \<Rightarrow> [0xEF, 0xBF, 0xBD] @ utf8_lossy (drop n bs)))"
  by pat_completeness auto
termination
  by (relation "measure length") (auto dest: utf8_next_pos)

declare utf8_valid.simps [simp del] utf8_lossy.simps [simp del]

text \<open>\<open>str::from_utf8\<close> and \<open>String::from_utf8_lossy\<close>.\<close>

definition from_utf8 :: "bytes \<Rightarrow> string option" where
  "from_utf8 bs = (if utf8_valid bs then Some (bytes_str bs) else None)"

definition from_utf8_lossy :: "bytes \<Rightarrow> string" where
  "from_utf8_lossy bs = bytes_str (utf8_lossy bs)"

definition wf_str :: "string \<Rightarrow> bool" where
  "wf_str s = utf8_valid (as_bytes s)"

text \<open>\<open>Utf8Error\<close> and its text: the length of the valid prefix, and the width of the bad sequence unless it is cut off by the end of the input.\<close>

function utf8_valid_up_to :: "nat \<Rightarrow> bytes \<Rightarrow> nat" where
  "utf8_valid_up_to i bs = (if bs = [] then i else
     (case utf8_next bs of Utf8_Char n \<Rightarrow> utf8_valid_up_to (i + n) (drop n bs) | Utf8_Bad _ \<Rightarrow> i))"
  by pat_completeness auto
termination
  by (relation "measure (length \<circ> snd)") (auto dest: utf8_next_pos)

declare utf8_valid_up_to.simps [simp del]

definition utf8_error_len :: "bytes \<Rightarrow> nat option" where
  "utf8_error_len bs =
    (let rest = drop (utf8_valid_up_to 0 bs) bs in
     case utf8_next rest of
       Utf8_Bad n \<Rightarrow> if n = length rest \<and> 0xC2 \<le> byte_at rest 0 \<and> byte_at rest 0 \<le> 0xF4 then None else Some n
     | Utf8_Char n \<Rightarrow> None)"

lemma utf8_lossy_valid: "utf8_valid bs \<Longrightarrow> utf8_lossy bs = bs"
proof (induction bs rule: utf8_valid.induct)
  case (1 bs)
  show ?case
  proof (cases "bs = []")
    case True
    then show ?thesis by (simp add: utf8_lossy.simps)
  next
    case False
    with "1.prems" obtain n where n: "utf8_next bs = Utf8_Char n" "utf8_valid (drop n bs)"
      by (subst (asm) utf8_valid.simps) (auto split: utf8_step.splits)
    then have "utf8_lossy (drop n bs) = drop n bs" using False "1.IH" by blast
    with n False show ?thesis by (subst utf8_lossy.simps) simp
  qed
qed

lemma from_utf8_as_bytes [simp]: "wf_str s \<Longrightarrow> from_utf8 (as_bytes s) = Some s"
  by (simp add: from_utf8_def wf_str_def)

lemma from_utf8_lossy_as_bytes [simp]: "wf_str s \<Longrightarrow> from_utf8_lossy (as_bytes s) = s"
  by (simp add: from_utf8_lossy_def wf_str_def utf8_lossy_valid)

lemma from_utf8_Some: "from_utf8 bs = Some s \<Longrightarrow> wf_str s \<and> as_bytes s = bs"
  by (auto simp: from_utf8_def wf_str_def split: if_splits)

text \<open>Every ASCII string is well formed.\<close>

definition ascii_str :: "string \<Rightarrow> bool" where
  "ascii_str s \<longleftrightarrow> list_all (\<lambda>c. of_char c < (128 :: nat)) s"

lemma char_byte_ascii: "of_char c < (128 :: nat) \<Longrightarrow> char_byte c < 0x80"
  by (simp add: char_byte_def word_less_nat_alt unat_of_nat)

lemma ascii_wf_str: "ascii_str s \<Longrightarrow> wf_str s"
proof (induction s)
  case Nil
  then show ?case by (simp add: wf_str_def as_bytes_def utf8_valid.simps)
next
  case (Cons c s)
  then have "utf8_valid (as_bytes s)" by (simp add: wf_str_def ascii_str_def)
  moreover have "utf8_next (as_bytes (c # s)) = Utf8_Char 1"
    using Cons.prems
    by (simp add: utf8_next_def byte_at_def as_bytes_def ascii_str_def char_byte_ascii)
  ultimately show ?case
    by (simp add: wf_str_def utf8_valid.simps [of "as_bytes (c # s)"]) (simp add: as_bytes_def)
qed

section \<open>White space and trimming\<close>

text \<open>\<open>char::is_whitespace\<close> on the UTF-8 bytes of one character (the Unicode \<open>White_Space\<close> property).\<close>

fun is_ws :: "string \<Rightarrow> bool" where
  "is_ws [a] = (let n = of_char a :: nat in (9 \<le> n \<and> n \<le> 13) \<or> n = 32)"
| "is_ws [a, b] = (let n = of_char b :: nat in of_char a = (0xC2 :: nat) \<and> (n = 0x85 \<or> n = 0xA0))"
| "is_ws [a, b, c] =
    (let l = of_char a :: nat; m = of_char b :: nat; n = of_char c :: nat in
     (l = 0xE1 \<and> m = 0x9A \<and> n = 0x80) \<or>
     (l = 0xE2 \<and> m = 0x80 \<and> ((0x80 \<le> n \<and> n \<le> 0x8A) \<or> n = 0xA8 \<or> n = 0xA9 \<or> n = 0xAF)) \<or>
     (l = 0xE2 \<and> m = 0x81 \<and> n = 0x9F) \<or>
     (l = 0xE3 \<and> m = 0x80 \<and> n = 0x80))"
| "is_ws _ = False"

definition ws_front :: "string \<Rightarrow> nat" where
  "ws_front s = (if is_ws (take 1 s) then 1 else if is_ws (take 2 s) then 2
                 else if is_ws (take 3 s) then 3 else 0)"

definition take_end :: "nat \<Rightarrow> 'a list \<Rightarrow> 'a list" where
  "take_end n xs = drop (length xs - n) xs"

definition ws_back :: "string \<Rightarrow> nat" where
  "ws_back s = (if is_ws (take_end 1 s) then 1 else if is_ws (take_end 2 s) then 2
                else if is_ws (take_end 3 s) then 3 else 0)"

lemma is_ws_Nil [simp]: "\<not> is_ws []"
  by simp

lemma ws_front_Nil [simp]: "ws_front [] = 0"
  by (simp add: ws_front_def)

lemma ws_back_Nil [simp]: "ws_back [] = 0"
  by (simp add: ws_back_def take_end_def)

function trim_start :: "string \<Rightarrow> string" where
  "trim_start s = (if ws_front s = 0 then s else trim_start (drop (ws_front s) s))"
  by pat_completeness auto
termination
  by (relation "measure length") (auto simp: neq_Nil_conv intro!: diff_less)

function trim_end :: "string \<Rightarrow> string" where
  "trim_end s = (if ws_back s = 0 then s else trim_end (take (length s - ws_back s) s))"
  by pat_completeness auto
termination
  by (relation "measure length") (auto simp: neq_Nil_conv intro!: diff_less)

declare trim_start.simps [simp del] trim_end.simps [simp del]

definition trim :: "string \<Rightarrow> string" where
  "trim s = trim_end (trim_start s)"

lemma trim_start_front: "ws_front (trim_start s) = 0"
  by (induction s rule: trim_start.induct) (subst trim_start.simps, auto)

lemma trim_end_back: "ws_back (trim_end s) = 0"
  by (induction s rule: trim_end.induct) (subst trim_end.simps, auto)

lemma trim_start_id: "ws_front s = 0 \<Longrightarrow> trim_start s = s"
  by (subst trim_start.simps) simp

lemma trim_end_id: "ws_back s = 0 \<Longrightarrow> trim_end s = s"
  by (subst trim_end.simps) simp

lemma prefix_trim_end: "prefix (trim_end s) s"
proof (induction s rule: trim_end.induct)
  case (1 s)
  show ?case
  proof (cases "ws_back s = 0")
    case True
    then show ?thesis by (simp add: trim_end_id)
  next
    case False
    then have "prefix (trim_end s) (take (length s - ws_back s) s)"
      using "1.IH" by (subst trim_end.simps) simp
    then show ?thesis using take_is_prefix prefix_order.trans by blast
  qed
qed

lemma suffix_trim_start: "suffix (trim_start s) s"
proof (induction s rule: trim_start.induct)
  case (1 s)
  show ?case
  proof (cases "ws_front s = 0")
    case True
    then show ?thesis by (simp add: trim_start_id)
  next
    case False
    then have "suffix (trim_start s) (drop (ws_front s) s)"
      using "1.IH" by (subst trim_start.simps) simp
    then show ?thesis using suffix_drop suffix_order.trans by blast
  qed
qed

lemma set_trim: "set (trim s) \<subseteq> set s"
  unfolding trim_def
  using set_mono_prefix [OF prefix_trim_end] set_mono_suffix [OF suffix_trim_start] by blast

lemma length_trim: "length (trim s) \<le> length s"
  unfolding trim_def
  using prefix_length_le [OF prefix_trim_end] suffix_length_le [OF suffix_trim_start] le_trans by blast

lemma ws_front_prefix: "prefix t s \<Longrightarrow> ws_front s = 0 \<Longrightarrow> ws_front t = 0"
proof -
  assume "prefix t s" and s: "ws_front s = 0"
  then obtain u where u: "s = t @ u" by (auto elim: prefixE)
  have "\<not> is_ws (take k t)" if "k = 1 \<or> k = 2 \<or> k = 3" for k
  proof (cases "k \<le> length t")
    case True
    then have "take k t = take k s" by (simp add: u)
    with s that show ?thesis by (auto simp: ws_front_def split: if_splits)
  next
    case False
    then have "take k t = take (length t) s" by (simp add: u)
    moreover have "length t = 0 \<or> length t = 1 \<or> length t = 2" using False that by presburger
    ultimately show ?thesis using s by (auto simp: ws_front_def split: if_splits)
  qed
  then show "ws_front t = 0" by (simp add: ws_front_def)
qed

lemma trim_front: "ws_front (trim s) = 0"
  unfolding trim_def by (rule ws_front_prefix [OF prefix_trim_end trim_start_front])

lemma trim_id: "ws_front s = 0 \<Longrightarrow> ws_back s = 0 \<Longrightarrow> trim s = s"
  by (simp add: trim_def trim_start_id trim_end_id)

lemma trim_idem [simp]: "trim (trim s) = trim s"
  by (rule trim_id [OF trim_front]) (simp add: trim_def trim_end_back)

lemma trim_Nil [simp]: "trim [] = []"
  by (simp add: trim_id)

text \<open>A string without any white-space bytes at its ends is its own trimming.\<close>

definition solid_char :: "char \<Rightarrow> bool" where
  "solid_char c \<longleftrightarrow> (let n = of_char c :: nat in 33 \<le> n \<and> n < 128)"

lemma is_ws_solid:
  "solid_char c \<Longrightarrow> \<not> is_ws (c # s)" "solid_char c \<Longrightarrow> \<not> is_ws (s @ [c])"
proof -
  assume c: "solid_char c"
  show "\<not> is_ws (c # s)"
    using c by (cases "c # s" rule: is_ws.cases) (auto simp: solid_char_def Let_def)
  show "\<not> is_ws (s @ [c])"
    using c by (cases "s @ [c]" rule: is_ws.cases) (auto simp: solid_char_def Let_def)
qed

lemma ws_front_solid: "solid_char c \<Longrightarrow> ws_front (c # s) = 0"
  by (simp add: ws_front_def is_ws_solid take_Cons' del: is_ws.simps)

lemma ws_back_solid: "solid_char c \<Longrightarrow> ws_back (s @ [c]) = 0"
proof -
  assume c: "solid_char c"
  have "\<not> is_ws (take_end k (s @ [c]))" if "0 < k" for k
  proof -
    have "take_end k (s @ [c]) = drop (Suc (length s) - k) s @ [c]"
      using that by (simp add: take_end_def)
    then show ?thesis using is_ws_solid(2) [OF c] by simp
  qed
  then show ?thesis by (simp add: ws_back_def)
qed

lemma trim_solid: "solid_char (hd s) \<Longrightarrow> solid_char (last s) \<Longrightarrow> s \<noteq> [] \<Longrightarrow> trim s = s"
  using ws_front_solid [of "hd s" "tl s"] ws_back_solid [of "last s" "butlast s"]
  by (simp add: trim_id)

lemma trim_all_solid: "list_all solid_char s \<Longrightarrow> trim s = s"
  by (cases "s = []") (auto intro!: trim_solid simp: list_all_iff)

section \<open>ASCII case\<close>

definition ascii_lower :: "char \<Rightarrow> char" where
  "ascii_lower c = (let n = of_char c :: nat in if 65 \<le> n \<and> n \<le> 90 then char_of (n + 32) else c)"

definition to_ascii_lowercase :: "string \<Rightarrow> string" where
  "to_ascii_lowercase s = map ascii_lower s"

definition eq_ignore_ascii_case :: "string \<Rightarrow> string \<Rightarrow> bool" where
  "eq_ignore_ascii_case a b \<longleftrightarrow> to_ascii_lowercase a = to_ascii_lowercase b"

lemma ascii_lower_idem [simp]: "ascii_lower (ascii_lower c) = ascii_lower c"
  by (simp add: ascii_lower_def Let_def)

lemma to_ascii_lowercase_idem [simp]: "to_ascii_lowercase (to_ascii_lowercase s) = to_ascii_lowercase s"
  by (simp add: to_ascii_lowercase_def)

lemma length_to_ascii_lowercase [simp]: "length (to_ascii_lowercase s) = length s"
  by (simp add: to_ascii_lowercase_def)

section \<open>Splitting and searching\<close>

definition starts_with :: "string \<Rightarrow> string \<Rightarrow> bool" where
  "starts_with s p \<longleftrightarrow> take (length p) s = p"

definition ends_with :: "string \<Rightarrow> string \<Rightarrow> bool" where
  "ends_with s p \<longleftrightarrow> length p \<le> length s \<and> take_end (length p) s = p"

lemma ends_with_append: "ends_with s t \<longleftrightarrow> (\<exists>u. s = u @ t)"
  unfolding ends_with_def take_end_def by (metis append_eq_conv_conj append_take_drop_id diff_add_inverse2 le_add2 length_append)

definition strip_prefix :: "string \<Rightarrow> string \<Rightarrow> string option" where
  "strip_prefix p s = (if starts_with s p then Some (drop (length p) s) else None)"

fun str_find :: "string \<Rightarrow> string \<Rightarrow> nat option" where
  "str_find p [] = (if p = [] then Some 0 else None)"
| "str_find p (c # s) = (if starts_with (c # s) p then Some 0 else map_option Suc (str_find p s))"

definition str_contains :: "string \<Rightarrow> string \<Rightarrow> bool" where
  "str_contains s p \<longleftrightarrow> str_find p s \<noteq> None"

definition split_once :: "char \<Rightarrow> string \<Rightarrow> (string \<times> string) option" where
  "split_once c s = map_option (\<lambda>i. (take i s, drop (Suc i) s)) (position ((=) c) s)"

definition split_once_str :: "string \<Rightarrow> string \<Rightarrow> (string \<times> string) option" where
  "split_once_str p s = map_option (\<lambda>i. (take i s, drop (i + length p) s)) (str_find p s)"

definition rsplit_once :: "char \<Rightarrow> string \<Rightarrow> (string \<times> string) option" where
  "rsplit_once c s = map_option (\<lambda>i. (take (length s - Suc i) s, drop (length s - i) s))
                       (position ((=) c) (rev s))"

text \<open>\<open>str::split\<close> by a set of separator characters: always at least one part.\<close>

fun split_on :: "(char \<Rightarrow> bool) \<Rightarrow> string \<Rightarrow> string list" where
  "split_on p [] = [[]]"
| "split_on p (c # s) = (if p c then [] # split_on p s
     else (case split_on p s of [] \<Rightarrow> [[c]] | w # ws \<Rightarrow> (c # w) # ws))"

lemma split_once_append:
  "c \<notin> set a \<Longrightarrow> split_once c (a @ c # b) = Some (a, b)"
proof -
  assume a: "c \<notin> set a"
  then have "position ((=) c) a = None" by (auto simp: position_None_iff)
  then have "position ((=) c) (a @ c # b) = Some (length a)"
    by (simp add: position_append_None)
  then show ?thesis by (simp add: split_once_def)
qed

lemma split_once_Some: "split_once c s = Some (a, b) \<Longrightarrow> s = a @ c # b \<and> c \<notin> set a"
proof -
  assume "split_once c s = Some (a, b)"
  then obtain i where i: "position ((=) c) s = Some i" and ab: "a = take i s" "b = drop (Suc i) s"
    by (auto simp: split_once_def)
  then have l: "i < length s" and c: "s ! i = c" and n: "\<forall>j < i. s ! j \<noteq> c"
    by (auto simp: position_Some_iff)
  have "s = a @ c # b" using id_take_nth_drop [OF l] c by (simp add: ab)
  moreover have "c \<notin> set a" using n l by (auto simp: ab in_set_conv_nth)
  ultimately show ?thesis by simp
qed

lemma rsplit_once_append:
  "c \<notin> set b \<Longrightarrow> rsplit_once c (a @ c # b) = Some (a, b)"
proof -
  assume b: "c \<notin> set b"
  then have "position ((=) c) (rev b) = None" by (auto simp: position_None_iff)
  then have "position ((=) c) (rev (a @ c # b)) = Some (length b)"
    by (simp add: position_append_None)
  then show ?thesis by (simp add: rsplit_once_def)
qed

lemma split_on_nonempty [simp]: "split_on p s \<noteq> []"
  by (induction s) (auto split: list.splits)

lemma split_on_single: "(\<forall>c \<in> set s. \<not> p c) \<Longrightarrow> split_on p s = [s]"
  by (induction s) auto

lemma hd_split_on_append: "(\<forall>c \<in> set a. \<not> p c) \<Longrightarrow> p c \<Longrightarrow> hd (split_on p (a @ c # b)) = a"
  by (induction a) (auto split: list.splits)

section \<open>Decimal integers\<close>

definition digit_char :: "nat \<Rightarrow> char" where
  "digit_char n = char_of (48 + n)"

definition digit_val :: "char \<Rightarrow> nat option" where
  "digit_val c = (let n = of_char c :: nat in if 48 \<le> n \<and> n \<le> 57 then Some (n - 48) else None)"

fun show_nat :: "nat \<Rightarrow> string" where
  "show_nat n = (if n < 10 then [digit_char n] else show_nat (n div 10) @ [digit_char (n mod 10)])"

declare show_nat.simps [simp del]

definition show_int :: "int \<Rightarrow> string" where
  "show_int i = (if i < 0 then CHR ''-'' # show_nat (nat (- i)) else show_nat (nat i))"

fun parse_digits :: "nat \<Rightarrow> string \<Rightarrow> nat option" where
  "parse_digits acc [] = Some acc"
| "parse_digits acc (c # s) =
     (case digit_val c of None \<Rightarrow> None | Some d \<Rightarrow> parse_digits (acc * 10 + d) s)"

text \<open>
  \<open>FromStr\<close> of the unsigned integer types: an optional \<open>+\<close>, at least one digit, no overflow. The
  signed type accepts \<open>-\<close> as well.
\<close>

definition strip_plus :: "string \<Rightarrow> string" where
  "strip_plus s = (case s of [] \<Rightarrow> [] | c # r \<Rightarrow> if c = CHR ''+'' then r else s)"

definition parse_unsigned :: "nat \<Rightarrow> string \<Rightarrow> nat option" where
  "parse_unsigned maxv s =
    (let b = strip_plus s in
     if b = [] then None
     else case parse_digits 0 b of None \<Rightarrow> None | Some n \<Rightarrow> if n \<le> maxv then Some n else None)"

definition parse_u16 :: "string \<Rightarrow> u16 option" where
  "parse_u16 s = map_option word_of_nat (parse_unsigned (2 ^ 16 - 1) s)"

definition parse_i64 :: "string \<Rightarrow> int option" where
  "parse_i64 s = (case s of
      [] \<Rightarrow> None
    | c # r \<Rightarrow>
        if c = CHR ''-'' then
          (if r = [] then None
           else case parse_digits 0 r of None \<Rightarrow> None
                | Some n \<Rightarrow> if int n \<le> 2 ^ 63 then Some (- int n) else None)
        else map_option int (parse_unsigned (2 ^ 63 - 1) s))"

lemma digit_val_char [simp]: "n < 10 \<Longrightarrow> digit_val (digit_char n) = Some n"
  by (simp add: digit_val_def digit_char_def)

lemma parse_digits_append:
  "parse_digits acc (s @ t) = (case parse_digits acc s of None \<Rightarrow> None | Some n \<Rightarrow> parse_digits n t)"
  by (induction s arbitrary: acc) (auto split: option.splits)

lemma parse_digits_show_nat: "parse_digits 0 (show_nat n) = Some n"
proof (induction n rule: show_nat.induct)
  case (1 n)
  show ?case
  proof (cases "n < 10")
    case True
    then show ?thesis by (simp add: show_nat.simps [of n])
  next
    case False
    with "1.IH" show ?thesis by (simp add: show_nat.simps [of n] parse_digits_append)
  qed
qed

lemma show_nat_nonempty [simp]: "show_nat n \<noteq> []"
  by (subst show_nat.simps) simp

definition dec_char :: "char \<Rightarrow> bool" where
  "dec_char c \<longleftrightarrow> digit_val c \<noteq> None"

lemma show_nat_digits: "c \<in> set (show_nat n) \<Longrightarrow> dec_char c"
proof (induction n rule: show_nat.induct)
  case (1 n)
  then show ?case
    by (subst (asm) show_nat.simps) (auto simp: dec_char_def split: if_splits)
qed

lemma dec_char_solid: "dec_char c \<Longrightarrow> solid_char c"
  by (auto simp: dec_char_def digit_val_def solid_char_def Let_def split: if_splits)

lemma strip_plus_show_nat [simp]: "strip_plus (show_nat n) = show_nat n"
proof -
  have "hd (show_nat n) \<in> set (show_nat n)" by simp
  then have "dec_char (hd (show_nat n))" by (rule show_nat_digits)
  then have "hd (show_nat n) \<noteq> CHR ''+''" by (auto simp: dec_char_def digit_val_def)
  then show ?thesis by (auto simp: strip_plus_def split: list.splits)
qed

lemma parse_unsigned_show_nat: "n \<le> maxv \<Longrightarrow> parse_unsigned maxv (show_nat n) = Some n"
  by (simp add: parse_unsigned_def parse_digits_show_nat)

lemma parse_u16_show [simp]: "parse_u16 (show_nat (unat w)) = Some w"
  using u16_less [of w] by (simp add: parse_u16_def parse_unsigned_show_nat)

lemma parse_i64_show_int: "i64_range i \<Longrightarrow> parse_i64 (show_int i) = Some i"
proof (cases "i < 0")
  case True
  assume "i64_range i"
  with True show ?thesis
    by (simp add: parse_i64_def show_int_def parse_digits_show_nat i64_range_def i64_min_def)
next
  case False
  assume r: "i64_range i"
  have n: "parse_unsigned (2 ^ 63 - 1) (show_nat (nat i)) = Some (nat i)"
    using r False by (intro parse_unsigned_show_nat) (simp add: i64_range_def i64_max_def nat_le_iff)
  have "hd (show_nat (nat i)) \<in> set (show_nat (nat i))" by simp
  then have "dec_char (hd (show_nat (nat i)))" by (rule show_nat_digits)
  then have "hd (show_nat (nat i)) \<noteq> CHR ''-''" by (auto simp: dec_char_def digit_val_def)
  with n False show ?thesis by (auto simp: parse_i64_def show_int_def split: list.splits)
qed

lemma show_int_chars: "c \<in> set (show_int i) \<Longrightarrow> dec_char c \<or> c = CHR ''-''"
  by (auto simp: show_int_def dest: show_nat_digits split: if_splits)

text \<open>\<open>Display\<close> of \<open>Utf8Error\<close>.\<close>

definition utf8_error_text :: "bytes \<Rightarrow> string" where
  "utf8_error_text bs = (case utf8_error_len bs of
      Some n \<Rightarrow> ''invalid utf-8 sequence of '' @ show_nat n @ '' bytes from index '' @ show_nat (utf8_valid_up_to 0 bs)
    | None \<Rightarrow> ''incomplete utf-8 byte sequence from index '' @ show_nat (utf8_valid_up_to 0 bs))"

lemma show_nat_inj: "show_nat m = show_nat n \<Longrightarrow> m = n"
  by (metis option.inject parse_digits_show_nat)

end
