(* ===== verification/Net_Addr.thy ===== *)
theory Net_Addr
  imports Rust_Text "HOL-Library.Monad_Syntax"
begin

text \<open>
  \<open>std::net\<close> as the wire protocols and the routing rules use it: \<open>FromStr\<close> and \<open>Display\<close> of
  \<open>Ipv4Addr\<close> and \<open>Ipv6Addr\<close>. An address is the list of its octets (4 or 16). The parsers follow the
  standard library's recursive-descent parser (strict decimal groups for IPv4, at most one \<open>::\<close> and an
  optional embedded IPv4 tail for IPv6); the printers give the canonical text (RFC 5952). The main
  fact is that the IPv4 parser accepts exactly the canonical texts.
\<close>

section \<open>Reading numbers\<close>

definition digit_radix :: "nat \<Rightarrow> char \<Rightarrow> nat option" where
  "digit_radix r c =
    (let n = of_char c :: nat;
         d = (if 48 \<le> n \<and> n \<le> 57 then n - 48
              else if 97 \<le> n \<and> n \<le> 122 then n - 87
              else if 65 \<le> n \<and> n \<le> 90 then n - 55 else r)
     in if d < r then Some d else None)"

definition radix_digits :: "nat \<Rightarrow> string \<Rightarrow> nat list" where
  "radix_digits r s = map (\<lambda>c. the (digit_radix r c)) (takeWhile (\<lambda>c. digit_radix r c \<noteq> None) s)"

definition digits_value :: "nat \<Rightarrow> nat list \<Rightarrow> nat" where
  "digits_value r ds = foldl (\<lambda>acc d. acc * r + d) 0 ds"

definition read_number :: "nat \<Rightarrow> nat \<Rightarrow> bool \<Rightarrow> nat \<Rightarrow> string \<Rightarrow> (nat \<times> string) option" where
  "read_number r max_digits allow_zero_prefix maxv s =
    (let ds = radix_digits r s; rest = dropWhile (\<lambda>c. digit_radix r c \<noteq> None) s; v = digits_value r ds
     in if length ds > max_digits \<or> ds = [] then None
        else if \<not> allow_zero_prefix \<and> hd ds = 0 \<and> 1 < length ds then None
        else if v \<le> maxv then Some (v, rest) else None)"

definition read_given_char :: "char \<Rightarrow> string \<Rightarrow> string option" where
  "read_given_char c s = (case s of [] \<Rightarrow> None | x # xs \<Rightarrow> if x = c then Some xs else None)"

section \<open>IPv4\<close>

definition read_ipv4_addr :: "string \<Rightarrow> (nat list \<times> string) option" where
  "read_ipv4_addr s = do {
     (a, s) \<leftarrow> read_number 10 3 False 255 s;
     s \<leftarrow> read_given_char CHR ''.'' s;
     (b, s) \<leftarrow> read_number 10 3 False 255 s;
     s \<leftarrow> read_given_char CHR ''.'' s;
     (c, s) \<leftarrow> read_number 10 3 False 255 s;
     s \<leftarrow> read_given_char CHR ''.'' s;
     (d, s) \<leftarrow> read_number 10 3 False 255 s;
     Some ([a, b, c, d], s) }"

definition ipv4_parse :: "string \<Rightarrow> bytes option" where
  "ipv4_parse s =
    (if 15 < length s then None
     else case read_ipv4_addr s of
       Some (v, []) \<Rightarrow> Some (map word_of_nat v)
     | _ \<Rightarrow> None)"

definition ipv4_to_string :: "bytes \<Rightarrow> string" where
  "ipv4_to_string o4 =
     show_nat (unat (o4 ! 0)) @ ''.'' @ show_nat (unat (o4 ! 1)) @ ''.'' @
     show_nat (unat (o4 ! 2)) @ ''.'' @ show_nat (unat (o4 ! 3))"

section \<open>IPv6\<close>

text \<open>\<open>read_separator\<close>: a colon before every group but the first.\<close>

definition read_sep :: "bool \<Rightarrow> string \<Rightarrow> string option" where
  "read_sep first s = (if first then Some s else read_given_char CHR '':'' s)"

text \<open>
  \<open>read_groups\<close> with \<open>k\<close> groups left: an embedded IPv4 tail needs two of them. Returns the groups
  read, whether the last two came from an IPv4 tail, and the rest of the input.
\<close>

fun read_groups :: "nat \<Rightarrow> bool \<Rightarrow> string \<Rightarrow> nat list \<times> bool \<times> string" where
  "read_groups 0 first s = ([], False, s)"
| "read_groups (Suc k) first s =
    (case (if 0 < k then Option.bind (read_sep first s) read_ipv4_addr else None) of
       Some (v, r) \<Rightarrow> ([v ! 0 * 256 + v ! 1, v ! 2 * 256 + v ! 3], True, r)
     | None \<Rightarrow>
        (case Option.bind (read_sep first s) (read_number 16 4 True 65535) of
           None \<Rightarrow> ([], False, s)
         | Some (g, r) \<Rightarrow> (case read_groups k False r of (gs, v4, r') \<Rightarrow> (g # gs, v4, r'))))"

definition read_ipv6_addr :: "string \<Rightarrow> (nat list \<times> string) option" where
  "read_ipv6_addr s =
    (case read_groups 8 True s of (head, head_ipv4, r) \<Rightarrow>
       if length head = 8 then Some (head, r)
       else if head_ipv4 then None
       else do {
         r \<leftarrow> read_given_char CHR '':'' r;
         r \<leftarrow> read_given_char CHR '':'' r;
         (case read_groups (7 - length head) True r of (tail, _, r') \<Rightarrow>
            Some (head @ replicate (8 - length head - length tail) 0 @ tail, r')) })"

definition ipv6_parse :: "string \<Rightarrow> bytes option" where
  "ipv6_parse s = (case read_ipv6_addr s of
      Some (g, []) \<Rightarrow> Some (concat (map (nat_to_be 2) g))
    | _ \<Rightarrow> None)"

fun hex_digit :: "nat \<Rightarrow> char" where
  "hex_digit n = (if n < 10 then char_of (48 + n) else char_of (87 + n))"

fun show_hex :: "nat \<Rightarrow> string" where
  "show_hex n = (if n < 16 then [hex_digit n] else show_hex (n div 16) @ [hex_digit (n mod 16)])"

declare show_hex.simps [simp del]

fun join :: "string \<Rightarrow> string list \<Rightarrow> string" where
  "join sep [] = []"
| "join sep [w] = w"
| "join sep (w # ws) = w @ sep @ join sep ws"

text \<open>The longest run of zero groups (the first one on ties), as start and length.\<close>

fun zero_span :: "nat \<Rightarrow> nat \<times> nat \<Rightarrow> nat \<times> nat \<Rightarrow> nat list \<Rightarrow> nat \<times> nat" where
  "zero_span i cur longest [] = longest"
| "zero_span i cur longest (g # gs) =
    (if g = 0 then
       (let cur' = (if snd cur = 0 then i else fst cur, Suc (snd cur));
            longest' = (if snd longest < snd cur' then cur' else longest)
        in zero_span (Suc i) cur' longest' gs)
     else zero_span (Suc i) (0, 0) longest gs)"

fun be_groups :: "bytes \<Rightarrow> nat list" where
  "be_groups (a # b # bs) = (unat a * 256 + unat b) # be_groups bs"
| "be_groups _ = []"

definition fmt_groups :: "nat list \<Rightarrow> string" where
  "fmt_groups gs = join '':'' (map show_hex gs)"

definition ipv6_to_string :: "bytes \<Rightarrow> string" where
  "ipv6_to_string o16 =
    (if take 12 o16 = replicate 10 0 @ [0xFF, 0xFF]
     then ''::ffff:'' @ ipv4_to_string (drop 12 o16)
     else let segs = be_groups o16; (start, len) = zero_span 0 (0, 0) (0, 0) segs in
       if 1 < len then fmt_groups (take start segs) @ ''::'' @ fmt_groups (drop (start + len) segs)
       else fmt_groups segs)"

section \<open>Classification of host texts\<close>

text \<open>The order every encoder of the sources tries: IPv4, then IPv6, then a domain name.\<close>

datatype host_kind = HostV4 bytes | HostV6 bytes | HostName

definition classify_host :: "string \<Rightarrow> host_kind" where
  "classify_host h = (case ipv4_parse h of
      Some b \<Rightarrow> HostV4 b
    | None \<Rightarrow> (case ipv6_parse h of Some b \<Rightarrow> HostV6 b | None \<Rightarrow> HostName))"

text \<open>The text a peer prints for a host sent as octets.\<close>

definition canonical_host :: "string \<Rightarrow> string" where
  "canonical_host h = (case classify_host h of
      HostV4 b \<Rightarrow> ipv4_to_string b | HostV6 b \<Rightarrow> ipv6_to_string b | HostName \<Rightarrow> h)"

section \<open>Facts\<close>

lemma digit_radix_10: "digit_radix 10 c = digit_val c"
  by (auto simp: digit_radix_def digit_val_def Let_def)

lemma digits_value_snoc: "digits_value r (ds @ [d]) = digits_value r ds * r + d"
  by (simp add: digits_value_def)

lemma digits_value_0: "digits_value r ds = 0 \<Longrightarrow> 0 < r \<Longrightarrow> ds \<noteq> [] \<Longrightarrow> hd ds = 0"
proof (induction ds rule: rev_induct)
  case Nil
  then show ?case by simp
next
  case (snoc d ds)
  then show ?case by (cases ds) (auto simp: digits_value_snoc digits_value_def)
qed

text \<open>A digit string without a leading zero is the decimal text of its value.\<close>

lemma show_nat_digits_value:
  assumes "ds \<noteq> []" "list_all (\<lambda>d. d < 10) ds" "hd ds = 0 \<longrightarrow> length ds \<le> 1"
  shows "show_nat (digits_value 10 ds) = map digit_char ds"
  using assms
proof (induction ds rule: rev_induct)
  case Nil
  then show ?case by simp
next
  case (snoc d ds)
  show ?case
  proof (cases "ds = []")
    case True
    with snoc.prems show ?thesis by (simp add: digits_value_def show_nat.simps [of d])
  next
    case False
    with snoc.prems have h: "hd ds \<noteq> 0" by auto
    with False have v: "digits_value 10 ds \<noteq> 0" using digits_value_0 [of 10 ds] by auto
    have IH: "show_nat (digits_value 10 ds) = map digit_char ds"
      using snoc False h by auto
    have d: "d < 10" using snoc.prems by simp
    have "\<not> digits_value 10 ds * 10 + d < 10" using v by simp
    then have "show_nat (digits_value 10 ds * 10 + d)
        = show_nat ((digits_value 10 ds * 10 + d) div 10) @ [digit_char ((digits_value 10 ds * 10 + d) mod 10)]"
      by (subst show_nat.simps) simp
    with IH d show ?thesis by (simp add: digits_value_snoc)
  qed
qed

lemma digit_char_val: "digit_val c = Some d \<Longrightarrow> digit_char d = c \<and> d < 10"
  by (auto simp: digit_val_def digit_char_def Let_def split: if_splits)

lemma radix_digits_10:
  "map digit_char (radix_digits 10 s) = takeWhile (\<lambda>c. digit_radix 10 c \<noteq> None) s"
  "list_all (\<lambda>d. d < 10) (radix_digits 10 s)"
  by (induction s) (auto simp: radix_digits_def digit_radix_10 dest: digit_char_val)

lemma read_number_dec:
  assumes "read_number 10 k False maxv s = Some (v, r)"
  shows "s = show_nat v @ r \<and> v \<le> maxv"
proof -
  let ?ds = "radix_digits 10 s"
  from assms have ds: "?ds \<noteq> []" "hd ?ds = 0 \<longrightarrow> length ?ds \<le> 1" and v: "v = digits_value 10 ?ds" "v \<le> maxv"
    and r: "r = dropWhile (\<lambda>c. digit_radix 10 c \<noteq> None) s"
    by (auto simp: read_number_def Let_def not_less split: if_splits)
  have "show_nat v = takeWhile (\<lambda>c. digit_radix 10 c \<noteq> None) s"
    using show_nat_digits_value [OF ds(1) radix_digits_10(2) ds(2)]
    by (simp only: v radix_digits_10(1))
  with r v show ?thesis by simp
qed

lemma read_given_char_Some: "read_given_char c s = Some r \<longleftrightarrow> s = c # r"
  by (auto simp: read_given_char_def split: list.splits)

lemma read_ipv4_addr_Some:
  assumes "read_ipv4_addr s = Some (v, r)"
  shows "length v = 4 \<and> list_all (\<lambda>d. d \<le> 255) v \<and>
    s = show_nat (v ! 0) @ ''.'' @ show_nat (v ! 1) @ ''.'' @ show_nat (v ! 2) @ ''.'' @ show_nat (v ! 3) @ r"
proof -
  from assms obtain a b c d s1 s2 s3 where
    a: "read_number 10 3 False 255 s = Some (a, CHR ''.'' # s1)" and
    b: "read_number 10 3 False 255 s1 = Some (b, CHR ''.'' # s2)" and
    c: "read_number 10 3 False 255 s2 = Some (c, CHR ''.'' # s3)" and
    d: "read_number 10 3 False 255 s3 = Some (d, r)" and v: "v = [a, b, c, d]"
    by (auto simp: read_ipv4_addr_def read_given_char_Some bind_eq_Some_conv split: prod.splits)
  from read_number_dec [OF a] read_number_dec [OF b] read_number_dec [OF c] read_number_dec [OF d] v
  show ?thesis by simp
qed

text \<open>The IPv4 parser accepts canonical texts only.\<close>

lemma ipv4_parse_canonical:
  assumes "ipv4_parse s = Some b"
  shows "length b = 4 \<and> ipv4_to_string b = s"
proof -
  from assms obtain v where v: "read_ipv4_addr s = Some (v, [])" "b = map word_of_nat v"
    by (auto simp: ipv4_parse_def split: if_splits option.splits list.splits prod.splits)
  from read_ipv4_addr_Some [OF v(1)] have l: "length v = 4" and r: "list_all (\<lambda>d. d \<le> 255) v"
    and s: "s = show_nat (v ! 0) @ ''.'' @ show_nat (v ! 1) @ ''.'' @ show_nat (v ! 2) @ ''.'' @ show_nat (v ! 3)"
    by auto
  have "unat (b ! i) = v ! i" if "i < 4" for i
  proof -
    have "v ! i \<le> 255" using r l that by (auto simp: list_all_length)
    with l that show ?thesis by (simp add: v(2) unat_u8_of_nat)
  qed
  with l v(2) s show ?thesis by (simp add: ipv4_to_string_def)
qed

lemma length_concat_be2: "length (concat (map (nat_to_be 2) g)) = 2 * length g"
  by (induction g) simp_all

lemma length_read_groups: "length (fst (read_groups k first s)) \<le> k"
  by (induction k first s rule: read_groups.induct) (auto split: option.splits prod.splits)

lemma ipv6_parse_length:
  assumes "ipv6_parse s = Some b"
  shows "length b = 16"
proof -
  from assms obtain g where g: "read_ipv6_addr s = Some (g, [])" "b = concat (map (nat_to_be 2) g)"
    by (auto simp: ipv6_parse_def split: option.splits list.splits prod.splits)
  have "length g = 8"
  proof -
    obtain head v4 r where h: "read_groups 8 True s = (head, v4, r)" by (cases "read_groups 8 True s") auto
    have lh: "length head \<le> 8" using length_read_groups [of 8 True s] h by simp
    show ?thesis
    proof (cases "length head = 8")
      case True
      with g h show ?thesis by (simp add: read_ipv6_addr_def)
    next
      case False
      with g h obtain r2 where "(case read_groups (7 - length head) True r2 of (tail, _, r') \<Rightarrow>
          Some (head @ replicate (8 - length head - length tail) 0 @ tail, r')) = Some (g, [])"
        by (auto simp: read_ipv6_addr_def bind_eq_Some_conv split: if_split_asm)
      then obtain tail v r3 where t: "read_groups (7 - length head) True r2 = (tail, v, r3)"
        and gt: "g = head @ replicate (8 - length head - length tail) 0 @ tail"
        by (cases "read_groups (7 - length head) True r2") auto
      have "length tail \<le> 7 - length head" using length_read_groups [of "7 - length head" True r2] t by simp
      with gt False lh show ?thesis by simp
    qed
  qed
  then show ?thesis using g(2) by (simp add: length_concat_be2)
qed

lemma canonical_host_v4: "classify_host h = HostV4 b \<Longrightarrow> length b = 4 \<and> ipv4_to_string b = h"
  by (auto simp: classify_host_def dest: ipv4_parse_canonical split: option.splits)

lemma classify_v6_length: "classify_host h = HostV6 b \<Longrightarrow> length b = 16"
  by (auto simp: classify_host_def dest: ipv6_parse_length split: option.splits)

end
