(* ===== verification/Wire_Params.thy ===== *)
theory Wire_Params
  imports Net_Addr
begin

text \<open>
  The shared parameters of \<^verbatim>\<open>wire-protocol\<close> (\<^verbatim>\<open>params.rs\<close>): the wire mode with its protobuf
  number, the secrets of a wire configuration, and the crate's error type. Errors keep the message
  of the source. \<open>serde_json\<close> is third-party code: the decoder of a \<open>WireParams\<close> document is the
  parameter \<open>json_decode\<close> of \<open>wire_params_from_json\<close>.
\<close>

datatype WireMode = RawTcpRelay | Vless | Trojan | Vmess | Shadowsocks | Socks5

definition wire_mode_from_proto :: "int \<Rightarrow> WireMode" where
  "wire_mode_from_proto n =
    (if n = 1 then Vless else if n = 2 then Trojan else if n = 3 then Vmess
     else if n = 4 then Shadowsocks else if n = 5 then Socks5 else RawTcpRelay)"

fun wire_mode_to_proto :: "WireMode \<Rightarrow> int" where
  "wire_mode_to_proto RawTcpRelay = 0"
| "wire_mode_to_proto Vless = 1"
| "wire_mode_to_proto Trojan = 2"
| "wire_mode_to_proto Vmess = 3"
| "wire_mode_to_proto Shadowsocks = 4"
| "wire_mode_to_proto Socks5 = 5"

record WireParams =
  wp_uuid :: "string option"
  wp_password :: "string option"
  wp_flow :: "string option"
  wp_method :: "string option"
  wp_username :: "string option"

definition wire_params_default :: WireParams where
  "wire_params_default = \<lparr>wp_uuid = None, wp_password = None, wp_flow = None, wp_method = None, wp_username = None\<rparr>"

datatype WireError = BadConfig string | Parse string | Crypto string | Protocol string

definition wire_params_from_json ::
    "(string \<Rightarrow> string + WireParams) \<Rightarrow> string \<Rightarrow> WireError + WireParams" where
  "wire_params_from_json json_decode s =
    (if trim s = [] then Inr wire_params_default
     else case json_decode s of Inl e \<Rightarrow> Inl (BadConfig e) | Inr p \<Rightarrow> Inr p)"

lemma wire_mode_proto_roundtrip [simp]: "wire_mode_from_proto (wire_mode_to_proto m) = m"
  by (cases m) (simp_all add: wire_mode_from_proto_def)

end
