(* ===== verification/Handshake_Iface.thy ===== *)
theory Handshake_Iface
  imports Prelude
begin

text \<open>
  The contract between a handshake parser of \<^verbatim>\<open>wire-protocol\<close> and the relay loops of
  \<^verbatim>\<open>wire_relay.rs\<close>. A relay appends each received chunk to its buffer and runs the parser on the
  whole buffer until the parser decides. What the relay relies on is that a decision does not change
  when more bytes arrive and that a decided header lies inside the buffer. \<open>feed\<close> is the relay's
  accumulation loop; the locale proves once, for every parser with this contract, that neither the
  decision nor the bytes passed on depend on how the stream was cut into chunks.
\<close>

text \<open>The accumulation loop: the decision, the buffer at that moment and the chunks not yet read.\<close>

fun feed :: "(bytes \<Rightarrow> 'r option) \<Rightarrow> bytes \<Rightarrow> bytes list \<Rightarrow> ('r \<times> bytes \<times> bytes list) option" where
  "feed decide buf [] = None"
| "feed decide buf (d # ds) =
    (case decide (buf @ d) of
       None \<Rightarrow> feed decide (buf @ d) ds
     | Some r \<Rightarrow> Some (r, buf @ d, ds))"

text \<open>What a relay gets out of the loop: the decision and the stream of bytes after the header.\<close>

definition passed_on :: "('r \<Rightarrow> nat) \<Rightarrow> ('r \<times> bytes \<times> bytes list) option \<Rightarrow> ('r \<times> bytes) option" where
  "passed_on consumed res = map_option (\<lambda>(r, buf, rest). (r, drop (consumed r) buf @ concat rest)) res"

locale incremental_handshake =
  fixes decide :: "bytes \<Rightarrow> 'r option"
    and consumed :: "'r \<Rightarrow> nat"
  assumes stable: "decide buf = Some r \<Longrightarrow> decide (buf @ more) = Some r"
    and consumed_le: "decide buf = Some r \<Longrightarrow> consumed r \<le> length buf"
begin

lemma feed_Some:
  "feed decide buf ds = Some (r, buf', rest) \<Longrightarrow>
     decide (buf @ concat ds) = Some r \<and> buf' @ concat rest = buf @ concat ds \<and> decide buf' = Some r"
proof (induction ds arbitrary: buf)
  case Nil
  then show ?case by simp
next
  case (Cons d ds)
  show ?case
  proof (cases "decide (buf @ d)")
    case None
    with Cons.prems have "feed decide (buf @ d) ds = Some (r, buf', rest)" by simp
    from Cons.IH [OF this] show ?thesis by simp
  next
    case (Some q)
    with Cons.prems have "q = r" "buf' = buf @ d" "rest = ds" by auto
    with Some show ?thesis using stable [of "buf @ d" r "concat ds"] by simp
  qed
qed

lemma feed_None: "feed decide buf ds = None \<Longrightarrow> decide buf = None \<Longrightarrow> decide (buf @ concat ds) = None"
proof (induction ds arbitrary: buf)
  case Nil
  then show ?case by simp
next
  case (Cons d ds)
  from Cons.prems have n: "decide (buf @ d) = None" by (auto split: option.splits)
  with Cons.prems(1) have "feed decide (buf @ d) ds = None" by simp
  from Cons.IH [OF this n] show ?case by simp
qed

text \<open>The bytes after the header, as the relay passes them on: what is left in the buffer, then the unread chunks.\<close>

lemma feed_payload:
  assumes "feed decide [] ds = Some (r, buf', rest)"
  shows "drop (consumed r) buf' @ concat rest = drop (consumed r) (concat ds)"
proof -
  from feed_Some [OF assms] have eq: "buf' @ concat rest = concat ds" and d: "decide buf' = Some r"
    by simp_all
  from consumed_le [OF d] have "consumed r \<le> length buf'" .
  then have "drop (consumed r) (buf' @ concat rest) = drop (consumed r) buf' @ concat rest" by simp
  then show ?thesis by (simp add: eq)
qed

text \<open>A stream whose whole content is decided is decided by the loop, however it is cut.\<close>

lemma feed_decides:
  assumes "decide (concat ds) = Some r" and "decide [] = None"
  shows "\<exists>buf rest. feed decide [] ds = Some (r, buf, rest)"
proof (cases "feed decide [] ds")
  case None
  from feed_None [OF None assms(2)] assms(1) show ?thesis by simp
next
  case (Some a)
  obtain q buf rest where a: "a = (q, buf, rest)" by (cases a) auto
  with Some feed_Some [of "[]" ds q buf rest] assms(1) have "q = r" by simp
  with Some a show ?thesis by blast
qed

text \<open>The loop computes the decision on the whole stream and the rest of that stream.\<close>

lemma feed_whole:
  assumes "decide [] = None"
  shows "passed_on consumed (feed decide [] ds) =
    map_option (\<lambda>r. (r, drop (consumed r) (concat ds))) (decide (concat ds))"
proof (cases "decide (concat ds)")
  case None
  have "feed decide [] ds = None"
  proof (rule ccontr)
    assume "feed decide [] ds \<noteq> None"
    then obtain r buf rest where "feed decide [] ds = Some (r, buf, rest)" by auto
    from feed_Some [OF this] None show False by simp
  qed
  with None show ?thesis by (simp add: passed_on_def)
next
  case (Some r)
  from feed_decides [OF Some assms] obtain buf rest where f: "feed decide [] ds = Some (r, buf, rest)"
    by blast
  from feed_payload [OF f] f Some show ?thesis by (simp add: passed_on_def)
qed

end

end
