(* ===== verification/Wire_Vless.thy ===== *)
theory Wire_Vless
  imports Wire_Params Handshake_Iface
begin

text \<open>
  VLESS framing, version 0 (\<^verbatim>\<open>wire-protocol/src/vless.rs\<close>): the address type shared with VMess, the
  request builder of the client and the incremental request parser of the server. A \<open>Uuid\<close> is its 16
  bytes. The theory shows the round trip of builder and parser, that the parser is an incremental
  handshake, that \<open>uuid_ok\<close> is equality with the expected identifier, and that a request with an
  unknown address type is never rejected.
\<close>

section \<open>Data\<close>

definition VLESS_VERSION :: u8 where "VLESS_VERSION = 0"
definition CMD_TCP :: u8 where "CMD_TCP = 0x01"

datatype VlessAddress = IpV4 bytes | Domain string | IpV6 bytes

fun host_string :: "VlessAddress \<Rightarrow> string" where
  "host_string (IpV4 b) = ipv4_to_string b"
| "host_string (Domain s) = s"
| "host_string (IpV6 b) = ipv6_to_string b"

datatype VlessParseResult =
    VlessNeedMore nat
  | VlessOk (uuid_ok: bool) (vless_port: u16) (vless_addr: VlessAddress) (vless_payload: bytes) (payload_start: nat)
  | VlessInvalid

section \<open>Operations\<close>

definition read_address :: "bytes \<Rightarrow> u8 \<Rightarrow> (VlessAddress \<times> nat) option" where
  "read_address buf atype =
    (if atype = 1 \<and> 4 \<le> length buf then Some (IpV4 (take 4 buf), 4)
     else if atype = 2 \<and> buf \<noteq> [] then
       (let n = unat (buf ! 0) in
        if length buf < 1 + n then None
        else case from_utf8 (slice 1 (1 + n) buf) of None \<Rightarrow> None | Some s \<Rightarrow> Some (Domain s, 1 + n))
     else if atype = 3 \<and> 16 \<le> length buf then Some (IpV6 (take 16 buf), 16)
     else None)"

definition uuid_matches :: "bytes option \<Rightarrow> bytes \<Rightarrow> bool" where
  "uuid_matches expected uuid_bytes = (case expected of None \<Rightarrow> True | Some e \<Rightarrow> e = uuid_bytes)"

definition vless_parse_request :: "bytes \<Rightarrow> bytes option \<Rightarrow> VlessParseResult" where
  "vless_parse_request buf expected_uuid =
    (if length buf < 1 + 16 + 1 + 1 + 2 + 1 then VlessNeedMore (1 + 16 + 1 + 1 + 2 + 1)
     else if buf ! 0 \<noteq> VLESS_VERSION then VlessInvalid
     else let uuid_bytes = slice 1 17 buf;
              addons_len = unat (buf ! 17);
              header_after_uuid = 18 + addons_len in
       if length buf < header_after_uuid + 1 + 2 + 1 then VlessNeedMore (header_after_uuid + 1 + 2 + 1)
       else if buf ! header_after_uuid \<noteq> CMD_TCP then VlessInvalid
       else let port = u16_from_be_bytes (buf ! (header_after_uuid + 1)) (buf ! (header_after_uuid + 2));
                atype = buf ! (header_after_uuid + 3);
                addr_start = header_after_uuid + 4 in
         if length buf < addr_start + 1 then VlessNeedMore (addr_start + 1)
         else case read_address (drop addr_start buf) atype of
             None \<Rightarrow> VlessNeedMore (length buf + 64)
           | Some (addr, alen) \<Rightarrow>
              (let payload_off = addr_start + alen in
               if length buf < payload_off then VlessNeedMore payload_off
               else VlessOk (uuid_matches expected_uuid uuid_bytes)
                      port addr (drop payload_off buf) payload_off))"

text \<open>The address part of a request, used by the VLESS and the VMess builder.\<close>

fun vless_addr_bytes :: "VlessAddress \<Rightarrow> bytes" where
  "vless_addr_bytes (IpV4 b) = 1 # b"
| "vless_addr_bytes (Domain s) =
    (let b = as_bytes s; n = min (length b) 255 in 2 # word_of_nat n # take n b)"
| "vless_addr_bytes (IpV6 b) = 3 # b"

definition vless_build_request :: "bytes \<Rightarrow> u16 \<Rightarrow> VlessAddress \<Rightarrow> bytes \<Rightarrow> bytes" where
  "vless_build_request uuid port addr initial_payload =
     [VLESS_VERSION] @ uuid @ [0, CMD_TCP] @ u16_to_be_bytes port @ vless_addr_bytes addr @ initial_payload"

section \<open>Address encoding\<close>

text \<open>Addresses the encoder represents without loss: arrays of the right size, names of at most 255 bytes.\<close>

fun vless_addr_ok :: "VlessAddress \<Rightarrow> bool" where
  "vless_addr_ok (IpV4 b) = (length b = 4)"
| "vless_addr_ok (Domain s) = (wf_str s \<and> length s \<le> 255)"
| "vless_addr_ok (IpV6 b) = (length b = 16)"

lemma read_address_roundtrip:
  assumes "vless_addr_ok a"
  shows "read_address (tl (vless_addr_bytes a) @ rest) (hd (vless_addr_bytes a))
           = Some (a, length (vless_addr_bytes a) - 1)"
proof (cases a)
  case (Domain s)
  with assms have "unat (word_of_nat (length s) :: u8) = length s" "wf_str s"
    by (simp_all add: unat_u8_of_nat)
  with assms Domain show ?thesis by (simp add: read_address_def slice_def min_absorb1)
qed (use assms in \<open>simp_all add: read_address_def\<close>)

lemma read_address_stable: "read_address buf t = Some r \<Longrightarrow> read_address (buf @ ys) t = Some r"
  by (auto simp: read_address_def Let_def slice_append_stable nth_append split: if_splits option.splits)

lemma read_address_length: "read_address buf t = Some (a, n) \<Longrightarrow> n \<le> length buf"
  by (auto simp: read_address_def Let_def split: if_splits option.splits)

lemma read_address_unknown: "t \<notin> {1, 2, 3} \<Longrightarrow> read_address buf t = None"
  by (auto simp: read_address_def)

section \<open>The request parser as an incremental handshake\<close>

text \<open>What the parser has decided; \<open>None\<close> while it asks for more bytes.\<close>

type_synonym vless_verdict = "(bool \<times> u16 \<times> VlessAddress \<times> nat) option"

definition vless_decide :: "bytes option \<Rightarrow> bytes \<Rightarrow> vless_verdict option" where
  "vless_decide expected buf = (case vless_parse_request buf expected of
      VlessNeedMore _ \<Rightarrow> None
    | VlessInvalid \<Rightarrow> Some None
    | VlessOk ok port addr payload start \<Rightarrow> Some (Some (ok, port, addr, start)))"

definition vless_consumed :: "vless_verdict \<Rightarrow> nat" where
  "vless_consumed v = (case v of None \<Rightarrow> 0 | Some (_, _, _, start) \<Rightarrow> start)"

lemma vless_parse_ok_iff:
  "vless_parse_request buf e = VlessOk ok port addr payload start \<longleftrightarrow>
     22 \<le> length buf \<and> buf ! 0 = VLESS_VERSION \<and>
     (let h = 18 + unat (buf ! 17) in
        h + 5 \<le> length buf \<and> buf ! h = CMD_TCP \<and>
        port = u16_from_be_bytes (buf ! (h + 1)) (buf ! (h + 2)) \<and>
        (\<exists>alen. read_address (drop (h + 4) buf) (buf ! (h + 3)) = Some (addr, alen) \<and> start = h + 4 + alen) \<and>
        payload = drop start buf \<and> ok = uuid_matches e (slice 1 17 buf))"
  (is "?L \<longleftrightarrow> ?R")
proof
  assume ?L then show ?R
    by (auto simp: vless_parse_request_def Let_def split: if_splits option.splits)
next
  assume r: ?R
  define h where "h = 18 + unat (buf ! 17)"
  from r obtain alen where a: "read_address (drop (h + 4) buf) (buf ! (h + 3)) = Some (addr, alen)"
    "start = h + 4 + alen" by (auto simp: h_def Let_def)
  from read_address_length [OF a(1)] r have "h + 4 + alen \<le> length buf"
    by (auto simp: h_def Let_def)
  with a r show ?L
    by (simp add: vless_parse_request_def Let_def flip: h_def) (auto simp: h_def)
qed

lemma vless_parse_invalid_iff:
  "vless_parse_request buf e = VlessInvalid \<longleftrightarrow>
     22 \<le> length buf \<and> (buf ! 0 \<noteq> VLESS_VERSION \<or>
       (let h = 18 + unat (buf ! 17) in h + 4 \<le> length buf \<and> buf ! h \<noteq> CMD_TCP))"
  by (auto simp: vless_parse_request_def Let_def split: if_splits option.splits prod.splits)

lemma vless_decide_cases:
  "vless_decide e buf = Some v \<longleftrightarrow>
     (v = None \<and> vless_parse_request buf e = VlessInvalid) \<or>
     (\<exists>ok port addr payload start. v = Some (ok, port, addr, start) \<and>
        vless_parse_request buf e = VlessOk ok port addr payload start)"
  by (auto simp: vless_decide_def split: VlessParseResult.splits)

lemma vless_invalid_stable:
  "vless_parse_request buf e = VlessInvalid \<Longrightarrow> vless_parse_request (buf @ ys) e = VlessInvalid"
  by (auto simp: vless_parse_invalid_iff Let_def nth_append)

lemma vless_ok_stable:
  assumes "vless_parse_request buf e = VlessOk ok port addr payload start"
  shows "vless_parse_request (buf @ ys) e = VlessOk ok port addr (payload @ ys) start"
proof -
  define h where "h = 18 + unat (buf ! 17)"
  from assms obtain alen where r: "22 \<le> length buf" "buf ! 0 = VLESS_VERSION" "h + 5 \<le> length buf"
    "buf ! h = CMD_TCP" "port = u16_from_be_bytes (buf ! (h + 1)) (buf ! (h + 2))"
    "read_address (drop (h + 4) buf) (buf ! (h + 3)) = Some (addr, alen)" "start = h + 4 + alen"
    "payload = drop start buf" "ok = uuid_matches e (slice 1 17 buf)"
    by (auto simp: vless_parse_ok_iff h_def Let_def)
  have ra: "read_address (drop (h + 4) buf @ ys) (buf ! (h + 3)) = Some (addr, alen)"
    using read_address_stable [OF r(6)] .
  have st: "start \<le> length buf" using read_address_length [OF r(6)] r(3,7) by simp
  have h': "18 + unat ((buf @ ys) ! 17) = h" using r(1) by (simp add: h_def nth_append)
  show ?thesis
    unfolding vless_parse_ok_iff h' Let_def
    using r st ra by (auto simp: nth_append slice_append_stable)
qed

interpretation vless: incremental_handshake "vless_decide e" vless_consumed for e
proof
  show "vless_decide e (buf @ ys) = Some r" if "vless_decide e buf = Some r" for buf r ys
    using that unfolding vless_decide_cases by (blast dest: vless_invalid_stable vless_ok_stable)
  show "vless_consumed r \<le> length buf" if "vless_decide e buf = Some r" for buf r
  proof (cases r)
    case None
    then show ?thesis by (simp add: vless_consumed_def)
  next
    case (Some v)
    with that obtain ok port addr payload start where v: "v = (ok, port, addr, start)"
      and p: "vless_parse_request buf e = VlessOk ok port addr payload start"
      by (auto simp: vless_decide_cases)
    from p have "start \<le> length buf"
      by (auto simp: vless_parse_ok_iff Let_def dest: read_address_length)
    with Some v show ?thesis by (simp add: vless_consumed_def)
  qed
qed

section \<open>Properties\<close>

lemma vless_build_parse:
  assumes "length uuid = 16" and "vless_addr_ok addr"
  shows "vless_parse_request (vless_build_request uuid port addr payload) e =
    VlessOk (uuid_matches e uuid) port addr payload (21 + length (vless_addr_bytes addr))"
proof -
  let ?b = "vless_build_request uuid port addr payload"
  obtain t a where ab: "vless_addr_bytes addr = t # a" by (cases addr) (auto simp: Let_def)
  have a: "a \<noteq> []" using assms(2) ab by (cases addr) (auto simp: Let_def)
  have b: "?b = [VLESS_VERSION] @ uuid @ [0, CMD_TCP, word_of_nat (unat port div 256), ucast port, t] @ a @ payload"
    by (simp add: vless_build_request_def ab u16_to_be_bytes_eq)
  have ix: "?b ! 0 = VLESS_VERSION" "?b ! 17 = 0" "?b ! 18 = CMD_TCP"
    "?b ! 19 = word_of_nat (unat port div 256)" "?b ! 20 = ucast port" "?b ! 21 = t"
    using assms(1) by (simp_all add: b nth_append nth_Cons')
  have ra: "read_address (drop 22 ?b) t = Some (addr, length a)"
    using read_address_roundtrip [OF assms(2), of payload] assms(1) by (simp add: ab b)
  have sl: "slice 1 17 ?b = uuid" using assms(1) by (simp add: b slice_def)
  have len: "length ?b = 22 + length a + length payload" using assms(1) by (simp add: b)
  have "?b = ([VLESS_VERSION] @ uuid @ [0, CMD_TCP, word_of_nat (unat port div 256), ucast port, t] @ a) @ payload"
    (is "_ = ?pre @ _") by (simp add: b)
  moreover have "length ?pre = 22 + length a" using assms(1) by simp
  ultimately have dr: "drop (22 + length a) ?b = payload" by (metis append_eq_conv_conj)
  have "Suc 0 \<le> length a + length payload" using a by (cases a) auto
  then show ?thesis
    unfolding vless_parse_ok_iff ix sl Let_def
    by (simp add: ix ra len dr ab)
qed

text \<open>
  VLESS never turns away a request with an unknown address type. Once version, identifier, addons
  and command of a request are in the buffer and its address type is none of the three known ones,
  the parser asks for 64 more bytes on that buffer and on every extension of it, so the relay keeps
  buffering instead of reporting an invalid header.
\<close>
theorem vless_unknown_atype_never_decided:
  assumes "22 \<le> length buf" and "buf ! 0 = VLESS_VERSION" and "h = 18 + unat (buf ! 17)"
    and "h + 5 \<le> length buf" and "buf ! h = CMD_TCP" and "buf ! (h + 3) \<notin> {1, 2, 3}"
  shows "vless_parse_request (buf @ ys) expected = VlessNeedMore (length buf + length ys + 64)"
proof -
  have ix: "(buf @ ys) ! 0 = VLESS_VERSION" "(buf @ ys) ! 17 = buf ! 17" "(buf @ ys) ! h = CMD_TCP"
    "(buf @ ys) ! (h + 3) = buf ! (h + 3)"
    using assms by (auto simp: nth_append)
  have "read_address zs (buf ! (h + 3)) = None" for zs
    using assms(6) by (rule read_address_unknown)
  then show ?thesis
    using assms(1,4) ix by (simp add: vless_parse_request_def Let_def assms(3))
qed

theorem vless_unknown_atype_never_decided_witness:
  "vless_parse_request ((replicate 18 0 @ [1, 0, 80, 9, 0]) @ [5, 6]) None = VlessNeedMore 89"
proof -
  have "vless_parse_request ((replicate 18 0 @ [1, 0, 80, 9, 0]) @ [5, 6]) None
    = VlessNeedMore (length (replicate 18 (0 :: u8) @ [1, 0, 80, 9, 0]) + length [5, 6 :: u8] + 64)"
    by (rule vless_unknown_atype_never_decided [where h = 18])
      (simp_all add: VLESS_VERSION_def CMD_TCP_def nth_append)
  then show ?thesis by simp
qed

end
