(* ===== verification/Replay_Iface.thy ===== *)
theory Replay_Iface
  imports Prelude
begin

text \<open>
  The contract of a replay guard: a table of recently seen nonces with a check-and-insert operation.
  Two components provide it, the nonce tracker of \<^verbatim>\<open>deploy-auth\<close> and the VMess replay cache of
  \<^verbatim>\<open>wire-protocol\<close>. Both forget entries, by age and when the table is full; \<open>keeps s t0 t\<close> says
  that a call at time \<open>t\<close> in state \<open>s\<close> does not forget an entry made at time \<open>t0\<close>. The locale proves
  once that a nonce stays rejected as long as no call forgets it.
\<close>

text \<open>A sequence of calls, each with its time and nonce: the answers and the final state.\<close>

fun guard_run :: "('s \<Rightarrow> 't \<Rightarrow> 'n \<Rightarrow> bool \<times> 's) \<Rightarrow> 's \<Rightarrow> ('t \<times> 'n) list \<Rightarrow> bool list \<times> 's" where
  "guard_run check s [] = ([], s)"
| "guard_run check s ((t, n) # evs) =
    (let (ok, s') = check s t n; (oks, s'') = guard_run check s' evs in (ok # oks, s''))"

text \<open>No call of the sequence forgets an entry made at time \<open>t0\<close>.\<close>

fun all_keep :: "('s \<Rightarrow> 't \<Rightarrow> 'n \<Rightarrow> bool \<times> 's) \<Rightarrow> ('s \<Rightarrow> 't \<Rightarrow> 't \<Rightarrow> bool) \<Rightarrow> 't \<Rightarrow> 's \<Rightarrow> ('t \<times> 'n) list \<Rightarrow> bool" where
  "all_keep check keeps t0 s [] = True"
| "all_keep check keeps t0 s ((t, n) # evs) = (keeps s t0 t \<and> all_keep check keeps t0 (snd (check s t n)) evs)"

locale replay_guard =
  fixes check :: "'s \<Rightarrow> 't \<Rightarrow> 'n \<Rightarrow> bool \<times> 's"
    and entry :: "'s \<Rightarrow> 'n \<Rightarrow> 't option"
    and keeps :: "'s \<Rightarrow> 't \<Rightarrow> 't \<Rightarrow> bool"
    and inv :: "'s \<Rightarrow> bool"
  assumes check_inv: "inv s \<Longrightarrow> inv (snd (check s t n))"
    and check_records: "inv s \<Longrightarrow> fst (check s t n) \<Longrightarrow> entry (snd (check s t n)) n = Some t"
    and check_keeps: "inv s \<Longrightarrow> entry s n = Some t0 \<Longrightarrow> keeps s t0 t \<Longrightarrow> entry (snd (check s t m)) n = Some t0"
    and check_rejects: "inv s \<Longrightarrow> entry s n = Some t0 \<Longrightarrow> keeps s t0 t \<Longrightarrow> \<not> fst (check s t n)"
begin

lemma run_inv: "inv s \<Longrightarrow> inv (snd (guard_run check s evs))"
proof (induction evs arbitrary: s)
  case (Cons e evs)
  then show ?case using check_inv [of s "fst e" "snd e"] by (cases e) (auto simp: split_beta)
qed simp

lemma run_keeps:
  "inv s \<Longrightarrow> entry s n = Some t0 \<Longrightarrow> all_keep check keeps t0 s evs \<Longrightarrow>
     entry (snd (guard_run check s evs)) n = Some t0"
proof (induction evs arbitrary: s)
  case (Cons e evs)
  obtain t m where e: "e = (t, m)" by (cases e)
  with Cons.prems have k: "keeps s t0 t" "all_keep check keeps t0 (snd (check s t m)) evs" by simp_all
  have "entry (snd (guard_run check (snd (check s t m)) evs)) n = Some t0"
    by (rule Cons.IH [OF check_inv [OF Cons.prems(1)] check_keeps [OF Cons.prems(1,2) k(1)] k(2)])
  then show ?case by (simp add: e split_beta)
qed simp

text \<open>An accepted nonce is rejected when it comes again after calls none of which forgets it.\<close>

lemma no_replay:
  assumes "inv s" "fst (check s t0 n)" "all_keep check keeps t0 (snd (check s t0 n)) (evs @ [(t, n)])"
  shows "last (fst (guard_run check s ((t0, n) # evs @ [(t, n)]))) = False"
proof -
  let ?s0 = "snd (check s t0 n)"
  have split: "all_keep check keeps t0 a (xs @ ys) \<longleftrightarrow>
      all_keep check keeps t0 a xs \<and> all_keep check keeps t0 (snd (guard_run check a xs)) ys" for a xs ys
    by (induction xs arbitrary: a) (auto simp: split_beta)
  have app: "fst (guard_run check a (xs @ ys)) =
      fst (guard_run check a xs) @ fst (guard_run check (snd (guard_run check a xs)) ys)" for a xs ys
    by (induction xs arbitrary: a) (auto simp: split_beta)
  define s1 where "s1 = snd (guard_run check ?s0 evs)"
  have i: "inv ?s0" by (rule check_inv [OF assms(1)])
  have "entry s1 n = Some t0" unfolding s1_def
    using run_keeps [OF i check_records [OF assms(1,2)]] assms(3) by (simp add: split)
  moreover have "keeps s1 t0 t" using assms(3) by (simp add: split s1_def)
  ultimately have "\<not> fst (check s1 t n)" using check_rejects [OF run_inv [OF i, of evs, folded s1_def]] by blast
  then show ?thesis by (simp add: app split_beta s1_def)
qed

end

end
