(* ===== verification/Rust_Map.thy ===== *)
theory Rust_Map
  imports Prelude "HOL-Library.AList"
begin

text \<open>
  The part of \<^verbatim>\<open>std::collections::HashMap\<close> the components use, as association lists: \<open>get\<close>,
  \<open>contains_key\<close>, \<open>insert\<close>, \<open>remove\<close>, \<open>retain\<close>, \<open>len\<close>. The invariant \<open>hm_ok\<close> (no key twice) holds of
  the empty map and is kept by every operation; under it the operations are those of finite maps and
  \<open>len\<close> is the number of keys.
\<close>

type_synonym ('k, 'v) hmap = "('k \<times> 'v) list"

definition hm_get :: "('k, 'v) hmap \<Rightarrow> 'k \<Rightarrow> 'v option" where
  "hm_get m k = map_of m k"

definition hm_contains :: "('k, 'v) hmap \<Rightarrow> 'k \<Rightarrow> bool" where
  "hm_contains m k = (hm_get m k \<noteq> None)"

definition hm_insert :: "'k \<Rightarrow> 'v \<Rightarrow> ('k, 'v) hmap \<Rightarrow> ('k, 'v) hmap" where
  "hm_insert k v m = AList.update k v m"

definition hm_remove :: "'k \<Rightarrow> ('k, 'v) hmap \<Rightarrow> ('k, 'v) hmap" where
  "hm_remove k m = AList.delete k m"

definition hm_retain :: "('k \<Rightarrow> 'v \<Rightarrow> bool) \<Rightarrow> ('k, 'v) hmap \<Rightarrow> ('k, 'v) hmap" where
  "hm_retain P m = filter (\<lambda>(k, v). P k v) m"

definition hm_len :: "('k, 'v) hmap \<Rightarrow> nat" where
  "hm_len m = length m"

definition hm_keys :: "('k, 'v) hmap \<Rightarrow> 'k set" where
  "hm_keys m = fst ` set m"

definition hm_ok :: "('k, 'v) hmap \<Rightarrow> bool" where
  "hm_ok m = distinct (map fst m)"

lemma hm_get_Nil [simp]: "hm_get [] k = None"
  by (simp add: hm_get_def)

lemma hm_get_insert [simp]: "hm_get (hm_insert k v m) k' = (if k' = k then Some v else hm_get m k')"
  by (simp add: hm_get_def hm_insert_def update_conv')

lemma hm_get_remove [simp]: "hm_get (hm_remove k m) k' = (if k' = k then None else hm_get m k')"
  by (simp add: hm_get_def hm_remove_def delete_conv')

lemma hm_get_retain [simp]:
  "hm_ok m \<Longrightarrow> hm_get (hm_retain P m) k =
     (case hm_get m k of None \<Rightarrow> None | Some v \<Rightarrow> if P k v then Some v else None)"
proof (induction m)
  case (Cons a m)
  obtain k' v where a: "a = (k', v)" by (cases a)
  with Cons.prems have "hm_ok m" "map_of m k' = None"
    by (auto simp: hm_ok_def map_of_eq_None_iff)
  with Cons.IH a show ?case by (auto simp: hm_get_def hm_retain_def split: option.splits)
qed (simp add: hm_retain_def)

lemma hm_contains_iff: "hm_contains m k \<longleftrightarrow> k \<in> hm_keys m"
  by (simp add: hm_contains_def hm_get_def hm_keys_def map_of_eq_None_iff)

lemma hm_contains_get: "hm_contains m k \<longleftrightarrow> (\<exists>v. hm_get m k = Some v)"
  by (auto simp: hm_contains_def)

lemma hm_ok_Nil [simp]: "hm_ok []"
  by (simp add: hm_ok_def)

lemma hm_ok_insert [simp]: "hm_ok m \<Longrightarrow> hm_ok (hm_insert k v m)"
  by (simp add: hm_ok_def hm_insert_def distinct_update)

lemma hm_ok_remove [simp]: "hm_ok m \<Longrightarrow> hm_ok (hm_remove k m)"
  by (simp add: hm_ok_def hm_remove_def distinct_delete)

lemma hm_ok_retain [simp]: "hm_ok m \<Longrightarrow> hm_ok (hm_retain P m)"
  by (simp add: hm_ok_def hm_retain_def distinct_map_filter)

lemma hm_len_card: "hm_ok m \<Longrightarrow> hm_len m = card (hm_keys m)"
  by (metis distinct_card hm_keys_def hm_len_def hm_ok_def length_map list.set_map)

lemma hm_keys_get: "hm_keys m = {k. hm_get m k \<noteq> None}"
  by (auto simp: hm_contains_iff [symmetric] hm_contains_def)

lemma hm_keys_insert [simp]: "hm_keys (hm_insert k v m) = insert k (hm_keys m)"
  by (auto simp: hm_keys_get)

lemma hm_keys_remove [simp]: "hm_keys (hm_remove k m) = hm_keys m - {k}"
  by (auto simp: hm_keys_get)

lemma hm_finite_keys [simp]: "finite (hm_keys m)"
  by (simp add: hm_keys_def)

lemma hm_len_retain: "hm_len (hm_retain P m) \<le> hm_len m"
  by (simp add: hm_len_def hm_retain_def)

lemma hm_len_insert_le: "hm_len (hm_insert k v m) \<le> hm_len m + 1"
  by (induction m) (auto simp: hm_len_def hm_insert_def)

lemma hm_len_insert_new: "\<not> hm_contains m k \<Longrightarrow> hm_len (hm_insert k v m) = hm_len m + 1"
  by (induction m) (auto simp: hm_len_def hm_insert_def hm_contains_def hm_get_def split: if_split_asm)

lemma hm_len_remove: "hm_ok m \<Longrightarrow> hm_len (hm_remove k m) = hm_len m - (if hm_contains m k then 1 else 0)"
  by (simp add: hm_len_card hm_contains_iff)

end
