(* ===== verification/Wire_Vmess.thy ===== *)
theory Wire_Vmess
  imports Wire_Vless Replay_Iface Rust_Map
begin

text \<open>
  VMess framing (\<^verbatim>\<open>wire-protocol/src/vmess.rs\<close>): the sealed request header, the sealed payload
  chunks and the replay cache. MD5 and AES-128-GCM are third-party and are fields of
  \<open>vmess_crypto\<close>; the random nonce and the clocks are arguments. \<open>vmess_crypto_ok\<close> names what the
  code relies on: the digest has 16 bytes, a 16-byte key makes a cipher, sealing adds a 16-byte tag and
  opening with the same key and nonce undoes it. The theory shows the header and chunk round trips,
  the timestamp window and the replay protection of the cache.
\<close>

section \<open>Sealed header\<close>

record vmess_crypto =
  vc_md5 :: "bytes \<Rightarrow> bytes"
  vc_new :: "bytes \<Rightarrow> string + unit"
  vc_encrypt :: "bytes \<Rightarrow> bytes \<Rightarrow> bytes \<Rightarrow> string + bytes"
  vc_decrypt :: "bytes \<Rightarrow> bytes \<Rightarrow> bytes \<Rightarrow> string + bytes"

definition vmess_crypto_ok :: "vmess_crypto \<Rightarrow> bool" where
  "vmess_crypto_ok C \<longleftrightarrow>
     (\<forall>b. length (vc_md5 C b) = 16) \<and> (\<forall>k. length k = 16 \<longrightarrow> vc_new C k = Inr ()) \<and>
     (\<forall>k n p. length p \<le> 65535 \<longrightarrow> (\<exists>c. vc_encrypt C k n p = Inr c)) \<and>
     (\<forall>k n p c. vc_encrypt C k n p = Inr c \<longrightarrow> length c = length p + 16 \<and> vc_decrypt C k n c = Inr p)"

definition GCM_NONCE_LEN :: nat where "GCM_NONCE_LEN = 12"
definition HEADER_PLAIN_MAX :: nat where "HEADER_PLAIN_MAX = 256"

definition vmess_key :: "vmess_crypto \<Rightarrow> bytes \<Rightarrow> bytes" where
  "vmess_key C uuid = vc_md5 C uuid"

text \<open>The plaintext of the header: timestamp, command, port and address.\<close>

definition vmess_plain :: "int \<Rightarrow> u16 \<Rightarrow> VlessAddress \<Rightarrow> bytes" where
  "vmess_plain ts port addr = i64_to_be_bytes ts @ [1] @ u16_to_be_bytes port @ vless_addr_bytes addr"

definition crypto_err :: "string + 'a \<Rightarrow> WireError + 'a" where
  "crypto_err r = (case r of Inl e \<Rightarrow> Inl (Crypto e) | Inr x \<Rightarrow> Inr x)"

definition vmess_client_header ::
    "vmess_crypto \<Rightarrow> int \<Rightarrow> bytes \<Rightarrow> bytes \<Rightarrow> u16 \<Rightarrow> VlessAddress \<Rightarrow> WireError + bytes" where
  "vmess_client_header C ts nonce uuid port addr =
    (let key = vmess_key C uuid in
     case crypto_err (vc_new C key) of
       Inl e \<Rightarrow> Inl e
     | Inr _ \<Rightarrow>
        (let plain = vmess_plain ts port addr in
         if HEADER_PLAIN_MAX < length plain then Inl (Protocol ''vmess header too large'')
         else case crypto_err (vc_encrypt C key nonce plain) of
             Inl e \<Rightarrow> Inl e
           | Inr ct \<Rightarrow> Inr (nonce @ u16_to_be_bytes (word_of_nat (length ct)) @ ct)))"

record VMessHeaderOpen =
  vh_port :: u16
  vh_addr :: VlessAddress
  vh_timestamp :: int

definition vmess_open_header_byte_len :: "bytes \<Rightarrow> nat option" where
  "vmess_open_header_byte_len buf =
    (if length buf < GCM_NONCE_LEN + 2 then None
     else Some (GCM_NONCE_LEN + 2 + unat (u16_from_be_bytes (buf ! GCM_NONCE_LEN) (buf ! (GCM_NONCE_LEN + 1)))))"

text \<open>The checks on the opened plaintext.\<close>

definition vmess_check_plain :: "int \<Rightarrow> bytes \<Rightarrow> WireError + VMessHeaderOpen option" where
  "vmess_check_plain now plain =
    (if length plain < 8 + 1 + 2 + 1 then Inl (Protocol ''vmess plain too short'')
     else let ts = i64_from_be_bytes (take 8 plain) in
       if 120 < i64_abs (i64_sub now ts) then Inl (Protocol ''vmess timestamp out of window'')
       else if plain ! 8 \<noteq> 1 then Inl (Protocol ''only TCP cmd supported'')
       else let port = u16_from_be_bytes (plain ! 9) (plain ! 10); atype = plain ! 11 in
         case read_address (drop 12 plain) atype of
           None \<Rightarrow> Inl (Protocol ''bad vmess addr'')
         | Some (addr, _) \<Rightarrow> Inr (Some \<lparr>vh_port = port, vh_addr = addr, vh_timestamp = ts\<rparr>))"

definition vmess_server_open_header ::
    "vmess_crypto \<Rightarrow> int \<Rightarrow> bytes \<Rightarrow> bytes \<Rightarrow> WireError + VMessHeaderOpen option" where
  "vmess_server_open_header C now uuid buf =
    (if length buf < GCM_NONCE_LEN + 2 then Inr None
     else let ct_len = unat (u16_from_be_bytes (buf ! GCM_NONCE_LEN) (buf ! (GCM_NONCE_LEN + 1))) in
       if length buf < GCM_NONCE_LEN + 2 + ct_len then Inr None
       else let key = vmess_key C uuid in
         case crypto_err (vc_new C key) of
           Inl e \<Rightarrow> Inl e
         | Inr _ \<Rightarrow>
            (case crypto_err (vc_decrypt C key (take GCM_NONCE_LEN buf)
                (slice (GCM_NONCE_LEN + 2) (GCM_NONCE_LEN + 2 + ct_len) buf)) of
               Inl e \<Rightarrow> Inl e
             | Inr plain \<Rightarrow> vmess_check_plain now plain))"

section \<open>Sealed chunks\<close>

definition vmess_aead_encode_chunk :: "vmess_crypto \<Rightarrow> bytes \<Rightarrow> bytes \<Rightarrow> bytes \<Rightarrow> WireError + bytes" where
  "vmess_aead_encode_chunk C nonce uuid plain =
    (if 0xffff < length plain then Inl (Protocol ''chunk too large'')
     else let key = vmess_key C uuid in
       case crypto_err (vc_new C key) of
         Inl e \<Rightarrow> Inl e
       | Inr _ \<Rightarrow>
          (case crypto_err (vc_encrypt C key nonce plain) of
             Inl e \<Rightarrow> Inl e
           | Inr ct \<Rightarrow> Inr (nonce @ u16_to_be_bytes (word_of_nat (length plain)) @ ct)))"

definition vmess_aead_decode_chunk ::
    "vmess_crypto \<Rightarrow> bytes \<Rightarrow> bytes \<Rightarrow> WireError + (bytes \<times> nat) option" where
  "vmess_aead_decode_chunk C uuid buf =
    (if length buf < GCM_NONCE_LEN + 2 then Inr None
     else let key = vmess_key C uuid in
       case crypto_err (vc_new C key) of
         Inl e \<Rightarrow> Inl e
       | Inr _ \<Rightarrow>
          (let plain_len = unat (u16_from_be_bytes (buf ! GCM_NONCE_LEN) (buf ! (GCM_NONCE_LEN + 1)));
               ct_start = GCM_NONCE_LEN + 2;
               ct_len = plain_len + 16 in
           if length buf < ct_start + ct_len then Inr None
           else case crypto_err (vc_decrypt C key (take GCM_NONCE_LEN buf) (slice ct_start (ct_start + ct_len) buf)) of
               Inl e \<Rightarrow> Inl e
             | Inr plain \<Rightarrow>
                if length plain \<noteq> plain_len then Inl (Protocol ''vmess chunk len mismatch'')
                else Inr (Some (plain, ct_start + ct_len))))"

section \<open>Replay cache\<close>

text \<open>Instants and durations are nanoseconds.\<close>

record VmessReplayCache =
  rc_ttl :: nat
  rc_max_entries :: nat
  rc_q :: "(bytes \<times> nat) list"
  rc_set :: "(bytes, nat) hmap"

definition replay_cache_new :: "nat \<Rightarrow> nat \<Rightarrow> VmessReplayCache" where
  "replay_cache_new ttl_secs max_entries =
    \<lparr>rc_ttl = max ttl_secs 30 * 10 ^ 9, rc_max_entries = max_entries, rc_q = [], rc_set = []\<rparr>"

text \<open>The eviction loop at the front of the queue.\<close>

fun replay_expire :: "nat \<Rightarrow> nat \<Rightarrow> (bytes \<times> nat) list \<Rightarrow> (bytes, nat) hmap \<Rightarrow> (bytes \<times> nat) list \<times> (bytes, nat) hmap"
  where
  "replay_expire now ttl [] m = ([], m)"
| "replay_expire now ttl ((n, t) # q) m =
    (if ttl < now - t then replay_expire now ttl q (hm_remove n m) else ((n, t) # q, m))"

text \<open>The eviction of the oldest entry when the table is full.\<close>

definition replay_evict ::
    "nat \<Rightarrow> (bytes \<times> nat) list \<Rightarrow> (bytes, nat) hmap \<Rightarrow> (bytes \<times> nat) list \<times> (bytes, nat) hmap" where
  "replay_evict max_entries q m =
    (if max_entries \<le> hm_len m then
       (case q of [] \<Rightarrow> (q, m) | (old, _) # q' \<Rightarrow> (q', hm_remove old m))
     else (q, m))"

definition replay_check_and_insert :: "VmessReplayCache \<Rightarrow> nat \<Rightarrow> bytes \<Rightarrow> bool \<times> VmessReplayCache" where
  "replay_check_and_insert c now nonce =
    (let (q, m) = replay_expire now (rc_ttl c) (rc_q c) (rc_set c) in
     if hm_contains m nonce then (False, c\<lparr>rc_q := q, rc_set := m\<rparr>)
     else let (q, m) = replay_evict (rc_max_entries c) q m in
       (True, c\<lparr>rc_q := q @ [(nonce, now)], rc_set := hm_insert nonce now m\<rparr>))"

definition vmess_check_replay :: "VmessReplayCache \<Rightarrow> nat \<Rightarrow> bytes \<Rightarrow> bool \<times> VmessReplayCache" where
  "vmess_check_replay cache now nonce = replay_check_and_insert cache now nonce"

section \<open>Round trips\<close>

lemma crypto_err_simps [simp]: "crypto_err (Inr x) = Inr x" "crypto_err (Inl e) = Inl (Crypto e)"
  by (simp_all add: crypto_err_def)

lemma crypto_err_Inr [simp]: "crypto_err r = Inr x \<longleftrightarrow> r = Inr x"
  by (cases r) auto

lemma vmess_cryptoD:
  assumes "vmess_crypto_ok C"
  shows "vc_new C (vmess_key C u) = Inr ()"
    and "vc_encrypt C k n p = Inr c \<Longrightarrow> length c = length p + 16"
    and "vc_encrypt C k n p = Inr c \<Longrightarrow> vc_decrypt C k n c = Inr p"
  using assms by (auto simp: vmess_crypto_ok_def vmess_key_def)

lemma vless_addr_bytes_split: "vless_addr_bytes a = hd (vless_addr_bytes a) # tl (vless_addr_bytes a)"
  by (cases a) (simp_all add: Let_def)

lemma vmess_check_plain_ok:
  assumes "i64_range ts" "vless_addr_ok addr" "\<bar>now - ts\<bar> \<le> 120"
  shows "vmess_check_plain now (vmess_plain ts port addr) =
    Inr (Some \<lparr>vh_port = port, vh_addr = addr, vh_timestamp = ts\<rparr>)"
proof -
  define h t where "h = hd (vless_addr_bytes addr)" and "t = tl (vless_addr_bytes addr)"
  have a: "vless_addr_bytes addr = h # t" using vless_addr_bytes_split by (simp add: h_def t_def)
  have r: "\<exists>n. read_address t h = Some (addr, n)"
    using read_address_roundtrip [OF assms(2), of "[]"] by (simp add: h_def t_def)
  define e where "e = i64_to_be_bytes ts"
  have e: "length e = 8" "i64_from_be_bytes e = ts"
    using i64_be_roundtrip [OF assms(1)] by (simp_all add: e_def)
  have plain: "vmess_plain ts port addr = e @ [1, word_of_nat (unat port div 256), ucast port, h] @ t"
    by (simp add: vmess_plain_def a e_def u16_to_be_bytes_eq)
  have "i64_abs (i64_sub now ts) = \<bar>now - ts\<bar>"
    using assms(3) by (intro i64_abs_diff) (simp add: i64_max_def)
  with r e assms(3) show ?thesis
    by (auto simp: vmess_check_plain_def plain nth_append)
qed

lemma vmess_header_shape:
  assumes C: "vmess_crypto_ok C" and ok: "vmess_client_header C ts nonce uuid port addr = Inr b"
  shows "\<exists>ct. vc_encrypt C (vmess_key C uuid) nonce (vmess_plain ts port addr) = Inr ct \<and>
     b = nonce @ u16_to_be_bytes (word_of_nat (length ct)) @ ct \<and> length ct \<le> 272"
proof -
  define plain where "plain = vmess_plain ts port addr"
  from ok obtain ct where "length plain \<le> 256" "vc_encrypt C (vmess_key C uuid) nonce plain = Inr ct"
    "b = nonce @ u16_to_be_bytes (word_of_nat (length ct)) @ ct"
    by (auto simp: vmess_client_header_def HEADER_PLAIN_MAX_def Let_def plain_def
        split: if_split_asm sum.split_asm)
  with vmess_cryptoD(2) [OF C] show ?thesis by (auto simp: plain_def)
qed

lemma sealed_fields:
  fixes ct rest :: bytes
  assumes "length nonce = GCM_NONCE_LEN" "n \<le> 65535"
  defines "buf \<equiv> nonce @ u16_to_be_bytes (word_of_nat n) @ ct @ rest"
  shows "take GCM_NONCE_LEN buf = nonce"
    and "unat (u16_from_be_bytes (buf ! GCM_NONCE_LEN) (buf ! (GCM_NONCE_LEN + 1))) = n"
    and "slice (GCM_NONCE_LEN + 2) (GCM_NONCE_LEN + 2 + length ct) buf = ct"
    and "length buf = GCM_NONCE_LEN + 2 + length ct + length rest"
  using assms(1) u16_len_fields [OF assms(2)] unat_u16_of_len [OF assms(2)]
  by (simp_all add: buf_def slice_def nth_append u16_to_be_bytes_eq)

text \<open>The stand-in cipher of the examples: the tag is sixteen zero bytes.\<close>

definition plain_gcm :: vmess_crypto where
  "plain_gcm = \<lparr>vc_md5 = \<lambda>_. replicate 16 0, vc_new = \<lambda>_. Inr (),
     vc_encrypt = \<lambda>k n p. Inr (p @ replicate 16 0),
     vc_decrypt = \<lambda>k n c. if length c < 16 then Inl ''aead::Error'' else Inr (take (length c - 16) c)\<rparr>"

lemma plain_gcm_ok: "vmess_crypto_ok plain_gcm"
  by (simp add: vmess_crypto_ok_def plain_gcm_def)

text \<open>
  VMess header round trip. A header the client builds at time \<open>ts\<close> is opened by a server that has
  the same identifier and whose clock is at most 120 seconds away, with the client's port, address and
  timestamp, whatever follows it on the wire; its predicted length is its length. The address must be
  representable: an IPv4 or IPv6 array, or a name of at most 255 bytes.
\<close>
lemma vmess_header_roundtrip:
  assumes "vmess_crypto_ok C" "length nonce = GCM_NONCE_LEN" "i64_range ts" "vless_addr_ok addr" "\<bar>now - ts\<bar> \<le> 120"
    and "vmess_client_header C ts nonce uuid port addr = Inr b"
  shows "vmess_server_open_header C now uuid (b @ rest) =
      Inr (Some \<lparr>vh_port = port, vh_addr = addr, vh_timestamp = ts\<rparr>) \<and>
    vmess_open_header_byte_len (b @ rest) = Some (length b)"
proof -
  from vmess_header_shape [OF assms(1,6)] obtain ct where
    e: "vc_encrypt C (vmess_key C uuid) nonce (vmess_plain ts port addr) = Inr ct"
    and b: "b = nonce @ u16_to_be_bytes (word_of_nat (length ct)) @ ct" and l: "length ct \<le> 272" by blast
  define buf where "buf = nonce @ u16_to_be_bytes (word_of_nat (length ct)) @ ct @ rest"
  from l have "length ct \<le> 65535" by simp
  note f = sealed_fields [OF assms(2) this, of ct rest, folded buf_def]
  have bb: "b @ rest = buf" by (simp add: b buf_def)
  show ?thesis
    unfolding bb using vmess_check_plain_ok [OF assms(3,4,5), of port]
    by (simp add: vmess_server_open_header_def vmess_open_header_byte_len_def f f [simplified]
        vmess_cryptoD(1) [OF assms(1)] vmess_cryptoD(3) [OF assms(1) e]) (simp add: b assms(2))
qed

text \<open>
  VMess chunk round trip. Decoding a chunk the peer encoded, followed by anything, returns the
  plaintext and exactly the chunk's length.
\<close>
theorem vmess_chunk_roundtrip:
  assumes "vmess_crypto_ok C" "length nonce = GCM_NONCE_LEN" "vmess_aead_encode_chunk C nonce uuid plain = Inr b"
  shows "vmess_aead_decode_chunk C uuid (b @ rest) = Inr (Some (plain, length b))"
proof -
  from assms(3) obtain ct where
    e: "vc_encrypt C (vmess_key C uuid) nonce plain = Inr ct"
    and b: "b = nonce @ u16_to_be_bytes (word_of_nat (length plain)) @ ct" and l: "length plain \<le> 65535"
    by (auto simp: vmess_aead_encode_chunk_def Let_def split: if_split_asm sum.split_asm)
  define buf where "buf = nonce @ u16_to_be_bytes (word_of_nat (length plain)) @ ct @ rest"
  note f = sealed_fields [OF assms(2) l, of ct rest, folded buf_def]
  have ct: "length ct = length plain + 16" by (rule vmess_cryptoD(2) [OF assms(1) e])
  have sl: "slice (GCM_NONCE_LEN + 2) (GCM_NONCE_LEN + 2 + (length plain + 16)) buf = ct" using f(3) ct by simp
  have bb: "b @ rest = buf" by (simp add: b buf_def)
  show ?thesis
    unfolding bb by (simp add: vmess_aead_decode_chunk_def f f [simplified] sl [simplified] ct Let_def
        vmess_cryptoD(1) [OF assms(1)] vmess_cryptoD(3) [OF assms(1) e]) (simp add: b assms(2) ct)
qed

theorem vmess_chunk_roundtrip_witness:
  "\<exists>b. vmess_aead_encode_chunk plain_gcm (replicate 12 7) (replicate 16 1) [1, 2, 3] = Inr b \<and>
     vmess_aead_decode_chunk plain_gcm (replicate 16 1) (b @ [4]) = Inr (Some ([1, 2, 3], length b))"
proof -
  obtain b where b: "vmess_aead_encode_chunk plain_gcm (replicate 12 7) (replicate 16 1) [1, 2, 3] = Inr b"
    by (simp add: vmess_aead_encode_chunk_def plain_gcm_def Let_def)
  have "vmess_aead_decode_chunk plain_gcm (replicate 16 1) (b @ [4]) = Inr (Some ([1, 2, 3], length b))"
    by (rule vmess_chunk_roundtrip [OF plain_gcm_ok _ b]) (simp add: GCM_NONCE_LEN_def)
  with b show ?thesis by blast
qed

text \<open>
  VMess freshness. The server opens a header only if its clock and the header's timestamp differ by
  at most 120 seconds, with one exception: a timestamp exactly $2^{63}$ seconds back passes, because the
  difference is \<open>i64::MIN\<close>, whose absolute value stays negative.
\<close>
theorem vmess_timestamp_window:
  assumes "vmess_server_open_header C now uuid buf = Inr (Some h)" "0 \<le> now" "now < 2 ^ 62"
  shows "\<bar>now - vh_timestamp h\<bar> \<le> 120 \<or> now - vh_timestamp h = 2 ^ 63"
proof -
  from assms(1) obtain plain where "vmess_check_plain now plain = Inr (Some h)"
    by (auto simp: vmess_server_open_header_def Let_def split: if_split_asm sum.split_asm)
  then have w: "i64_abs (i64_sub now (vh_timestamp h)) \<le> 120" and r: "i64_range (vh_timestamp h)"
    by (auto simp: vmess_check_plain_def Let_def i64_from_be_bytes_def i64_wrap_range
        split: if_split_asm option.split_asm)
  show ?thesis
    by (rule i64_abs_window [OF w r assms(2,3)]) simp
qed

theorem vmess_timestamp_window_witness:
  "\<bar>1100 - vh_timestamp \<lparr>vh_port = 443, vh_addr = IpV4 [10, 0, 0, 1], vh_timestamp = 1000\<rparr>\<bar> \<le> 120 \<or>
   1100 - vh_timestamp \<lparr>vh_port = 443, vh_addr = IpV4 [10, 0, 0, 1], vh_timestamp = 1000\<rparr> = 2 ^ 63"
proof -
  define ct where "ct = vmess_plain 1000 443 (IpV4 [10, 0, 0, 1]) @ replicate 16 0"
  define b where "b = replicate 12 7 @ u16_to_be_bytes (word_of_nat (length ct)) @ ct @ []"
  have l: "length ct = 32" by (simp add: ct_def vmess_plain_def)
  have "length (replicate 12 (7 :: u8)) = GCM_NONCE_LEN" "length ct \<le> 65535" by (simp_all add: GCM_NONCE_LEN_def l)
  note f = sealed_fields [OF this, of ct "[]", folded b_def]
  have p: "vmess_check_plain 1100 (vmess_plain 1000 443 (IpV4 [10, 0, 0, 1])) =
      Inr (Some \<lparr>vh_port = 443, vh_addr = IpV4 [10, 0, 0, 1], vh_timestamp = 1000\<rparr>)"
    by (rule vmess_check_plain_ok) (simp_all add: i64_range_def i64_min_def i64_max_def)
  have "vmess_server_open_header plain_gcm 1100 [] b =
      Inr (Some \<lparr>vh_port = 443, vh_addr = IpV4 [10, 0, 0, 1], vh_timestamp = 1000\<rparr>)"
    by (simp add: vmess_server_open_header_def f f [simplified] plain_gcm_def) (simp add: ct_def p)
  then show ?thesis by (rule vmess_timestamp_window) simp_all
qed

section \<open>The replay cache as a replay guard\<close>

definition replay_match :: "(bytes \<times> nat) list \<Rightarrow> (bytes, nat) hmap \<Rightarrow> bool" where
  "replay_match q m \<longleftrightarrow> hm_ok m \<and> distinct (map fst q) \<and> (\<forall>n t. hm_get m n = Some t \<longleftrightarrow> (n, t) \<in> set q)"

definition replay_inv :: "VmessReplayCache \<Rightarrow> bool" where
  "replay_inv c = replay_match (rc_q c) (rc_set c)"

lemma replay_match_pop: "replay_match ((n, t) # q) m \<Longrightarrow> replay_match q (hm_remove n m)"
  by (auto simp: replay_match_def image_iff)

lemma replay_match_push:
  "replay_match q m \<Longrightarrow> \<not> hm_contains m n \<Longrightarrow> replay_match (q @ [(n, t)]) (hm_insert n t m)"
  by (auto simp: replay_match_def hm_contains_def image_iff)

lemma replay_match_len: "replay_match q m \<Longrightarrow> hm_len m = length q"
proof -
  assume m: "replay_match q m"
  then have "hm_keys m = fst ` set q"
    by (auto simp: replay_match_def hm_keys_get image_iff) force+
  with m show ?thesis
    by (simp add: replay_match_def hm_len_card) (metis distinct_card length_map list.set_map)
qed

lemma replay_expire_match:
  "replay_match q m \<Longrightarrow> replay_expire now ttl q m = (q', m') \<Longrightarrow>
     replay_match q' m' \<and> (\<exists>d. q = d @ q' \<and> list_all (\<lambda>(n, t). ttl < now - t) d)"
proof (induction now ttl q m rule: replay_expire.induct)
  case (2 now ttl n t q m)
  show ?case
  proof (cases "ttl < now - t")
    case True
    with 2 replay_match_pop obtain d where "replay_match q' m'" "q = d @ q'" "list_all (\<lambda>(n, t). ttl < now - t) d"
      by (auto dest!: replay_match_pop)
    with True show ?thesis by (intro conjI exI [of _ "(n, t) # d"]) auto
  qed (use 2 in auto)
qed auto

text \<open>A call drops only expired entries, and the oldest one when the table is full.\<close>

definition replay_keeps :: "VmessReplayCache \<Rightarrow> nat \<Rightarrow> nat \<Rightarrow> bool" where
  "replay_keeps c t0 now \<longleftrightarrow> now - t0 \<le> rc_ttl c \<and> length (rc_q c) < rc_max_entries c"

lemma replay_check_cases:
  assumes "replay_inv c"
  obtains q m where "replay_match q m" "\<exists>d. rc_q c = d @ q \<and> list_all (\<lambda>(n, t). rc_ttl c < now - t) d"
    and "hm_contains m n" "replay_check_and_insert c now n = (False, c\<lparr>rc_q := q, rc_set := m\<rparr>)"
  | q m q2 m2 where "replay_match q m" "\<exists>d. rc_q c = d @ q \<and> list_all (\<lambda>(n, t). rc_ttl c < now - t) d"
    and "\<not> hm_contains m n" "replay_match q2 m2" "\<not> hm_contains m2 n" "length q < rc_max_entries c \<Longrightarrow> q2 = q \<and> m2 = m"
      "replay_check_and_insert c now n = (True, c\<lparr>rc_q := q2 @ [(n, now)], rc_set := hm_insert n now m2\<rparr>)"
proof -
  obtain q m where e: "replay_expire now (rc_ttl c) (rc_q c) (rc_set c) = (q, m)" by force
  from replay_expire_match [OF assms [unfolded replay_inv_def] e] have m: "replay_match q m"
    and d: "\<exists>d. rc_q c = d @ q \<and> list_all (\<lambda>(n, t). rc_ttl c < now - t) d" by blast+
  define r where "r = replay_evict (rc_max_entries c) q m"
  have r: "replay_match (fst r) (snd r)" "hm_contains (snd r) n \<Longrightarrow> hm_contains m n"
    "length q < rc_max_entries c \<Longrightarrow> r = (q, m)"
    using m replay_match_pop replay_match_len [OF m]
    by (auto simp: r_def replay_evict_def hm_contains_def split: list.splits if_splits)
  show thesis
  proof (cases "hm_contains m n")
    case True
    with m d e show thesis by (intro that(1) [of q m]) (auto simp: replay_check_and_insert_def)
  next
    case False
    with m d e r show thesis
      by (intro that(2) [of q m "fst r" "snd r"])
        (auto simp: replay_check_and_insert_def split_beta r_def)
  qed
qed

lemma replay_not_expired:
  "(n, t0) \<in> set (rc_q c) \<Longrightarrow> replay_keeps c t0 now \<Longrightarrow>
     \<exists>d. rc_q c = d @ q \<and> list_all (\<lambda>(n, t). rc_ttl c < now - t) d \<Longrightarrow> (n, t0) \<in> set q"
  by (fastforce simp: replay_keeps_def list_all_iff)

interpretation vmess_cache: replay_guard replay_check_and_insert "\<lambda>c. hm_get (rc_set c)" replay_keeps replay_inv
proof
  show "replay_inv (snd (replay_check_and_insert c t n))" if "replay_inv c" for c t n
    by (rule replay_check_cases [OF that, of t n]) (auto simp: replay_inv_def replay_match_push)
  show "hm_get (rc_set (snd (replay_check_and_insert c t n))) n = Some t"
    if "replay_inv c" "fst (replay_check_and_insert c t n)" for c t n
    by (rule replay_check_cases [OF that(1), of t n]) (use that(2) in auto)
  show "hm_get (rc_set (snd (replay_check_and_insert c t m))) n = Some t0"
    if "replay_inv c" "hm_get (rc_set c) n = Some t0" "replay_keeps c t0 t" for c n t0 t m
  proof -
    have q: "(n, t0) \<in> set (rc_q c)" using that(1,2) by (simp add: replay_inv_def replay_match_def)
    show ?thesis
    proof (rule replay_check_cases [OF that(1), of t m], goal_cases)
      case (1 q' m')
      from replay_not_expired [OF q that(3) 1(2)] 1 show ?case by (simp add: replay_match_def)
    next
      case (2 q' m' q2 m2)
      from 2(2) that(3) have "length q' < rc_max_entries c" by (auto simp: replay_keeps_def)
      with replay_not_expired [OF q that(3) 2(2)] 2 show ?case
        by (auto simp: replay_match_def hm_contains_def)
    qed
  qed
  show "\<not> fst (replay_check_and_insert c t n)"
    if "replay_inv c" "hm_get (rc_set c) n = Some t0" "replay_keeps c t0 t" for c n t0 t
  proof -
    have q: "(n, t0) \<in> set (rc_q c)" using that(1,2) by (simp add: replay_inv_def replay_match_def)
    show ?thesis
    proof (rule replay_check_cases [OF that(1), of t n], goal_cases)
      case (2 q' m' q2 m2)
      from replay_not_expired [OF q that(3) 2(2)] 2 show ?case by (auto simp: replay_match_def hm_contains_def)
    qed simp
  qed
qed

lemma replay_check_params:
  assumes "replay_inv c"
  shows "rc_ttl (snd (replay_check_and_insert c t n)) = rc_ttl c"
    and "rc_max_entries (snd (replay_check_and_insert c t n)) = rc_max_entries c"
    and "length (rc_q c) < rc_max_entries c \<Longrightarrow> length (rc_q (snd (replay_check_and_insert c t n))) \<le> length (rc_q c) + 1"
  by (rule replay_check_cases [OF assms, of t n]; auto)+

lemma replay_run_params:
  "replay_inv c \<Longrightarrow> rc_ttl (snd (guard_run replay_check_and_insert c evs)) = rc_ttl c \<and>
     rc_max_entries (snd (guard_run replay_check_and_insert c evs)) = rc_max_entries c"
proof (induction evs arbitrary: c)
  case (Cons e evs)
  then show ?case
    using vmess_cache.check_inv [of c "fst e" "snd e"] replay_check_params [of c "fst e" "snd e"]
    by (cases e) (simp add: split_beta)
qed simp

lemma replay_all_keep:
  "replay_inv c \<Longrightarrow> \<forall>(t, m) \<in> set evs. t - t0 \<le> rc_ttl c \<Longrightarrow> length (rc_q c) + length evs \<le> rc_max_entries c \<Longrightarrow>
     all_keep replay_check_and_insert replay_keeps t0 c evs"
proof (induction evs arbitrary: c)
  case (Cons e evs)
  obtain t m where e: "e = (t, m)" by (cases e)
  note p = replay_check_params [OF Cons.prems(1), of t m]
  from Cons.prems p have "all_keep replay_check_and_insert replay_keeps t0 (snd (replay_check_and_insert c t m)) evs"
    by (intro Cons.IH vmess_cache.check_inv) auto
  moreover have "replay_keeps c t0 t" using Cons.prems by (simp add: e replay_keeps_def)
  ultimately show ?case by (simp add: e)
qed simp

lemma replay_inv_new: "replay_inv (replay_cache_new s k)"
  by (simp add: replay_inv_def replay_match_def replay_cache_new_def)

text \<open>
  VMess replay protection. From any state the cache can reach, a nonce that was accepted is
  rejected when it comes back before its lifetime is over, provided the calls in between, at most as
  many as the table has room for, do not fill the table.
\<close>
theorem vmess_replay_rejected:
  assumes c: "c = snd (guard_run vmess_check_replay (replay_cache_new secs cap) hist)"
    and acc: "fst (vmess_check_replay c t0 n)"
    and fresh: "\<forall>(t', m) \<in> set evs. t' - t0 \<le> max secs 30 * 10 ^ 9" "t - t0 \<le> max secs 30 * 10 ^ 9"
    and room: "length (rc_q c) + length evs + 2 \<le> cap"
  shows "last (fst (guard_run vmess_check_replay c ((t0, n) # evs @ [(t, n)]))) = False"
proof -
  have r: "vmess_check_replay = replay_check_and_insert" by (intro ext) (simp add: vmess_check_replay_def)
  have i: "replay_inv c" unfolding c r by (rule vmess_cache.run_inv [OF replay_inv_new])
  have p: "rc_ttl c = max secs 30 * 10 ^ 9" "rc_max_entries c = cap"
    unfolding c r using replay_run_params [OF replay_inv_new] by (simp_all add: replay_cache_new_def)
  let ?c = "snd (replay_check_and_insert c t0 n)"
  have "all_keep replay_check_and_insert replay_keeps t0 ?c (evs @ [(t, n)])"
    by (rule replay_all_keep) (use vmess_cache.check_inv [OF i, of t0 n] replay_check_params [OF i, of t0 n] p fresh room in auto)
  from vmess_cache.no_replay [OF i acc [unfolded r] this] show ?thesis by (simp add: r)
qed

theorem vmess_replay_rejected_witness:
  "last (fst (guard_run vmess_check_replay (replay_cache_new 120 4096) ((5, [1]) # [(9, [2])] @ [(7 * 10 ^ 9, [1])]))) = False"
  by (rule vmess_replay_rejected [of "replay_cache_new 120 4096" 120 4096 "[]"])
    (simp_all add: vmess_check_replay_def replay_check_and_insert_def replay_cache_new_def hm_contains_def replay_evict_def)

end
