(* ===== verification/Wire_Socks5.thy ===== *)
theory Wire_Socks5
  imports Wire_Params Handshake_Iface
begin

text \<open>
  SOCKS5 framing (\<^verbatim>\<open>wire-protocol/src/socks5.rs\<close>): the server parser of a pipelined greeting,
  optional RFC 1929 authentication and CONNECT request, and the client's pipelined request. The theory
  shows the round trip, that the parser is an incremental handshake, and that with authentication
  required a target is only reported to a client that sent the configured credentials.
\<close>

section \<open>Operations\<close>

record Socks5Target =
  st_host :: string
  st_port :: u16

datatype Socks5ServerHandshake =
    SocksNeedMore nat
  | SocksReady Socks5Target nat
  | SocksInvalid string

definition read_addr :: "bytes \<Rightarrow> nat \<Rightarrow> (string \<times> nat \<times> u16) option" where
  "read_addr buf off =
    (if length buf \<le> off then None
     else if buf ! off = 1 then
       (if length buf < off + 7 then None
        else Some (ipv4_to_string (slice (off + 1) (off + 5) buf), off + 7,
                   u16_from_be_bytes (buf ! (off + 5)) (buf ! (off + 6))))
     else if buf ! off = 3 then
       (if length buf \<le> off + 1 then None
        else let n = unat (buf ! (off + 1)) in
          if length buf < off + 2 + n + 2 then None
          else Some (from_utf8_lossy (slice (off + 2) (off + 2 + n) buf), off + 2 + n + 2,
                     u16_from_be_bytes (buf ! (off + 2 + n)) (buf ! (off + 2 + n + 1))))
     else if buf ! off = 4 then
       (if length buf < off + 19 then None
        else Some (ipv6_to_string (slice (off + 1) (off + 17) buf), off + 19,
                   u16_from_be_bytes (buf ! (off + 17)) (buf ! (off + 18))))
     else None)"

text \<open>The CONNECT request at offset \<open>off\<close>, behind the greeting and the optional authentication.\<close>

definition socks5_request :: "bytes \<Rightarrow> nat \<Rightarrow> Socks5ServerHandshake" where
  "socks5_request buf off =
    (if length buf < off + 4 then SocksNeedMore (off + 4)
     else if buf ! off \<noteq> 5 then SocksInvalid ''socks5: bad request version''
     else if buf ! (off + 1) \<noteq> 1 then SocksInvalid ''socks5: only CONNECT''
     else case read_addr buf (off + 3) of
         None \<Rightarrow> SocksNeedMore (length buf + 256)
       | Some (host, end_off, port) \<Rightarrow> SocksReady \<lparr>st_host = host, st_port = port\<rparr> end_off)"

definition utf8_or_empty :: "bytes \<Rightarrow> string" where
  "utf8_or_empty bs = (case from_utf8 bs of None \<Rightarrow> [] | Some s \<Rightarrow> s)"

text \<open>
  The \<^verbatim>\<open>if require_auth\<close> block: an early return (left) or the offset of the request (right). The
  RFC 1929 message at offset \<open>off\<close> is its own step.
\<close>

definition socks5_userpass ::
    "bytes \<Rightarrow> nat \<Rightarrow> string option \<Rightarrow> string option \<Rightarrow> Socks5ServerHandshake + nat" where
  "socks5_userpass buf off user pass =
    (if length buf < off + 3 then Inl (SocksNeedMore (off + 3))
     else if buf ! off \<noteq> 1 then Inl (SocksInvalid ''socks5: expected RFC1929 auth'')
     else let ulen = unat (buf ! (off + 1)) in
       if length buf < off + 3 + ulen then Inl (SocksNeedMore (off + 3 + ulen))
       else let plen = unat (buf ! (off + 2 + ulen)) in
         if length buf < off + 3 + ulen + plen then Inl (SocksNeedMore (off + 3 + ulen + plen))
         else let u = utf8_or_empty (slice (off + 2) (off + 2 + ulen) buf);
                  p = utf8_or_empty (slice (off + 3 + ulen) (off + 3 + ulen + plen) buf) in
           if map_option trim user \<noteq> Some (trim u) \<or> map_option trim pass \<noteq> Some (trim p)
           then Inl (SocksInvalid ''socks5: auth failed'')
           else Inr (off + 3 + ulen + plen))"

definition socks5_auth ::
    "bytes \<Rightarrow> nat \<Rightarrow> bool \<Rightarrow> string option \<Rightarrow> string option \<Rightarrow> Socks5ServerHandshake + nat" where
  "socks5_auth buf nmeth require_auth user pass =
    (if require_auth then
       (if \<not> list_ex (\<lambda>m. m = 2) (slice 2 (2 + nmeth) buf) then Inl (SocksInvalid ''socks5: username auth required'')
        else socks5_userpass buf (2 + nmeth) user pass)
     else if \<not> list_ex (\<lambda>m. m = 0) (slice 2 (2 + nmeth) buf)
     then Inl (SocksInvalid ''socks5: no-auth method missing'')
     else Inr (2 + nmeth))"

definition socks5_server_parse ::
    "bytes \<Rightarrow> bool \<Rightarrow> string option \<Rightarrow> string option \<Rightarrow> Socks5ServerHandshake" where
  "socks5_server_parse buf require_auth user pass =
    (if length buf < 3 then SocksNeedMore 3
     else if buf ! 0 \<noteq> 5 then SocksInvalid ''socks5: bad version''
     else let nmeth = unat (buf ! 1) in
       if length buf < 2 + nmeth then SocksNeedMore (2 + nmeth)
       else case socks5_auth buf nmeth require_auth user pass of
           Inl early \<Rightarrow> early
         | Inr off \<Rightarrow> socks5_request buf off)"

definition socks5_build_pipeline_connect :: "string \<Rightarrow> u16 \<Rightarrow> WireError + bytes" where
  "socks5_build_pipeline_connect host port =
    (let out = [5, 1, 0] @ [5, 1, 0] in
     case classify_host host of
       HostV4 o4 \<Rightarrow> Inr (out @ [1] @ o4 @ u16_to_be_bytes port)
     | HostV6 o16 \<Rightarrow> Inr (out @ [4] @ o16 @ u16_to_be_bytes port)
     | HostName \<Rightarrow>
         (let b = as_bytes host in
          if 255 < length b then Inl (Protocol ''socks5 domain too long'')
          else Inr (out @ [3, word_of_nat (length b)] @ b @ u16_to_be_bytes port)))"

section \<open>Stability\<close>

lemma read_addr_stable: "read_addr buf off = Some r \<Longrightarrow> read_addr (buf @ ys) off = Some r"
  by (auto simp: read_addr_def Let_def slice_simps split: if_split_asm)

lemma read_addr_bound: "read_addr buf off = Some (h, e, p) \<Longrightarrow> e \<le> length buf"
  by (auto simp: read_addr_def Let_def split: if_split_asm)

lemma socks5_request_stable:
  "socks5_request buf off = SocksReady t n \<Longrightarrow> socks5_request (buf @ ys) off = SocksReady t n"
  "socks5_request buf off = SocksInvalid m \<Longrightarrow> socks5_request (buf @ ys) off = SocksInvalid m"
  by (auto simp: socks5_request_def slice_simps dest: read_addr_stable [where ys = ys]
      split: if_split_asm option.split_asm)

lemma socks5_request_bound: "socks5_request buf off = SocksReady t n \<Longrightarrow> n \<le> length buf"
  by (auto simp: socks5_request_def dest: read_addr_bound split: if_split_asm option.split_asm)

text \<open>Only a decided early return is stable; \<open>SocksNeedMore\<close> may change with more bytes.\<close>

lemma socks5_userpass_stable:
  "socks5_userpass buf off u p = Inl (SocksInvalid m) \<Longrightarrow> socks5_userpass (buf @ ys) off u p = Inl (SocksInvalid m)"
  "socks5_userpass buf off u p = Inr n \<Longrightarrow> socks5_userpass (buf @ ys) off u p = Inr n"
  by (simp_all add: socks5_userpass_def Let_def slice_simps split: if_split_asm)

lemma socks5_auth_stable:
  assumes "2 + nm \<le> length buf"
  shows "socks5_auth buf nm ra u p = Inl (SocksInvalid m) \<Longrightarrow> socks5_auth (buf @ ys) nm ra u p = Inl (SocksInvalid m)"
    and "socks5_auth buf nm ra u p = Inr n \<Longrightarrow> socks5_auth (buf @ ys) nm ra u p = Inr n"
  using assms by (simp_all add: socks5_auth_def slice_simps socks5_userpass_stable split: if_split_asm)

lemma socks5_userpass_no_ready: "socks5_userpass buf off u p \<noteq> Inl (SocksReady t n)"
  by (simp add: socks5_userpass_def Let_def)

lemma socks5_auth_no_ready: "socks5_auth buf nm ra u p \<noteq> Inl (SocksReady t n)"
  by (simp add: socks5_auth_def socks5_userpass_no_ready)

lemma nth_0_stable: "\<not> length buf < 3 \<Longrightarrow> (buf @ ys) ! 0 = buf ! 0"
  by (cases buf) auto

lemma socks5_parse_stable:
  "socks5_server_parse buf ra u p = SocksReady t n \<Longrightarrow> socks5_server_parse (buf @ ys) ra u p = SocksReady t n"
  "socks5_server_parse buf ra u p = SocksInvalid m \<Longrightarrow> socks5_server_parse (buf @ ys) ra u p = SocksInvalid m"
  by (auto simp: socks5_server_parse_def Let_def slice_simps nth_0_stable socks5_request_stable socks5_auth_stable
      socks5_auth_no_ready split: if_split_asm sum.split_asm)

lemma socks5_parse_bound: "socks5_server_parse buf ra u p = SocksReady t n \<Longrightarrow> n \<le> length buf"
  by (auto simp: socks5_server_parse_def Let_def socks5_auth_no_ready dest: socks5_request_bound
      split: if_split_asm sum.split_asm)

type_synonym socks5_verdict = "string + Socks5Target \<times> nat"

definition socks5_decide ::
    "bool \<Rightarrow> string option \<Rightarrow> string option \<Rightarrow> bytes \<Rightarrow> socks5_verdict option" where
  "socks5_decide require_auth user pass buf = (case socks5_server_parse buf require_auth user pass of
      SocksNeedMore _ \<Rightarrow> None
    | SocksInvalid m \<Rightarrow> Some (Inl m)
    | SocksReady t n \<Rightarrow> Some (Inr (t, n)))"

definition socks5_consumed :: "socks5_verdict \<Rightarrow> nat" where
  "socks5_consumed v = (case v of Inl _ \<Rightarrow> 0 | Inr (_, n) \<Rightarrow> n)"

interpretation socks5: incremental_handshake "socks5_decide ra u p" socks5_consumed for ra u p
proof
  show "socks5_decide ra u p (buf @ ys) = Some r" if "socks5_decide ra u p buf = Some r" for buf r ys
    using that socks5_parse_stable [of buf ra u p]
    by (auto simp: socks5_decide_def split: Socks5ServerHandshake.splits)
  show "socks5_consumed r \<le> length buf" if "socks5_decide ra u p buf = Some r" for buf r
    using that socks5_parse_bound [of buf ra u p]
    by (auto simp: socks5_decide_def socks5_consumed_def split: Socks5ServerHandshake.splits)
qed

section \<open>Properties\<close>

lemma socks5_request_roundtrip:
  assumes "wf_str host" and "socks5_build_pipeline_connect host port = Inr b"
  shows "socks5_request (b @ ys) 3 = SocksReady \<lparr>st_host = canonical_host host, st_port = port\<rparr> (length b)"
proof (cases "classify_host host")
  case (HostV4 o4)
  then have "length o4 = 4" by (simp add: canonical_host_v4)
  then obtain p q r s where o: "o4 = [p, q, r, s]"
    by (auto simp: numeral_eq_Suc length_Suc_conv)
  from assms(2) HostV4 have b: "b = [5, 1, 0, 5, 1, 0, 1] @ o4 @ u16_to_be_bytes port"
    by (simp add: socks5_build_pipeline_connect_def)
  show ?thesis
    by (simp add: socks5_request_def read_addr_def b o u16_to_be_bytes_eq slice_def canonical_host_def HostV4)
next
  case (HostV6 o16)
  then have l: "length o16 = 16" by (rule classify_v6_length)
  from assms(2) HostV6 have b: "b = [5, 1, 0, 5, 1, 0, 4] @ o16 @ u16_to_be_bytes port"
    by (simp add: socks5_build_pipeline_connect_def)
  have ix: "(b @ ys) ! 23 = word_of_nat (unat port div 256)" "(b @ ys) ! 24 = ucast port"
    using l by (simp_all add: b u16_to_be_bytes_eq nth_append nth_Cons')
  have "slice 7 23 (b @ ys) = o16" using l by (simp add: b slice_def)
  with l ix show ?thesis
    by (simp add: socks5_request_def read_addr_def canonical_host_def HostV6) (simp add: b)
next
  case HostName
  let ?h = "as_bytes host"
  from assms(2) HostName have n: "length host \<le> 255"
    and b: "b = [5, 1, 0, 5, 1, 0, 3, word_of_nat (length host)] @ ?h @ u16_to_be_bytes port"
    by (auto simp: socks5_build_pipeline_connect_def Let_def split: if_splits)
  have u: "unat ((b @ ys) ! 7) = length host" using n by (simp add: b unat_u8_of_nat)
  have ix: "(b @ ys) ! (8 + length host) = word_of_nat (unat port div 256)"
    "(b @ ys) ! (9 + length host) = ucast port" "(b @ ys) ! 3 = 5" "(b @ ys) ! 4 = 1" "(b @ ys) ! 6 = 3"
    by (simp_all add: b u16_to_be_bytes_eq nth_append nth_Cons')
  have sl: "slice 8 (8 + length host) (b @ ys) = ?h" by (simp add: b slice_def)
  have len: "length b = 10 + length host" by (simp add: b)
  show ?thesis
    by (simp add: socks5_request_def read_addr_def Let_def u ix sl len canonical_host_def HostName assms(1))
qed

text \<open>
  SOCKS5 round trip. For a server without authentication, the client's pipelined greeting and
  CONNECT request for any host it can encode, followed by arbitrary payload, is reported as ready with
  the port, the host in canonical form and exactly the client's bytes consumed.
\<close>
lemma socks5_connect_roundtrip:
  assumes "wf_str host" and "socks5_build_pipeline_connect host port = Inr b"
  shows "socks5_server_parse (b @ payload) False user pass =
    SocksReady \<lparr>st_host = canonical_host host, st_port = port\<rparr> (length b)"
proof -
  from assms(2) obtain c where b: "b = [5, 1, 0] @ [5, 1, 0] @ c"
    by (auto simp: socks5_build_pipeline_connect_def Let_def split: host_kind.splits if_splits)
  then have "socks5_server_parse (b @ payload) False user pass = socks5_request (b @ payload) 3"
    by (simp add: socks5_server_parse_def socks5_auth_def slice_def)
  with socks5_request_roundtrip [OF assms] show ?thesis by simp
qed

text \<open>The user name and password of the RFC 1929 message behind the greeting.\<close>

definition rfc1929_credentials :: "bytes \<Rightarrow> string \<times> string" where
  "rfc1929_credentials buf =
    (let off = 2 + unat (buf ! 1); ulen = unat (buf ! (off + 1)); plen = unat (buf ! (off + 2 + ulen))
     in (utf8_or_empty (slice (off + 2) (off + 2 + ulen) buf),
         utf8_or_empty (slice (off + 3 + ulen) (off + 3 + ulen + plen) buf)))"

text \<open>
  SOCKS5 authentication. With authentication required, a target is reported only if a user name
  and a password are configured and the client's RFC 1929 message carries both, equal up to
  surrounding white space; with none configured no client gets through.
\<close>
theorem socks5_auth_required:
  assumes "socks5_server_parse buf True user pass = SocksReady t n"
  shows "\<exists>u p. user = Some u \<and> pass = Some p \<and>
     trim u = trim (fst (rfc1929_credentials buf)) \<and> trim p = trim (snd (rfc1929_credentials buf))"
proof -
  let ?nm = "unat (buf ! 1)"
  from assms obtain off where "socks5_userpass buf (2 + ?nm) user pass = Inr off"
    by (auto simp: socks5_server_parse_def socks5_auth_def socks5_userpass_no_ready
        Let_def split: if_split_asm sum.split_asm)
  then have "map_option trim user = Some (trim (fst (rfc1929_credentials buf))) \<and>
      map_option trim pass = Some (trim (snd (rfc1929_credentials buf)))"
    unfolding socks5_userpass_def rfc1929_credentials_def Let_def fst_conv snd_conv
    by (simp split: if_split_asm)
  then show ?thesis by auto
qed

theorem socks5_auth_required_witness:
  "\<exists>u p. Some ''u'' = Some u \<and> Some ''p'' = Some p \<and>
     trim u = trim (fst (rfc1929_credentials [5, 1, 2, 1, 1, 117, 1, 112, 5, 1, 0, 1, 10, 0, 0, 1, 0, 80])) \<and>
     trim p = trim (snd (rfc1929_credentials [5, 1, 2, 1, 1, 117, 1, 112, 5, 1, 0, 1, 10, 0, 0, 1, 0, 80]))"
proof -
  have "socks5_server_parse [5, 1, 2, 1, 1, 117, 1, 112, 5, 1, 0, 1, 10, 0, 0, 1, 0, 80] True (Some ''u'') (Some ''p'')
      = SocksReady \<lparr>st_host = ''10.0.0.1'', st_port = 80\<rparr> 18"
    by code_simp
  from socks5_auth_required [OF this] show ?thesis .
qed

end
