(* ===== verification/Wire_Trojan.thy ===== *)
theory Wire_Trojan
  imports Wire_Params Handshake_Iface
begin

unbundle bit_operations_syntax

text \<open>
  Trojan framing (\<^verbatim>\<open>wire-protocol/src/trojan.rs\<close>): the authentication line, the SOCKS-like address
  block that Shadowsocks shares, and the server's incremental handshake. SHA-224 is third-party code:
  it is the parameter \<open>sha224\<close>, of which only the digest length (28 bytes) is ever assumed. The theory
  shows the address round trip, the round trip of client prefix and server handshake, that a
  connection is granted only to a stream that starts with the authentication line of the password,
  and that a stream with an early line break is never answered.
\<close>

section \<open>Operations\<close>

definition HEX :: bytes where
  "HEX = as_bytes ''0123456789abcdef''"

definition CRLF :: bytes where
  "CRLF = [13, 10]"

definition trojan_auth_line :: "(bytes \<Rightarrow> bytes) \<Rightarrow> string \<Rightarrow> bytes" where
  "trojan_auth_line sha224 password =
     concat (map (\<lambda>b. [HEX ! unat (drop_bit 4 b), HEX ! unat (b AND 0xF)]) (sha224 (as_bytes password))) @ CRLF"

definition trojan_parse_and_verify :: "(bytes \<Rightarrow> bytes) \<Rightarrow> bytes \<Rightarrow> string \<Rightarrow> bool" where
  "trojan_parse_and_verify sha224 line_56 password =
    (if length line_56 \<noteq> 56 then False else line_56 = take 56 (trojan_auth_line sha224 password))"

record TrojanAddr =
  ta_host :: string
  ta_port :: u16

definition trojan_parse_address :: "bytes \<Rightarrow> WireError + (TrojanAddr \<times> nat) option" where
  "trojan_parse_address buf =
    (if buf = [] then Inr None
     else if length buf < 1 + 2 then Inr None
     else if buf ! 0 = 1 then
       (if length buf < 1 + 4 + 2 then Inr None
        else Inr (Some (\<lparr>ta_host = ipv4_to_string (slice 1 5 buf),
                         ta_port = u16_from_be_bytes (buf ! 5) (buf ! 6)\<rparr>, 7)))
     else if buf ! 0 = 3 then
       (if length buf < 2 then Inr None
        else let n = unat (buf ! 1) in
          if length buf < 2 + n + 2 then Inr None
          else case from_utf8 (slice 2 (2 + n) buf) of
              None \<Rightarrow> Inl (Parse (utf8_error_text (slice 2 (2 + n) buf)))
            | Some host \<Rightarrow> Inr (Some (\<lparr>ta_host = host,
                 ta_port = u16_from_be_bytes (buf ! (2 + n)) (buf ! (2 + n + 1))\<rparr>, 2 + n + 2)))
     else if buf ! 0 = 4 then
       (if length buf < 1 + 16 + 2 then Inr None
        else Inr (Some (\<lparr>ta_host = ipv6_to_string (slice 1 17 buf),
                         ta_port = u16_from_be_bytes (buf ! 17) (buf ! 18)\<rparr>, 19)))
     else Inl (Protocol ''unknown trojan address type''))"

definition trojan_build_address :: "TrojanAddr \<Rightarrow> WireError + bytes" where
  "trojan_build_address addr = (case classify_host (ta_host addr) of
      HostV4 o4 \<Rightarrow> Inr (1 # o4 @ u16_to_be_bytes (ta_port addr))
    | HostV6 o16 \<Rightarrow> Inr (4 # o16 @ u16_to_be_bytes (ta_port addr))
    | HostName \<Rightarrow>
        (let b = as_bytes (ta_host addr) in
         if 255 < length b then Inl (Protocol ''domain too long'')
         else Inr (3 # word_of_nat (length b) # b @ u16_to_be_bytes (ta_port addr))))"

datatype TrojanHandshakeResult =
    TrojanNeedMore nat
  | TrojanReady TrojanAddr nat
  | TrojanInvalidAuth

text \<open>\<open>buf.windows(2).position(|w| w == CRLF)\<close>.\<close>

fun find_crlf :: "bytes \<Rightarrow> nat option" where
  "find_crlf (a # b # xs) = (if [a, b] = CRLF then Some 0 else map_option Suc (find_crlf (b # xs)))"
| "find_crlf _ = None"

definition trojan_server_handshake :: "(bytes \<Rightarrow> bytes) \<Rightarrow> bytes \<Rightarrow> string \<Rightarrow> TrojanHandshakeResult" where
  "trojan_server_handshake sha224 buf password = (case find_crlf buf of
      None \<Rightarrow> TrojanNeedMore 58
    | Some pos \<Rightarrow>
       if pos < 56 then TrojanNeedMore 58
       else let line = take pos buf in
         if length line \<noteq> 56 \<or> \<not> trojan_parse_and_verify sha224 line password then TrojanInvalidAuth
         else let after = pos + 2 in
           if length buf \<le> after then TrojanNeedMore (after + 7)
           else case trojan_parse_address (drop after buf) of
               Inr (Some (addr, consumed)) \<Rightarrow> TrojanReady addr (after + consumed)
             | Inr None \<Rightarrow> TrojanNeedMore (after + 7)
             | Inl _ \<Rightarrow> TrojanInvalidAuth)"

section \<open>The address block\<close>

lemma trojan_address_roundtrip:
  assumes "wf_str (ta_host a)" and "trojan_build_address a = Inr b"
  shows "trojan_parse_address (b @ ys) =
    Inr (Some (\<lparr>ta_host = canonical_host (ta_host a), ta_port = ta_port a\<rparr>, length b))"
proof (cases "classify_host (ta_host a)")
  case (HostV4 o4)
  then have l: "length o4 = 4" by (simp add: canonical_host_v4)
  then obtain p q r s where o: "o4 = [p, q, r, s]"
    by (auto simp: numeral_eq_Suc length_Suc_conv)
  from assms(2) HostV4 have b: "b = 1 # o4 @ u16_to_be_bytes (ta_port a)"
    by (simp add: trojan_build_address_def)
  show ?thesis
    by (simp add: trojan_parse_address_def b o u16_to_be_bytes_eq slice_def canonical_host_def HostV4)
next
  case (HostV6 o16)
  then have l: "length o16 = 16" by (rule classify_v6_length)
  from assms(2) HostV6 have b: "b = 4 # o16 @ u16_to_be_bytes (ta_port a)"
    by (simp add: trojan_build_address_def)
  have "slice 1 17 (b @ ys) = o16" using l by (simp add: b slice_def)
  moreover have "(b @ ys) ! 17 = word_of_nat (unat (ta_port a) div 256)" "(b @ ys) ! 18 = ucast (ta_port a)"
    using l by (simp_all add: b u16_to_be_bytes_eq nth_append nth_Cons')
  ultimately show ?thesis
    using l by (simp add: trojan_parse_address_def b canonical_host_def HostV6)
next
  case HostName
  let ?h = "as_bytes (ta_host a)"
  from assms(2) HostName have n: "length ?h \<le> 255"
    and b: "b = 3 # word_of_nat (length ?h) # ?h @ u16_to_be_bytes (ta_port a)"
    by (auto simp: trojan_build_address_def Let_def split: if_splits)
  have u: "unat ((b @ ys) ! 1) = length ?h" using n by (simp add: b unat_u8_of_nat)
  have sl: "slice 2 (2 + length ?h) (b @ ys) = ?h" by (simp add: b slice_def)
  have "(b @ ys) ! (2 + length ?h) = word_of_nat (unat (ta_port a) div 256)"
    "(b @ ys) ! (2 + length ?h + 1) = ucast (ta_port a)"
    by (simp_all add: b u16_to_be_bytes_eq nth_append nth_Cons')
  moreover have "(b @ ys) ! 0 = 3" "length b = length ?h + 4" by (simp_all add: b)
  ultimately show ?thesis
    using sl assms(1) unfolding trojan_parse_address_def u Let_def
    by (simp add: canonical_host_def HostName add.commute) (simp add: b)
qed

lemma trojan_parse_address_stable:
  "trojan_parse_address buf = Inr (Some r) \<Longrightarrow> trojan_parse_address (buf @ ys) = Inr (Some r)"
  "trojan_parse_address buf = Inl e \<Longrightarrow> trojan_parse_address (buf @ ys) = Inl e"
  by (auto simp: trojan_parse_address_def Let_def slice_simps split: if_split_asm option.split_asm)

lemma trojan_parse_address_length:
  "trojan_parse_address buf = Inr (Some (a, n)) \<Longrightarrow> n \<le> length buf"
  by (auto simp: trojan_parse_address_def Let_def split: if_splits option.splits)

section \<open>Finding the end of the line\<close>

lemma find_crlf_bound: "find_crlf buf = Some p \<Longrightarrow> p + 2 \<le> length buf \<and> slice p (p + 2) buf = CRLF"
proof (induction buf arbitrary: p rule: find_crlf.induct)
  case (1 a b xs)
  then show ?case by (cases p) (auto simp: slice_def CRLF_def split: if_splits)
qed auto

lemma find_crlf_append: "find_crlf buf = Some p \<Longrightarrow> find_crlf (buf @ ys) = Some p"
  by (induction buf arbitrary: p rule: find_crlf.induct) (auto split: if_splits)

lemma find_crlf_skip: "13 \<notin> set xs \<Longrightarrow> find_crlf (xs @ CRLF @ ys) = Some (length xs)"
proof (induction xs)
  case Nil
  then show ?case by (simp add: CRLF_def)
next
  case (Cons x xs)
  then have IH: "find_crlf (xs @ CRLF @ ys) = Some (length xs)" by simp
  obtain z zs where z: "xs @ CRLF @ ys = z # zs" by (cases xs) (auto simp: CRLF_def)
  with IH Cons.prems show ?case by (simp add: CRLF_def)
qed

section \<open>The handshake as an incremental parser\<close>

type_synonym trojan_verdict = "(TrojanAddr \<times> nat) option"

definition trojan_decide :: "(bytes \<Rightarrow> bytes) \<Rightarrow> string \<Rightarrow> bytes \<Rightarrow> trojan_verdict option" where
  "trojan_decide sha224 password buf = (case trojan_server_handshake sha224 buf password of
      TrojanNeedMore _ \<Rightarrow> None
    | TrojanInvalidAuth \<Rightarrow> Some None
    | TrojanReady a n \<Rightarrow> Some (Some (a, n)))"

definition trojan_consumed :: "trojan_verdict \<Rightarrow> nat" where
  "trojan_consumed v = (case v of None \<Rightarrow> 0 | Some (_, n) \<Rightarrow> n)"

lemma trojan_ready_iff:
  "trojan_server_handshake h buf pw = TrojanReady a n \<longleftrightarrow>
     find_crlf buf = Some 56 \<and> trojan_parse_and_verify h (take 56 buf) pw \<and>
     (\<exists>c. trojan_parse_address (drop 58 buf) = Inr (Some (a, c)) \<and> n = 58 + c)"
  (is "?L \<longleftrightarrow> ?R")
proof
  assume l: ?L
  then obtain p where p: "find_crlf buf = Some p" "\<not> p < 56"
    by (auto simp: trojan_server_handshake_def split: option.splits if_split_asm)
  have "p + 2 \<le> length buf" using find_crlf_bound [OF p(1)] by simp
  then have "length (take p buf) = p" by simp
  with l p have "p = 56"
    by (auto simp: trojan_server_handshake_def Let_def split: if_split_asm)
  with l p show ?R
    by (auto simp: trojan_server_handshake_def Let_def split: if_split_asm sum.split_asm option.split_asm)
next
  assume r: ?R
  then obtain c where c: "trojan_parse_address (drop 58 buf) = Inr (Some (a, c))" "n = 58 + c" by blast
  from c(1) have "drop 58 buf \<noteq> []" by (auto simp: trojan_parse_address_def)
  then have "58 < length buf" by simp
  with r c show ?L by (simp add: trojan_server_handshake_def)
qed

lemma trojan_invalid_iff:
  "trojan_server_handshake h buf pw = TrojanInvalidAuth \<longleftrightarrow>
     (\<exists>p \<ge> 56. find_crlf buf = Some p \<and>
        (p \<noteq> 56 \<or> \<not> trojan_parse_and_verify h (take 56 buf) pw \<or>
         (58 < length buf \<and> (\<exists>e. trojan_parse_address (drop 58 buf) = Inl e))))"
  (is "?L \<longleftrightarrow> ?R")
proof (cases "find_crlf buf")
  case None
  then show ?thesis by (simp add: trojan_server_handshake_def)
next
  case (Some p)
  then have "p + 2 \<le> length buf" using find_crlf_bound by blast
  then have "length (take p buf) = p" by simp
  with Some show ?thesis
    by (auto simp: trojan_server_handshake_def Let_def not_less split: sum.splits option.splits)
qed

lemma trojan_parse_and_verify_append:
  "58 \<le> length buf \<Longrightarrow> trojan_parse_and_verify h (take 56 (buf @ ys)) pw = trojan_parse_and_verify h (take 56 buf) pw"
  by simp

lemma trojan_ready_stable:
  assumes "trojan_server_handshake h buf pw = TrojanReady a n"
  shows "trojan_server_handshake h (buf @ ys) pw = TrojanReady a n"
proof -
  from assms obtain c where c: "find_crlf buf = Some 56" "trojan_parse_and_verify h (take 56 buf) pw"
    "trojan_parse_address (drop 58 buf) = Inr (Some (a, c))" "n = 58 + c"
    by (auto simp: trojan_ready_iff)
  have "58 \<le> length buf" using find_crlf_bound [OF c(1)] by simp
  then show ?thesis
    using c find_crlf_append [OF c(1)] trojan_parse_address_stable(1) [OF c(3)]
    by (simp add: trojan_ready_iff)
qed

lemma trojan_invalid_stable:
  assumes "trojan_server_handshake h buf pw = TrojanInvalidAuth"
  shows "trojan_server_handshake h (buf @ ys) pw = TrojanInvalidAuth"
proof -
  from assms obtain p where p: "56 \<le> p" "find_crlf buf = Some p" and
    r: "p \<noteq> 56 \<or> \<not> trojan_parse_and_verify h (take 56 buf) pw \<or>
         (58 < length buf \<and> (\<exists>e. trojan_parse_address (drop 58 buf) = Inl e))"
    unfolding trojan_invalid_iff by blast
  have l: "58 \<le> length buf" using find_crlf_bound [OF p(2)] p(1) by simp
  have "(\<exists>e. trojan_parse_address (drop 58 (buf @ ys)) = Inl e)"
    if "\<exists>e. trojan_parse_address (drop 58 buf) = Inl e"
    using that l trojan_parse_address_stable(2) by fastforce
  with r l have "p \<noteq> 56 \<or> \<not> trojan_parse_and_verify h (take 56 (buf @ ys)) pw \<or>
         (58 < length (buf @ ys) \<and> (\<exists>e. trojan_parse_address (drop 58 (buf @ ys)) = Inl e))"
    by auto
  with p find_crlf_append [OF p(2)] show ?thesis unfolding trojan_invalid_iff by blast
qed

lemma trojan_decide_cases:
  "trojan_decide h pw buf = Some v \<longleftrightarrow>
     (v = None \<and> trojan_server_handshake h buf pw = TrojanInvalidAuth) \<or>
     (\<exists>a n. v = Some (a, n) \<and> trojan_server_handshake h buf pw = TrojanReady a n)"
  by (auto simp: trojan_decide_def split: TrojanHandshakeResult.splits)

interpretation trojan: incremental_handshake "trojan_decide h pw" trojan_consumed for h pw
proof
  show "trojan_decide h pw (buf @ ys) = Some r" if "trojan_decide h pw buf = Some r" for buf r ys
    using that unfolding trojan_decide_cases by (blast dest: trojan_ready_stable trojan_invalid_stable)
  show "trojan_consumed r \<le> length buf" if "trojan_decide h pw buf = Some r" for buf r
  proof (cases r)
    case None
    then show ?thesis by (simp add: trojan_consumed_def)
  next
    case (Some v)
    with that obtain a n where v: "v = (a, n)" and p: "trojan_server_handshake h buf pw = TrojanReady a n"
      by (auto simp: trojan_decide_cases)
    then obtain c where c: "find_crlf buf = Some 56" "trojan_parse_address (drop 58 buf) = Inr (Some (a, c))"
      "n = 58 + c" by (auto simp: trojan_ready_iff)
    have "58 \<le> length buf" using find_crlf_bound [OF c(1)] by simp
    with c trojan_parse_address_length [OF c(2)] Some v show ?thesis by (simp add: trojan_consumed_def)
  qed
qed

section \<open>Properties\<close>

lemma HEX_no_cr: "i < 16 \<Longrightarrow> HEX ! i \<noteq> 13"
proof -
  have "list_all (\<lambda>x. x \<noteq> 13) HEX" "length HEX = 16" by code_simp+
  then show "i < 16 \<Longrightarrow> HEX ! i \<noteq> 13" by (simp add: list_all_length)
qed

lemma nibble_less: "unat (drop_bit 4 (b :: u8)) < 16" "unat (b AND 0xF) < 16"
proof -
  have "unat (drop_bit 4 b) = unat b div 16" by (simp only: drop_bit_eq_div) (simp add: unat_div)
  then show "unat (drop_bit 4 b) < 16" using u8_less [of b] by simp
  have "unat (b AND 0xF) \<le> unat (0xF :: u8)"
    by (rule word_and_le1 [THEN word_le_nat_alt [THEN iffD1]])
  then show "unat (b AND 0xF) < 16" by simp
qed

lemma length_hex_pairs: "length (concat (map (\<lambda>b. [f b, g b]) xs)) = 2 * length xs"
  by (induction xs) simp_all

lemma trojan_auth_line_split:
  assumes "length (sha224 (as_bytes pw)) = 28"
  obtains hx where "trojan_auth_line sha224 pw = hx @ CRLF" "length hx = 56" "13 \<notin> set hx"
proof
  let ?hx = "concat (map (\<lambda>b. [HEX ! unat (drop_bit 4 b), HEX ! unat (b AND 0xF)]) (sha224 (as_bytes pw)))"
  show "trojan_auth_line sha224 pw = ?hx @ CRLF" by (simp add: trojan_auth_line_def)
  show "length ?hx = 56" by (simp add: length_hex_pairs assms)
  show "13 \<notin> set ?hx"
    using HEX_no_cr [OF nibble_less(1)] HEX_no_cr [OF nibble_less(2)] by (auto dest: sym)
qed

text \<open>
  Trojan round trip. If SHA-224 yields 28 bytes, then a stream made of the authentication line of
  the password, the address block of any target the client can encode and an arbitrary payload is
  accepted by the server for that password, with the target's port, its host in canonical form (an
  IPv4 text and a name come back unchanged, an IPv6 text in RFC 5952 form) and the payload offset
  just behind the address block.
\<close>
lemma trojan_handshake_roundtrip:
  assumes "length (sha224 (as_bytes pw)) = 28" and "wf_str (ta_host a)"
    and "trojan_build_address a = Inr b"
  shows "trojan_server_handshake sha224 (trojan_auth_line sha224 pw @ b @ payload) pw =
    TrojanReady \<lparr>ta_host = canonical_host (ta_host a), ta_port = ta_port a\<rparr> (58 + length b)"
proof -
  obtain hx where hx: "trojan_auth_line sha224 pw = hx @ CRLF" "length hx = 56" "13 \<notin> set hx"
    using trojan_auth_line_split [of sha224 pw, OF assms(1)] .
  let ?buf = "trojan_auth_line sha224 pw @ b @ payload"
  have "find_crlf ?buf = Some 56" using find_crlf_skip [OF hx(3), of "b @ payload"] hx by simp
  moreover have "trojan_parse_and_verify sha224 (take 56 ?buf) pw"
    using hx by (simp add: trojan_parse_and_verify_def)
  moreover have "drop 58 ?buf = b @ payload" using hx by (simp add: CRLF_def)
  ultimately show ?thesis
    using trojan_address_roundtrip [OF assms(2,3), of payload] by (simp add: trojan_ready_iff)
qed

text \<open>
  Trojan authentication. Whenever the server accepts a stream for a password, the stream starts
  with the complete authentication line of that password (the 56 hexadecimal digits of its digest and
  a line break), and the header it reports lies inside the received bytes.
\<close>
theorem trojan_accept_authenticated:
  assumes "trojan_server_handshake sha224 buf pw = TrojanReady a n"
  shows "take 56 buf = take 56 (trojan_auth_line sha224 pw) \<and> slice 56 58 buf = CRLF \<and> n \<le> length buf"
proof -
  from assms have "find_crlf buf = Some 56" "trojan_parse_and_verify sha224 (take 56 buf) pw"
    by (auto simp: trojan_ready_iff)
  moreover have "trojan_consumed (Some (a, n)) \<le> length buf"
    by (rule trojan.consumed_le [of sha224 pw]) (simp add: trojan_decide_def assms)
  ultimately show ?thesis
    using find_crlf_bound [of buf 56] by (auto simp: trojan_parse_and_verify_def trojan_consumed_def split: if_splits)
qed

theorem trojan_accept_authenticated_witness:
  "take 56 (trojan_auth_line (\<lambda>_. replicate 28 0xAB) ''pw'' @ [1, 10, 0, 0, 7, 1, 187]) =
     take 56 (trojan_auth_line (\<lambda>_. replicate 28 0xAB) ''pw'')"
proof -
  have r: "trojan_server_handshake (\<lambda>_. replicate 28 0xAB)
      (trojan_auth_line (\<lambda>_. replicate 28 0xAB) ''pw'' @ [1, 10, 0, 0, 7, 1, 187]) ''pw'' =
    TrojanReady \<lparr>ta_host = ''10.0.0.7'', ta_port = 443\<rparr> 65"
    by code_simp
  from trojan_accept_authenticated [OF r] show ?thesis by blast
qed

text \<open>
  Trojan never answers an early line break. If the first line of a stream is shorter than 56
  bytes, the server asks for more input on that stream and on every extension of it: a client with a
  malformed first line is neither accepted nor rejected.
\<close>
theorem trojan_short_line_never_decided:
  assumes "find_crlf buf = Some pos" and "pos < 56"
  shows "trojan_server_handshake sha224 (buf @ ys) pw = TrojanNeedMore 58"
  using find_crlf_append [OF assms(1), of ys] assms(2) by (simp add: trojan_server_handshake_def)

theorem trojan_short_line_never_decided_witness:
  "trojan_server_handshake (\<lambda>_. []) ([71, 13, 10] @ replicate 100 65) ''pw'' = TrojanNeedMore 58"
proof -
  have "find_crlf [71, 13, 10] = Some 1" by (simp add: CRLF_def)
  from trojan_short_line_never_decided [OF this] show ?thesis by simp
qed

end
