(* ===== verification/Wire_Shadowsocks.thy ===== *)
theory Wire_Shadowsocks
  imports Wire_Trojan
begin

text \<open>
  Shadowsocks AEAD framing (\<^verbatim>\<open>wire-protocol/src/shadowsocks.rs\<close>): the server handshake that opens
  the first two packets behind the salt and the client's first chunk. The cipher crate is third-party
  and is the record \<open>ss_crypto\<close>; its packets are opened and sealed in place, in a buffer that holds the
  plaintext and the tag. \<open>ss_crypto_ok\<close> names what the code relies on. The theory shows that the
  handshake is incremental and what a server reads from a client's first chunk: the target, the exact
  length, and the client's payload followed by the tag bytes that are left in the buffer.
\<close>

section \<open>Cipher crate\<close>

record ('k, 'c) ss_crypto =
  sc_parse :: "string \<Rightarrow> 'k option"
  sc_is_aead :: "'k \<Rightarrow> bool"
  sc_salt_len :: "'k \<Rightarrow> nat"
  sc_tag_len :: "'k \<Rightarrow> nat"
  sc_key_len :: "'k \<Rightarrow> nat"
  sc_bytes_to_key :: "bytes \<Rightarrow> nat \<Rightarrow> bytes"
  sc_new :: "'k \<Rightarrow> bytes \<Rightarrow> bytes \<Rightarrow> 'c"
  sc_cipher_tag :: "'c \<Rightarrow> nat"
  sc_decrypt_packet :: "'c \<Rightarrow> bytes \<Rightarrow> bool \<times> bytes \<times> 'c"
  sc_encrypt_packet :: "'c \<Rightarrow> bytes \<Rightarrow> bytes \<times> 'c"

text \<open>
  A packet is sealed in place: the caller leaves room for the tag behind the plaintext. Opening a
  sealed packet in the same cipher state restores the plaintext in place; the room of the tag keeps
  some bytes. Both advance the state alike.
\<close>

definition ss_crypto_ok :: "('k, 'c) ss_crypto \<Rightarrow> bool" where
  "ss_crypto_ok S \<longleftrightarrow>
     (\<forall>k key salt. sc_cipher_tag S (sc_new S k key salt) = sc_tag_len S k) \<and>
     (\<forall>c p room ct c'. length room = sc_cipher_tag S c \<longrightarrow> sc_encrypt_packet S c (p @ room) = (ct, c') \<longrightarrow>
        length ct = length p + sc_cipher_tag S c \<and> sc_cipher_tag S c' = sc_cipher_tag S c \<and>
        (\<exists>x. length x = sc_cipher_tag S c \<and> sc_decrypt_packet S c ct = (True, p @ x, c')))"

section \<open>Operations\<close>

datatype SsTcpHandshakeResult =
    SsNeedMore nat
  | SsReady TrojanAddr nat bytes
  | SsInvalid string

text \<open>The second packet, at offset \<open>off\<close>: the payload of the announced length.\<close>

definition ss_open_payload ::
    "('k, 'c) ss_crypto \<Rightarrow> 'c \<Rightarrow> nat \<Rightarrow> bytes \<Rightarrow> nat \<Rightarrow> nat \<Rightarrow> WireError + (TrojanAddr \<times> nat \<times> bytes) option" where
  "ss_open_payload S cipher tag_len buf off plen =
    (let pay_ct_len = plen + tag_len in
     if length buf < off + pay_ct_len then Inr None
     else case sc_decrypt_packet S cipher (slice off (off + pay_ct_len) buf) of
         (ok, pay, _) \<Rightarrow>
           if \<not> ok then Inl (Protocol ''shadowsocks: payload decrypt failed'')
           else case trojan_parse_address pay of
               Inl e \<Rightarrow> Inl e
             | Inr None \<Rightarrow> Inl (Protocol ''shadowsocks: incomplete address'')
             | Inr (Some (addr, n)) \<Rightarrow> Inr (Some (addr, off + pay_ct_len, drop n pay)))"

definition decrypt_first_payload ::
    "('k, 'c) ss_crypto \<Rightarrow> bytes \<Rightarrow> string \<Rightarrow> string \<Rightarrow> WireError + (TrojanAddr \<times> nat \<times> bytes) option" where
  "decrypt_first_payload S buf meth password =
    (case sc_parse S (trim meth) of
       None \<Rightarrow> Inl (Protocol ''shadowsocks: unknown cipher method'')
     | Some kind \<Rightarrow>
        if \<not> sc_is_aead S kind then Inl (Protocol ''shadowsocks: only AEAD methods supported on Pirate wire'')
        else let salt_len = sc_salt_len S kind; tag_len = sc_tag_len S kind in
          if length buf < salt_len then Inr None
          else let key = sc_bytes_to_key S (as_bytes password) (sc_key_len S kind);
                   cipher = sc_new S kind key (take salt_len buf);
                   off = salt_len;
                   len_ct_len = 2 + tag_len in
            if length buf < off + len_ct_len then Inr None
            else case sc_decrypt_packet S cipher (slice off (off + len_ct_len) buf) of
                (ok, len_pkt, cipher') \<Rightarrow>
                  if \<not> ok then Inl (Protocol ''shadowsocks: length chunk decrypt failed'')
                  else if length len_pkt < 2 then Inl (Protocol ''shadowsocks: bad length plaintext'')
                  else ss_open_payload S cipher' tag_len buf (off + len_ct_len)
                         (unat (u16_from_be_bytes (len_pkt ! 0) (len_pkt ! 1))))"

definition ss_tcp_server_handshake ::
    "('k, 'c) ss_crypto \<Rightarrow> bytes \<Rightarrow> string \<Rightarrow> string \<Rightarrow> SsTcpHandshakeResult" where
  "ss_tcp_server_handshake S buf meth password =
    (case sc_parse S (trim meth) of
       None \<Rightarrow> SsInvalid ''bad cipher method''
     | Some kind \<Rightarrow>
        if \<not> sc_is_aead S kind then SsInvalid ''only AEAD''
        else let salt_len = sc_salt_len S kind; tag_len = sc_tag_len S kind;
                 min_payload_ct = 7 + tag_len;
                 min_need = salt_len + (2 + tag_len) + min_payload_ct in
          if length buf < salt_len + (2 + tag_len) then SsNeedMore (salt_len + (2 + tag_len))
          else case decrypt_first_payload S buf meth password of
              Inr None \<Rightarrow> SsNeedMore (max min_need (length buf + 32))
            | Inr (Some (addr, consumed, tail)) \<Rightarrow> SsReady addr consumed tail
            | Inl _ \<Rightarrow> SsInvalid ''decrypt'')"

text \<open>The random salt is an argument.\<close>

definition ss_client_first_chunk ::
    "('k, 'c) ss_crypto \<Rightarrow> bytes \<Rightarrow> string \<Rightarrow> string \<Rightarrow> TrojanAddr \<Rightarrow> bytes \<Rightarrow> WireError + bytes" where
  "ss_client_first_chunk S salt meth password target tail =
    (case sc_parse S (trim meth) of
       None \<Rightarrow> Inl (Protocol ''shadowsocks: bad method'')
     | Some kind \<Rightarrow>
        if \<not> sc_is_aead S kind then Inl (Protocol ''shadowsocks: only AEAD'')
        else let tag_len = sc_tag_len S kind;
                 key = sc_bytes_to_key S (as_bytes password) (sc_key_len S kind);
                 cipher = sc_new S kind key salt in
          case trojan_build_address target of
            Inl e \<Rightarrow> Inl e
          | Inr a \<Rightarrow>
             (let plain = a @ tail;
                  plen = (word_of_nat (length plain) :: u16);
                  (len_ct, cipher') = sc_encrypt_packet S cipher (u16_to_be_bytes plen @ replicate tag_len 0);
                  (pay, _) = sc_encrypt_packet S cipher' (plain @ replicate tag_len 0) in
              Inr (salt @ len_ct @ pay)))"

section \<open>The handshake is incremental\<close>

lemma ss_open_payload_stable:
  "ss_open_payload S c tg buf off plen = Inl e \<Longrightarrow> ss_open_payload S c tg (buf @ ys) off plen = Inl e"
  "ss_open_payload S c tg buf off plen = Inr (Some r) \<Longrightarrow> ss_open_payload S c tg (buf @ ys) off plen = Inr (Some r)"
  by (auto simp: ss_open_payload_def Let_def slice_simps split: if_split_asm)

lemma ss_open_payload_bound: "ss_open_payload S c tg buf off plen = Inr (Some (a, n, t)) \<Longrightarrow> n \<le> length buf"
  by (auto simp: ss_open_payload_def Let_def split: if_split_asm prod.split_asm sum.split_asm option.split_asm)

lemma take_append_stable: "n \<le> length xs \<Longrightarrow> take n (xs @ ys) = take n xs"
  by simp

lemma decrypt_first_stable:
  "decrypt_first_payload S buf m p = Inl e \<Longrightarrow> decrypt_first_payload S (buf @ ys) m p = Inl e"
  "decrypt_first_payload S buf m p = Inr (Some r) \<Longrightarrow> decrypt_first_payload S (buf @ ys) m p = Inr (Some r)"
  by (auto simp: decrypt_first_payload_def Let_def slice_simps take_append_stable ss_open_payload_stable
      split: if_split_asm option.split_asm prod.split_asm)

lemma decrypt_first_bound: "decrypt_first_payload S buf m p = Inr (Some (a, n, t)) \<Longrightarrow> n \<le> length buf"
  by (auto simp: decrypt_first_payload_def Let_def dest: ss_open_payload_bound
      split: if_split_asm option.split_asm prod.split_asm)

type_synonym ss_verdict = "string + TrojanAddr \<times> nat \<times> bytes"

definition ss_decide :: "('k, 'c) ss_crypto \<Rightarrow> string \<Rightarrow> string \<Rightarrow> bytes \<Rightarrow> ss_verdict option" where
  "ss_decide S meth password buf = (case ss_tcp_server_handshake S buf meth password of
      SsNeedMore _ \<Rightarrow> None
    | SsInvalid m \<Rightarrow> Some (Inl m)
    | SsReady a n t \<Rightarrow> Some (Inr (a, n, t)))"

definition ss_consumed :: "ss_verdict \<Rightarrow> nat" where
  "ss_consumed v = (case v of Inl _ \<Rightarrow> 0 | Inr (_, n, _) \<Rightarrow> n)"

lemma ss_handshake_stable:
  "ss_tcp_server_handshake S buf m p = SsInvalid e \<Longrightarrow> ss_tcp_server_handshake S (buf @ ys) m p = SsInvalid e"
  "ss_tcp_server_handshake S buf m p = SsReady a n t \<Longrightarrow> ss_tcp_server_handshake S (buf @ ys) m p = SsReady a n t"
  by (auto simp: ss_tcp_server_handshake_def Let_def decrypt_first_stable
      split: if_split_asm option.split_asm sum.split_asm)

lemma ss_handshake_bound: "ss_tcp_server_handshake S buf m p = SsReady a n t \<Longrightarrow> n \<le> length buf"
  by (auto simp: ss_tcp_server_handshake_def Let_def dest: decrypt_first_bound
      split: if_split_asm option.split_asm sum.split_asm)

interpretation shadowsocks: incremental_handshake "ss_decide S m p" ss_consumed for S m p
proof
  show "ss_decide S m p (buf @ ys) = Some r" if "ss_decide S m p buf = Some r" for buf r ys
    using that ss_handshake_stable [of S buf m p]
    by (auto simp: ss_decide_def split: SsTcpHandshakeResult.splits)
  show "ss_consumed r \<le> length buf" if "ss_decide S m p buf = Some r" for buf r
    using that ss_handshake_bound [of S buf m p]
    by (auto simp: ss_decide_def ss_consumed_def split: SsTcpHandshakeResult.splits)
qed

section \<open>What the server reads from the client's first chunk\<close>

lemma ss_sealed:
  assumes "ss_crypto_ok S" "sc_encrypt_packet S c (p @ replicate (sc_cipher_tag S c) 0) = (ct, c')"
  shows "length ct = length p + sc_cipher_tag S c" "sc_cipher_tag S c' = sc_cipher_tag S c"
    "\<exists>x. length x = sc_cipher_tag S c \<and> sc_decrypt_packet S c ct = (True, p @ x, c')"
  using assms unfolding ss_crypto_ok_def by (metis length_replicate)+

lemma ss_new_tag: "ss_crypto_ok S \<Longrightarrow> sc_cipher_tag S (sc_new S k key salt) = sc_tag_len S k"
  by (simp add: ss_crypto_ok_def)

text \<open>Opening the two packets of a chunk cut at the packet boundaries.\<close>

lemma decrypt_first_packets:
  assumes k: "sc_parse S (trim m) = Some k" "sc_is_aead S k" and salt: "length salt = sc_salt_len S k"
    and c: "c = sc_new S k (sc_bytes_to_key S (as_bytes p) (sc_key_len S k)) salt"
    and l1: "length ct1 = 2 + sc_tag_len S k" and d1: "sc_decrypt_packet S c ct1 = (True, u16_to_be_bytes (word_of_nat n) @ x1, c1)"
    and n: "n \<le> 65535" and l2: "length ct2 = n + sc_tag_len S k" and d2: "sc_decrypt_packet S c1 ct2 = (True, a @ r, c2)"
    and pa: "trojan_parse_address (a @ r) = Inr (Some (addr, length a))"
  shows "decrypt_first_payload S (salt @ ct1 @ ct2 @ rest) m p =
    Inr (Some (addr, length (salt @ ct1 @ ct2), r))"
proof -
  define buf where "buf = salt @ ct1 @ ct2 @ rest"
  have s1: "slice (sc_salt_len S k) (sc_salt_len S k + (2 + sc_tag_len S k)) buf = ct1"
    using slice_mid [of salt "sc_salt_len S k" ct1 _ "ct2 @ rest"] salt l1 by (simp add: buf_def)
  have s2: "slice (sc_salt_len S k + (2 + sc_tag_len S k)) (sc_salt_len S k + (2 + sc_tag_len S k) + (n + sc_tag_len S k)) buf = ct2"
    using slice_mid [of "salt @ ct1" "sc_salt_len S k + (2 + sc_tag_len S k)" ct2 _ rest] salt l1 l2 by (simp add: buf_def)
  have t: "take (sc_salt_len S k) buf = salt" using salt by (simp add: buf_def)
  have len: "length buf = sc_salt_len S k + (2 + sc_tag_len S k) + (n + sc_tag_len S k) + length rest"
    using salt l1 l2 by (simp add: buf_def)
  have u: "unat (u16_from_be_bytes ((u16_to_be_bytes (word_of_nat n) @ x1) ! 0) ((u16_to_be_bytes (word_of_nat n) @ x1) ! 1)) = n"
    using u16_len_fields [OF n] by (simp add: u16_to_be_bytes_eq unat_u16_of_len [OF n])
  have pay: "ss_open_payload S c1 (sc_tag_len S k) buf (sc_salt_len S k + (2 + sc_tag_len S k)) n =
      Inr (Some (addr, sc_salt_len S k + (2 + sc_tag_len S k) + (n + sc_tag_len S k), r))"
    unfolding ss_open_payload_def Let_def s2 d2 using len pa by simp
  have "decrypt_first_payload S buf m p = Inr (Some (addr, sc_salt_len S k + (2 + sc_tag_len S k) + (n + sc_tag_len S k), r))"
    unfolding decrypt_first_payload_def Let_def k option.case t c [symmetric] s1 d1 prod.case u pay
    using k len by simp
  then show ?thesis using salt l1 l2 by (simp add: buf_def)
qed

lemma trojan_build_address_length: "trojan_build_address a = Inr b \<Longrightarrow> length b \<le> 259"
  by (auto simp: trojan_build_address_def Let_def dest: canonical_host_v4 classify_v6_length
      split: host_kind.splits if_splits)

lemma ss_client_packets:
  assumes "ss_crypto_ok S" "sc_parse S (trim m) = Some k" "ss_client_first_chunk S salt m p target tail = Inr b"
  obtains a ct1 c1 ct2 c2 x1 x2 where "sc_is_aead S k" "trojan_build_address target = Inr a"
    "b = salt @ ct1 @ ct2" "length ct1 = 2 + sc_tag_len S k" "length ct2 = length (a @ tail) + sc_tag_len S k"
    "sc_decrypt_packet S (sc_new S k (sc_bytes_to_key S (as_bytes p) (sc_key_len S k)) salt) ct1 =
       (True, u16_to_be_bytes (word_of_nat (length (a @ tail))) @ x1, c1)"
    "sc_decrypt_packet S c1 ct2 = (True, (a @ tail) @ x2, c2)" "length x2 = sc_tag_len S k"
proof -
  define c where "c = sc_new S k (sc_bytes_to_key S (as_bytes p) (sc_key_len S k)) salt"
  have tag: "sc_cipher_tag S c = sc_tag_len S k" unfolding c_def by (rule ss_new_tag [OF assms(1)])
  from assms(2,3) obtain a ct1 c1 ct2 c2 where k: "sc_is_aead S k" and a: "trojan_build_address target = Inr a"
    and b: "b = salt @ ct1 @ ct2"
    and e1: "sc_encrypt_packet S c (u16_to_be_bytes (word_of_nat (length (a @ tail))) @ replicate (sc_tag_len S k) 0) = (ct1, c1)"
    and e2: "sc_encrypt_packet S c1 ((a @ tail) @ replicate (sc_tag_len S k) 0) = (ct2, c2)"
    by (auto simp: ss_client_first_chunk_def Let_def c_def split: if_split_asm sum.split_asm prod.split_asm)
  note s1 = ss_sealed [OF assms(1) e1 [folded tag]]
  have tag1: "sc_cipher_tag S c1 = sc_tag_len S k" using s1(2) tag by simp
  note s2 = ss_sealed [OF assms(1) e2 [folded tag1]]
  from s1(3) s2(3) obtain x1 x2 where "sc_decrypt_packet S c ct1 = (True, u16_to_be_bytes (word_of_nat (length (a @ tail))) @ x1, c1)"
    "sc_decrypt_packet S c1 ct2 = (True, (a @ tail) @ x2, c2)" "length x2 = sc_tag_len S k"
    using tag1 by auto
  with that k a b s1(1) s2(1) tag tag1 show thesis by (auto simp: c_def)
qed

text \<open>
  Shadowsocks first chunk. From the client's first chunk, followed by anything, a server with the
  same method and password reads the client's target in canonical form and exactly the chunk's length.
  The bytes it reads after the address are the client's payload followed by \<open>tag_len\<close> further bytes: the
  packet is opened in place and the room of its tag is not cut off before it is passed on. The payload
  must fit the 16-bit length field.
\<close>
lemma ss_first_chunk_read:
  assumes "ss_crypto_ok S" "sc_parse S (trim m) = Some k" "length salt = sc_salt_len S k" "wf_str (ta_host target)"
    and "length tail \<le> 65276" "ss_client_first_chunk S salt m p target tail = Inr b"
  shows "\<exists>x. length x = sc_tag_len S k \<and>
    ss_tcp_server_handshake S (b @ rest) m p =
      SsReady \<lparr>ta_host = canonical_host (ta_host target), ta_port = ta_port target\<rparr> (length b) (tail @ x)"
proof -
  from ss_client_packets [OF assms(1,2,6)] obtain a ct1 c1 ct2 c2 x1 x2 where k: "sc_is_aead S k"
    and a: "trojan_build_address target = Inr a" and b: "b = salt @ ct1 @ ct2"
    and l: "length ct1 = 2 + sc_tag_len S k" "length ct2 = length (a @ tail) + sc_tag_len S k"
    and d: "sc_decrypt_packet S (sc_new S k (sc_bytes_to_key S (as_bytes p) (sc_key_len S k)) salt) ct1 =
       (True, u16_to_be_bytes (word_of_nat (length (a @ tail))) @ x1, c1)"
      "sc_decrypt_packet S c1 ct2 = (True, (a @ tail) @ x2, c2)" and x2: "length x2 = sc_tag_len S k" .
  from trojan_build_address_length [OF a] assms(5) have n: "length (a @ tail) \<le> 65535" by simp
  from d(2) have d2: "sc_decrypt_packet S c1 ct2 = (True, a @ (tail @ x2), c2)" by simp
  note pa = trojan_address_roundtrip [OF assms(4) a, of "tail @ x2"]
  have "decrypt_first_payload S (b @ rest) m p =
      Inr (Some (\<lparr>ta_host = canonical_host (ta_host target), ta_port = ta_port target\<rparr>, length b, tail @ x2))"
    using decrypt_first_packets [OF assms(2) k assms(3) refl l(1) d(1) n l(2) d2 pa, of rest] by (simp add: b)
  moreover have "sc_salt_len S k + (2 + sc_tag_len S k) \<le> length (b @ rest)" using assms(3) l by (simp add: b)
  ultimately have "ss_tcp_server_handshake S (b @ rest) m p =
      SsReady \<lparr>ta_host = canonical_host (ta_host target), ta_port = ta_port target\<rparr> (length b) (tail @ x2)"
    using assms(2) k by (simp add: ss_tcp_server_handshake_def Let_def)
  with x2 show ?thesis by blast
qed

text \<open>A stand-in cipher for the example: one AEAD kind, the tag is two zero bytes.\<close>

definition plain_ss :: "(unit, unit) ss_crypto" where
  "plain_ss = \<lparr>sc_parse = \<lambda>m. if m = ''plain'' then Some () else None, sc_is_aead = \<lambda>_. True,
     sc_salt_len = \<lambda>_. 4, sc_tag_len = \<lambda>_. 2, sc_key_len = \<lambda>_. 4, sc_bytes_to_key = \<lambda>_ n. replicate n 0,
     sc_new = \<lambda>_ _ _. (), sc_cipher_tag = \<lambda>_. 2, sc_decrypt_packet = \<lambda>c b. (True, b, c),
     sc_encrypt_packet = \<lambda>c b. (b, c)\<rparr>"

end
