(* ===== verification/Wire_Client.thy ===== *)
theory Wire_Client
  imports Wire_Vmess Wire_Socks5 Wire_Shadowsocks
begin

text \<open>
  The client's first tunnel chunk (\<^verbatim>\<open>wire-protocol/src/client.rs\<close>): one builder for the six wire
  modes. The third-party functions of all modes are one record; time and random draws are another.
\<close>

record ('k, 'c) wire_env =
  we_uuid_parse :: "string \<Rightarrow> string + bytes"
  we_sha224 :: "bytes \<Rightarrow> bytes"
  we_vmess :: vmess_crypto
  we_ss :: "('k, 'c) ss_crypto"

record draws =
  dr_unix :: int
  dr_nonce :: bytes
  dr_salt :: bytes

definition host_to_vless_addr :: "string \<Rightarrow> VlessAddress" where
  "host_to_vless_addr host = (case classify_host host of
      HostV4 o4 \<Rightarrow> IpV4 o4
    | HostV6 o16 \<Rightarrow> IpV6 o16
    | HostName \<Rightarrow> Domain host)"

text \<open>The identifier of the VLESS and VMess modes: present, trimmed and parsed.\<close>

definition client_uuid :: "('k, 'c) wire_env \<Rightarrow> WireParams \<Rightarrow> string \<Rightarrow> WireError + bytes" where
  "client_uuid E params missing = (case wp_uuid params of
      None \<Rightarrow> Inl (Protocol missing)
    | Some u \<Rightarrow> (case we_uuid_parse E (trim u) of Inl e \<Rightarrow> Inl (Parse e) | Inr uid \<Rightarrow> Inr uid))"

definition wire_tunnel_first_chunk ::
    "('k, 'c) wire_env \<Rightarrow> draws \<Rightarrow> WireMode \<Rightarrow> WireParams \<Rightarrow> string \<Rightarrow> u16 \<Rightarrow> bytes \<Rightarrow> WireError + bytes" where
  "wire_tunnel_first_chunk E D mode params target_host target_port tail =
    (let addr = host_to_vless_addr target_host;
         ta = \<lparr>ta_host = target_host, ta_port = target_port\<rparr> in
     case mode of
       RawTcpRelay \<Rightarrow> Inr tail
     | Vless \<Rightarrow>
        (case client_uuid E params ''vless uuid'' of
           Inl e \<Rightarrow> Inl e
         | Inr uid \<Rightarrow> Inr (vless_build_request uid target_port addr tail))
     | Trojan \<Rightarrow>
        (case wp_password params of
           None \<Rightarrow> Inl (Protocol ''trojan password'')
         | Some pw \<Rightarrow>
            (case trojan_build_address ta of
               Inl e \<Rightarrow> Inl e
             | Inr a \<Rightarrow> Inr (trojan_auth_line (we_sha224 E) pw @ a @ tail)))
     | Vmess \<Rightarrow>
        (case client_uuid E params ''vmess uuid'' of
           Inl e \<Rightarrow> Inl e
         | Inr uid \<Rightarrow>
            (case vmess_client_header (we_vmess E) (dr_unix D) (dr_nonce D) uid target_port addr of
               Inl e \<Rightarrow> Inl e
             | Inr h \<Rightarrow> Inr (h @ tail)))
     | Shadowsocks \<Rightarrow>
        (case wp_password params of
           None \<Rightarrow> Inl (Protocol ''shadowsocks password'')
         | Some pw \<Rightarrow>
            (case wp_method params of
               None \<Rightarrow> Inl (Protocol ''shadowsocks method'')
             | Some m \<Rightarrow> ss_client_first_chunk (we_ss E) (dr_salt D) m pw ta tail))
     | Socks5 \<Rightarrow>
        (case socks5_build_pipeline_connect target_host target_port of
           Inl e \<Rightarrow> Inl e
         | Inr h \<Rightarrow> Inr (h @ tail)))"

text \<open>The address of a host renders as the canonical form of that host.\<close>

lemma host_to_vless_addr_string: "host_string (host_to_vless_addr h) = canonical_host h"
  by (auto simp: host_to_vless_addr_def canonical_host_def dest: canonical_host_v4 split: host_kind.split)

lemma host_to_vless_addr_ok: "wf_str h \<Longrightarrow> length h \<le> 255 \<Longrightarrow> vless_addr_ok (host_to_vless_addr h)"
  by (auto simp: host_to_vless_addr_def dest: canonical_host_v4 classify_v6_length split: host_kind.split)

end
