(* ===== verification/Json_Value.thy ===== *)
theory Json_Value
  imports Rust_Text
begin

text \<open>
  The value type of \<^verbatim>\<open>serde_json\<close> as the components read it: field access, strings, unsigned and
  signed numbers, booleans and arrays. Parsing JSON text is third-party and is an argument of the
  operations that use it; an object is the list of its fields, of which the parser keeps the last one
  for a repeated key.
\<close>

datatype Json =
    JNull
  | JBool bool
  | JInt int
  | JFloat string
  | JString string
  | JArray "Json list"
  | JObject "(string \<times> Json) list"

fun json_get :: "Json \<Rightarrow> string \<Rightarrow> Json option" where
  "json_get (JObject fs) k = map_of fs k"
| "json_get _ k = None"

fun json_as_str :: "Json \<Rightarrow> string option" where
  "json_as_str (JString s) = Some s"
| "json_as_str _ = None"

text \<open>An integer literal is kept as an unsigned or signed 64-bit number; a larger one is a float.\<close>

fun json_as_u64 :: "Json \<Rightarrow> nat option" where
  "json_as_u64 (JInt i) = (if 0 \<le> i \<and> i < 2 ^ 64 then Some (nat i) else None)"
| "json_as_u64 _ = None"

fun json_as_i64 :: "Json \<Rightarrow> int option" where
  "json_as_i64 (JInt i) = (if i64_range i then Some i else None)"
| "json_as_i64 _ = None"

fun json_as_bool :: "Json \<Rightarrow> bool option" where
  "json_as_bool (JBool b) = Some b"
| "json_as_bool _ = None"

fun json_as_array :: "Json \<Rightarrow> Json list option" where
  "json_as_array (JArray xs) = Some xs"
| "json_as_array _ = None"

text \<open>\<^verbatim>\<open>j.get(k).and_then(|v| v.as_...())\<close>\<close>

definition json_str_field :: "Json \<Rightarrow> string \<Rightarrow> string option" where
  "json_str_field j k = Option.bind (json_get j k) json_as_str"

definition json_u64_field :: "Json \<Rightarrow> string \<Rightarrow> nat option" where
  "json_u64_field j k = Option.bind (json_get j k) json_as_u64"

definition json_i64_field :: "Json \<Rightarrow> string \<Rightarrow> int option" where
  "json_i64_field j k = Option.bind (json_get j k) json_as_i64"

end
