(* ===== verification/Wire_Uri.thy ===== *)
theory Wire_Uri
  imports Wire_Params Json_Value
begin

text \<open>
  Subscription URIs (\<^verbatim>\<open>wire-protocol/src/uri.rs\<close>): \<^verbatim>\<open>vless://\<close>, \<^verbatim>\<open>trojan://\<close> and
  \<^verbatim>\<open>vmess://\<close> links become a wire mode and its parameters. Base64 and JSON decoding are arguments.
  The theory shows what a well-formed link parses to and how a VMess port is read.
\<close>

record ParsedSubscription =
  ps_mode :: WireMode
  ps_params :: WireParams
  ps_remote_host :: string
  ps_remote_port :: u16

definition unbracket :: "string \<Rightarrow> string" where
  "unbracket host = (if starts_with host ''['' \<and> ends_with host '']'' then slice 1 (length host - 1) host else host)"

definition parse_host_port :: "string \<Rightarrow> (string \<times> u16) option" where
  "parse_host_port rest =
    (case rsplit_once CHR '':'' rest of
       None \<Rightarrow> None
     | Some (host, port_s) \<Rightarrow>
        (case parse_u16 port_s of
           None \<Rightarrow> None
         | Some port \<Rightarrow> Some (unbracket host, port)))"

definition path_part :: "string \<Rightarrow> string" where
  "path_part after_at = hd (split_on (\<lambda>c. c = CHR ''?'' \<or> c = CHR ''#'') after_at)"

definition parse_vless :: "string \<Rightarrow> WireError + ParsedSubscription" where
  "parse_vless t =
    (let rest = drop (length ''vless://'') t in
     case split_once CHR ''@'' rest of
       None \<Rightarrow> Inl (Parse ''vless: missing @'')
     | Some (userinfo, after_at) \<Rightarrow>
        (case parse_host_port (path_part after_at) of
           None \<Rightarrow> Inl (Parse ''vless: bad host:port'')
         | Some (host, port) \<Rightarrow>
            Inr \<lparr>ps_mode = Vless, ps_params = wire_params_default\<lparr>wp_uuid := Some (trim userinfo)\<rparr>,
                 ps_remote_host = host, ps_remote_port = port\<rparr>))"

definition parse_trojan :: "string \<Rightarrow> WireError + ParsedSubscription" where
  "parse_trojan t =
    (let rest = drop (length ''trojan://'') t in
     case split_once CHR ''@'' rest of
       None \<Rightarrow> Inl (Parse ''trojan: missing @'')
     | Some (userinfo, after_at) \<Rightarrow>
        (case parse_host_port (path_part after_at) of
           None \<Rightarrow> Inl (Parse ''trojan: bad host:port'')
         | Some (host, port) \<Rightarrow>
            Inr \<lparr>ps_mode = Trojan, ps_params = wire_params_default\<lparr>wp_password := Some (trim userinfo)\<rparr>,
                 ps_remote_host = host, ps_remote_port = port\<rparr>))"

text \<open>\<^verbatim>\<open>trim_start_matches\<close> removes the prefix as often as it occurs.\<close>

function trim_start_matches :: "string \<Rightarrow> string \<Rightarrow> string" where
  "trim_start_matches pat s =
    (if pat \<noteq> [] \<and> starts_with s pat then trim_start_matches pat (drop (length pat) s) else s)"
  by pat_completeness auto
termination
proof (relation "measure (\<lambda>(pat, s). length s)")
  fix pat s :: string
  assume "pat \<noteq> [] \<and> starts_with s pat"
  then have "pat \<noteq> []" "length pat \<le> length s"
    by (auto simp: starts_with_def) (metis length_take min.cobounded1)
  then show "((pat, drop (length pat) s), pat, s) \<in> measure (\<lambda>(pat, s). length s)"
    by (cases s) auto
qed simp

definition vmess_padded :: "string \<Rightarrow> string" where
  "vmess_padded b64 = b64 @ replicate ((4 - length b64 mod 4) mod 4) CHR ''=''"

definition vmess_from_json :: "Json \<Rightarrow> WireError + ParsedSubscription" where
  "vmess_from_json j =
    (let add = (case json_str_field j ''add'' of None \<Rightarrow> [] | Some s \<Rightarrow> s);
         port = word_of_nat (case json_u64_field j ''port'' of None \<Rightarrow> 443 | Some n \<Rightarrow> n);
         id = (case json_str_field j ''id'' of None \<Rightarrow> [] | Some s \<Rightarrow> s) in
     if id = [] then Inl (Parse ''vmess: missing id'')
     else Inr \<lparr>ps_mode = Vmess, ps_params = wire_params_default\<lparr>wp_uuid := Some id\<rparr>,
               ps_remote_host = add, ps_remote_port = port\<rparr>)"

definition parse_vmess ::
    "(string \<Rightarrow> string + bytes) \<Rightarrow> (bytes \<Rightarrow> string + Json) \<Rightarrow> string \<Rightarrow> WireError + ParsedSubscription" where
  "parse_vmess b64_decode json_from_slice t =
    (case b64_decode (vmess_padded (trim_start_matches ''vmess://'' t)) of
       Inl e \<Rightarrow> Inl (Parse (''vmess base64: '' @ e))
     | Inr raw \<Rightarrow>
        (case json_from_slice raw of
           Inl e \<Rightarrow> Inl (Parse (''vmess json: '' @ e))
         | Inr j \<Rightarrow> vmess_from_json j))"

definition parse_subscription_uri ::
    "(string \<Rightarrow> string + bytes) \<Rightarrow> (bytes \<Rightarrow> string + Json) \<Rightarrow> string \<Rightarrow> WireError + ParsedSubscription" where
  "parse_subscription_uri b64_decode json_from_slice uri =
    (let t = trim uri in
     if starts_with t ''vless://'' then parse_vless t
     else if starts_with t ''vmess://'' then parse_vmess b64_decode json_from_slice t
     else if starts_with t ''trojan://'' then parse_trojan t
     else Inl (Parse ''unsupported URI scheme (use vless://, vmess://, trojan://)''))"

section \<open>Properties\<close>

lemma show_nat_not: "\<not> dec_char c \<Longrightarrow> c \<notin> set (show_nat n)"
  using show_nat_digits by blast

lemma show_nat_separators [simp]:
  "CHR '':'' \<notin> set (show_nat n)" "CHR ''?'' \<notin> set (show_nat n)" "CHR ''#'' \<notin> set (show_nat n)"
  by (rule show_nat_not, simp add: dec_char_def digit_val_def)+

lemma parse_host_port_show: "parse_host_port (h @ CHR '':'' # show_nat (unat p)) = Some (unbracket h, p)"
  by (simp add: parse_host_port_def rsplit_once_append)

text \<open>Link text: \<open>scheme://user@host:port\<close> with an optional query or fragment.\<close>

definition link_suffix :: "string \<Rightarrow> bool" where
  "link_suffix s \<longleftrightarrow> s = [] \<or> hd s = CHR ''?'' \<or> hd s = CHR ''#''"

definition link_text :: "string \<Rightarrow> string \<Rightarrow> string \<Rightarrow> u16 \<Rightarrow> string \<Rightarrow> string" where
  "link_text scheme user host port suf =
     scheme @ ''://'' @ user @ CHR ''@'' # host @ CHR '':'' # show_nat (unat port) @ suf"

lemma path_part_link:
  assumes "\<forall>c \<in> set host. c \<noteq> CHR ''?'' \<and> c \<noteq> CHR ''#''" "link_suffix suf"
  shows "path_part (host @ CHR '':'' # show_nat (unat port) @ suf) = host @ CHR '':'' # show_nat (unat port)"
proof -
  let ?a = "host @ CHR '':'' # show_nat (unat port)"
  have a: "\<forall>c \<in> set ?a. \<not> (c = CHR ''?'' \<or> c = CHR ''#'')"
    using assms(1) by (auto dest: show_nat_separators(2,3) [THEN notE])
  show ?thesis
  proof (cases suf)
    case Nil
    then show ?thesis using split_on_single [OF a] by (simp add: path_part_def)
  next
    case (Cons c r)
    with assms(2) have "c = CHR ''?'' \<or> c = CHR ''#''" by (simp add: link_suffix_def)
    from hd_split_on_append [OF a this, of r] show ?thesis by (simp add: path_part_def Cons)
  qed
qed

text \<open>
  Subscription links. A \<^verbatim>\<open>vless://\<close> or \<^verbatim>\<open>trojan://\<close> link whose user part has no at sign and
  whose host has no question mark or hash parses to its mode, its user part without surrounding white
  space as identifier or password, its host without brackets and its port; query and fragment are
  ignored.
\<close>
theorem subscription_link_parsed:
  assumes "CHR ''@'' \<notin> set user" "\<forall>c \<in> set host. c \<noteq> CHR ''?'' \<and> c \<noteq> CHR ''#''" "link_suffix suf"
    and "trim (link_text ''vless'' user host port suf) = link_text ''vless'' user host port suf"
    and "trim (link_text ''trojan'' user host port suf) = link_text ''trojan'' user host port suf"
  shows "parse_subscription_uri b64 js (link_text ''vless'' user host port suf) =
      Inr \<lparr>ps_mode = Vless, ps_params = wire_params_default\<lparr>wp_uuid := Some (trim user)\<rparr>,
           ps_remote_host = unbracket host, ps_remote_port = port\<rparr> \<and>
    parse_subscription_uri b64 js (link_text ''trojan'' user host port suf) =
      Inr \<lparr>ps_mode = Trojan, ps_params = wire_params_default\<lparr>wp_password := Some (trim user)\<rparr>,
           ps_remote_host = unbracket host, ps_remote_port = port\<rparr>"
proof -
  let ?rest = "user @ CHR ''@'' # host @ CHR '':'' # show_nat (unat port) @ suf"
  have s: "split_once CHR ''@'' ?rest = Some (user, host @ CHR '':'' # show_nat (unat port) @ suf)"
    by (rule split_once_append [OF assms(1)])
  note h = path_part_link [OF assms(2,3), of port]
  have "parse_subscription_uri b64 js (link_text ''vless'' user host port suf) = parse_vless (''vless://'' @ ?rest)"
    unfolding parse_subscription_uri_def assms(4) by (simp add: link_text_def starts_with_def)
  moreover have "parse_subscription_uri b64 js (link_text ''trojan'' user host port suf) = parse_trojan (''trojan://'' @ ?rest)"
    unfolding parse_subscription_uri_def assms(5) by (simp add: link_text_def starts_with_def)
  ultimately show ?thesis
    using s h by (simp add: parse_vless_def parse_trojan_def parse_host_port_show)
qed

theorem subscription_link_parsed_witness:
  "parse_subscription_uri Inl (\<lambda>_. Inl []) (link_text ''vless'' ''u'' ''h'' 443 ''#x'') =
      Inr \<lparr>ps_mode = Vless, ps_params = wire_params_default\<lparr>wp_uuid := Some (trim ''u'')\<rparr>,
           ps_remote_host = unbracket ''h'', ps_remote_port = 443\<rparr> \<and>
   parse_subscription_uri Inl (\<lambda>_. Inl []) (link_text ''trojan'' ''u'' ''h'' 443 ''#x'') =
      Inr \<lparr>ps_mode = Trojan, ps_params = wire_params_default\<lparr>wp_password := Some (trim ''u'')\<rparr>,
           ps_remote_host = unbracket ''h'', ps_remote_port = 443\<rparr>"
proof (rule subscription_link_parsed)
  show "trim (link_text ''vless'' ''u'' ''h'' 443 ''#x'') = link_text ''vless'' ''u'' ''h'' 443 ''#x''"
    by (rule trim_solid) (simp_all add: link_text_def solid_char_def)
  show "trim (link_text ''trojan'' ''u'' ''h'' 443 ''#x'') = link_text ''trojan'' ''u'' ''h'' 443 ''#x''"
    by (rule trim_solid) (simp_all add: link_text_def solid_char_def)
qed (simp_all add: link_suffix_def)

text \<open>
  VMess link ports. Only a JSON number is read as the port of a \<^verbatim>\<open>vmess://\<close> link, modulo $2^{16}$;
  a port given as a string is ignored and 443 is used instead.
\<close>
theorem vmess_link_port:
  assumes "vmess_from_json j = Inr p"
  shows "unat (ps_remote_port p) =
    (case json_get j ''port'' of Some (JInt i) \<Rightarrow> if 0 \<le> i \<and> i < 2 ^ 64 then nat i mod 2 ^ 16 else 443 | _ \<Rightarrow> 443)"
  using assms
  by (auto simp: vmess_from_json_def json_u64_field_def Let_def unat_of_nat split: if_splits option.splits Json.splits)

theorem vmess_link_port_witness:
  "unat (ps_remote_port \<lparr>ps_mode = Vmess, ps_params = wire_params_default\<lparr>wp_uuid := Some ''u''\<rparr>,
           ps_remote_host = [], ps_remote_port = 443\<rparr>) =
    (case json_get (JObject [(''id'', JString ''u''), (''port'', JString ''8443'')]) ''port'' of
       Some (JInt i) \<Rightarrow> if 0 \<le> i \<and> i < 2 ^ 64 then nat i mod 2 ^ 16 else 443 | _ \<Rightarrow> 443)"
  by (rule vmess_link_port) (simp add: vmess_from_json_def json_str_field_def json_u64_field_def Let_def)

end
