(* ===== verification/Quic_Frame.thy ===== *)
theory Quic_Frame
  imports Rust_Text
begin

text \<open>
  Binary framing of the QUIC data plane (\<^verbatim>\<open>wire-protocol/src/quic_dataplane.rs\<close>): the stream
  init frame with its encoder, decoder and length predictor, and the acknowledgement. The theory shows
  that the decoder accepts exactly the encoder's images (with trailing bytes), that the length
  predictor agrees with both, and what an error acknowledgement carries.
\<close>

section \<open>Init frame\<close>

definition MAGIC :: bytes where "MAGIC = [0x50, 0x51, 0x44, 0x50]"
definition FRAME_VERSION :: u8 where "FRAME_VERSION = 1"

definition CMD_CONNECT :: u8 where "CMD_CONNECT = 1"
definition CMD_HEALTH_CHECK :: u8 where "CMD_HEALTH_CHECK = 2"

definition ADDR_IPV4 :: u8 where "ADDR_IPV4 = 1"
definition ADDR_DOMAIN :: u8 where "ADDR_DOMAIN = 2"
definition ADDR_IPV6 :: u8 where "ADDR_IPV6 = 3"

record StreamInitFrame =
  fr_command :: u8
  fr_ticket :: bytes
  fr_addr_type :: u8
  fr_addr :: bytes
  fr_port :: u16

datatype QuicDataPlaneError =
    TooShort | BadMagic | UnsupportedVersion u8 | TicketTooLong | InvalidAddress | UnknownCommand u8

fun quic_error_string :: "QuicDataPlaneError \<Rightarrow> string" where
  "quic_error_string TooShort = ''frame too short''"
| "quic_error_string BadMagic = ''bad magic''"
| "quic_error_string (UnsupportedVersion v) = ''unsupported version '' @ show_nat (unat v)"
| "quic_error_string TicketTooLong = ''ticket too long''"
| "quic_error_string InvalidAddress = ''invalid address''"
| "quic_error_string (UnknownCommand c) = ''unknown command '' @ show_nat (unat c)"

definition frame_encode :: "StreamInitFrame \<Rightarrow> QuicDataPlaneError + bytes" where
  "frame_encode f =
    (if 65535 < length (fr_ticket f) then Inl TicketTooLong
     else let tl = (word_of_nat (length (fr_ticket f)) :: u16);
              al = (word_of_nat (length (fr_addr f)) :: u8) in
       if unat al \<noteq> length (fr_addr f) then Inl InvalidAddress
       else Inr (MAGIC @ [FRAME_VERSION] @ u16_to_be_bytes tl @ fr_ticket f
                 @ [fr_command f, fr_addr_type f, al] @ fr_addr f @ u16_to_be_bytes (fr_port f)))"

definition frame_wire_len :: "bytes \<Rightarrow> nat option" where
  "frame_wire_len buf =
    (if length buf < 7 then None
     else if slice 0 4 buf \<noteq> MAGIC then None
     else let base = 7 + unat (u16_from_be_bytes (buf ! 5) (buf ! 6)) in
       if length buf < base + 3 then None
       else Some (base + 3 + unat (buf ! (base + 2)) + 2))"

definition frame_decode :: "bytes \<Rightarrow> QuicDataPlaneError + StreamInitFrame" where
  "frame_decode buf =
    (if length buf < 4 + 1 + 2 then Inl TooShort
     else if slice 0 4 buf \<noteq> MAGIC then Inl BadMagic
     else if buf ! 4 \<noteq> FRAME_VERSION then Inl (UnsupportedVersion (buf ! 4))
     else let tl = unat (u16_from_be_bytes (buf ! 5) (buf ! 6)) in
       if length buf < 7 + tl + 1 + 1 + 1 + 2 then Inl TooShort
       else let i = 7 + tl; addr_len = unat (buf ! (i + 2)) in
         if length buf < i + 3 + addr_len + 2 then Inl TooShort
         else Inr \<lparr>fr_command = buf ! i, fr_ticket = slice 7 i buf, fr_addr_type = buf ! (i + 1),
                   fr_addr = slice (i + 3) (i + 3 + addr_len) buf,
                   fr_port = u16_from_be_bytes (buf ! (i + 3 + addr_len)) (buf ! (i + 3 + addr_len + 1))\<rparr>)"

section \<open>Acknowledgement\<close>

definition ACK_OK :: u8 where "ACK_OK = 0"
definition ACK_ERR :: u8 where "ACK_ERR = 1"

definition encode_ack :: "bool \<Rightarrow> string option \<Rightarrow> bytes" where
  "encode_ack ok err_msg =
    (if ok then [ACK_OK]
     else let msg = as_bytes (case err_msg of None \<Rightarrow> ''error'' | Some m \<Rightarrow> m);
              len = (word_of_nat (min (length msg) 65535) :: u16) in
       [ACK_ERR] @ u16_to_be_bytes len @ take (unat len) msg)"

datatype AckError = AckShort | AckUpstream string

definition decode_ack :: "bytes \<Rightarrow> AckError + unit" where
  "decode_ack buf =
    (if buf = [] then Inl AckShort
     else if buf ! 0 = ACK_OK then Inr ()
     else if buf ! 0 = ACK_ERR then
       (if length buf < 3 then Inl AckShort
        else let len = unat (u16_from_be_bytes (buf ! 1) (buf ! 2)) in
          Inl (AckUpstream (from_utf8_lossy (slice 3 (3 + min len (length buf - 3)) buf))))
     else Inl (AckUpstream ''bad ack byte''))"

section \<open>The frame as a list\<close>

lemma length_MAGIC [simp]: "length MAGIC = 4"
  by (simp add: MAGIC_def)

text \<open>The layout of an encoded frame, over the two length fields.\<close>

definition frame_layout :: "StreamInitFrame \<Rightarrow> bytes" where
  "frame_layout f =
    MAGIC @ FRAME_VERSION # u16_to_be_bytes (word_of_nat (length (fr_ticket f))) @ fr_ticket f
      @ fr_command f # fr_addr_type f # word_of_nat (length (fr_addr f)) # fr_addr f @ u16_to_be_bytes (fr_port f)"

definition frame_fits :: "StreamInitFrame \<Rightarrow> bool" where
  "frame_fits f \<longleftrightarrow> length (fr_ticket f) \<le> 65535 \<and> length (fr_addr f) \<le> 255"

lemma u8_fits: "unat (word_of_nat n :: u8) = n \<longleftrightarrow> n \<le> 255"
  using unat_u8_of_nat [of n] u8_less [of "word_of_nat n"] by auto

lemma frame_encode_eq:
  "frame_encode f = (if 65535 < length (fr_ticket f) then Inl TicketTooLong
     else if 255 < length (fr_addr f) then Inl InvalidAddress else Inr (frame_layout f))"
  by (auto simp: frame_encode_def Let_def u8_fits frame_layout_def)

lemma frame_encode_Inr: "frame_encode f = Inr b \<longleftrightarrow> frame_fits f \<and> b = frame_layout f"
  by (auto simp: frame_encode_eq frame_fits_def)

text \<open>Decoding a buffer cut at the frame's field boundaries.\<close>

definition frame_raw :: "bytes \<Rightarrow> u8 \<Rightarrow> u8 \<Rightarrow> u8 \<Rightarrow> bytes \<Rightarrow> u8 \<Rightarrow> u8 \<Rightarrow> u8 \<Rightarrow> bytes \<Rightarrow> u8 \<Rightarrow> u8 \<Rightarrow> bytes \<Rightarrow> bytes"
  where "frame_raw mg v a b tk c t l ad p q rest = mg @ [v, a, b] @ tk @ [c, t, l] @ ad @ [p, q] @ rest"

lemma frame_raw_fields:
  fixes v c t p q :: u8 and rest :: bytes
  assumes "length mg = 4" "length tk = unat (u16_from_be_bytes a b)" "length ad = unat l"
  defines "buf \<equiv> frame_raw mg v a b tk c t l ad p q rest"
  shows "slice 0 4 buf = mg" "buf ! 4 = v" "buf ! 5 = a" "buf ! 6 = b" "slice 7 (7 + length tk) buf = tk"
    "buf ! (7 + length tk) = c" "buf ! (8 + length tk) = t" "buf ! (9 + length tk) = l"
    "slice (10 + length tk) (10 + length tk + length ad) buf = ad"
    "buf ! (10 + length tk + length ad) = p" "buf ! (11 + length tk + length ad) = q"
    "length buf = 12 + length tk + length ad + length rest"
proof -
  note d = buf_def frame_raw_def
  show "slice 0 4 buf = mg" using assms(1) by (simp add: d slice_def)
  show "buf ! 4 = v" "buf ! 5 = a" "buf ! 6 = b"
    using assms(1) by (simp_all add: d nth_append)
  show "slice 7 (7 + length tk) buf = tk" using assms(1) by (simp add: d slice_def)
  show "buf ! (7 + length tk) = c"
    using nth_at [of "mg @ [v, a, b] @ tk" "7 + length tk"] assms(1) by (simp add: d)
  show "buf ! (8 + length tk) = t"
    using nth_at [of "mg @ [v, a, b] @ tk @ [c]" "8 + length tk"] assms(1) by (simp add: d)
  show "buf ! (9 + length tk) = l"
    using nth_at [of "mg @ [v, a, b] @ tk @ [c, t]" "9 + length tk"] assms(1) by (simp add: d)
  show "slice (10 + length tk) (10 + length tk + length ad) buf = ad"
    using slice_mid [of "mg @ [v, a, b] @ tk @ [c, t, l]" "10 + length tk" ad] assms(1) by (simp add: d)
  show "buf ! (10 + length tk + length ad) = p"
    using nth_at [of "mg @ [v, a, b] @ tk @ [c, t, l] @ ad" "10 + length tk + length ad"] assms(1) by (simp add: d)
  show "buf ! (11 + length tk + length ad) = q"
    using nth_at [of "mg @ [v, a, b] @ tk @ [c, t, l] @ ad @ [p]" "11 + length tk + length ad"] assms(1)
    by (simp add: d)
  show "length buf = 12 + length tk + length ad + length rest" using assms(1) by (simp add: d)
qed

lemma frame_raw_decode:
  assumes "length mg = 4" "length tk = unat (u16_from_be_bytes a b)" "length ad = unat l"
  shows "frame_decode (frame_raw mg v a b tk c t l ad p q rest) =
     (if mg \<noteq> MAGIC then Inl BadMagic else if v \<noteq> FRAME_VERSION then Inl (UnsupportedVersion v)
      else Inr \<lparr>fr_command = c, fr_ticket = tk, fr_addr_type = t, fr_addr = ad, fr_port = u16_from_be_bytes p q\<rparr>)"
    and "frame_wire_len (frame_raw mg v a b tk c t l ad p q rest) =
     (if mg = MAGIC then Some (12 + length tk + length ad) else None)"
proof -
  define buf where "buf = frame_raw mg v a b tk c t l ad p q rest"
  note f = frame_raw_fields [OF assms, of v c t p q rest, folded buf_def]
  show "frame_decode buf = (if mg \<noteq> MAGIC then Inl BadMagic
      else if v \<noteq> FRAME_VERSION then Inl (UnsupportedVersion v)
      else Inr \<lparr>fr_command = c, fr_ticket = tk, fr_addr_type = t, fr_addr = ad, fr_port = u16_from_be_bytes p q\<rparr>)"
    by (simp add: frame_decode_def f f [unfolded add.assoc slice_0] Let_def flip: assms(2,3))
  show "frame_wire_len buf = (if mg = MAGIC then Some (12 + length tk + length ad) else None)"
    by (simp add: frame_wire_len_def f f [unfolded add.assoc slice_0] Let_def flip: assms(2,3))
qed

lemma frame_layout_raw:
  "frame_layout f @ rest = frame_raw MAGIC FRAME_VERSION (word_of_nat (unat (word_of_nat (length (fr_ticket f)) :: u16) div 256))
     (ucast (word_of_nat (length (fr_ticket f)) :: u16)) (fr_ticket f) (fr_command f) (fr_addr_type f)
     (word_of_nat (length (fr_addr f))) (fr_addr f) (word_of_nat (unat (fr_port f) div 256)) (ucast (fr_port f)) rest"
  by (simp add: frame_layout_def frame_raw_def u16_to_be_bytes_eq)

lemma frame_layout_decode:
  assumes "frame_fits f"
  shows "frame_decode (frame_layout f @ rest) = Inr f"
    and "frame_wire_len (frame_layout f @ rest) = Some (length (frame_layout f))"
proof -
  have t: "length (fr_ticket f) \<le> 65535" and l: "length (fr_addr f) = unat (word_of_nat (length (fr_addr f)) :: u8)"
    using assms u8_fits [of "length (fr_addr f)"] by (simp_all add: frame_fits_def)
  note d = frame_raw_decode [OF length_MAGIC u16_len_fields [OF t, symmetric] l]
  show "frame_decode (frame_layout f @ rest) = Inr f"
    unfolding frame_layout_raw unat_u16_of_len [OF t] d by simp
  show "frame_wire_len (frame_layout f @ rest) = Some (length (frame_layout f))"
    unfolding frame_layout_raw unat_u16_of_len [OF t] d by (simp add: frame_layout_def)
qed

text \<open>A decodable buffer splits at the field boundaries.\<close>

lemma frame_decode_split:
  assumes "frame_decode buf = Inr f"
  obtains a b tk c t l ad p q rest where "buf = frame_raw MAGIC FRAME_VERSION a b tk c t l ad p q rest"
    "length tk = unat (u16_from_be_bytes a b)" "length ad = unat l"
proof -
  let ?tl = "unat (u16_from_be_bytes (buf ! 5) (buf ! 6))"
  from assms have len: "12 + ?tl + unat (buf ! (9 + ?tl)) \<le> length buf"
    and m: "take 4 buf = MAGIC" and v: "buf ! 4 = FRAME_VERSION"
    by (auto simp: frame_decode_def Let_def add_ac split: if_split_asm)
  obtain a b r1 where r1: "buf = MAGIC @ [FRAME_VERSION, a, b] @ r1"
  proof -
    obtain h r where h: "buf = h @ r" "length h = 7" using split_at [of 7 buf] len by auto
    then have "take 4 h = MAGIC" "h ! 4 = FRAME_VERSION" using m v by (auto simp: nth_append)
    moreover have "h = take 4 h @ [h ! 4, h ! 5, h ! 6]"
      using h(2) by (auto simp: numeral_eq_Suc length_Suc_conv)
    ultimately have "buf = MAGIC @ [FRAME_VERSION, h ! 5, h ! 6] @ r" using h(1) by simp
    then show thesis by (rule that)
  qed
  then have ab: "buf ! 5 = a" "buf ! 6 = b" by (simp_all add: nth_append)
  with len r1 obtain tk r2 where r2: "r1 = tk @ r2" and tk: "length tk = unat (u16_from_be_bytes a b)"
    using split_at [of "unat (u16_from_be_bytes a b)" r1] by auto
  from len r1 r2 tk ab obtain c t l r3 where r3: "r2 = c # t # l # r3"
    by (cases r2; cases "tl r2"; cases "tl (tl r2)") auto
  have "buf ! (9 + ?tl) = l"
    using nth_at [of "MAGIC @ [FRAME_VERSION, a, b] @ tk @ [c, t]" "9 + length tk" l r3] r1 r2 r3 tk ab by simp
  with len r1 r2 r3 tk ab obtain ad r4 where r4: "r3 = ad @ r4" and ad: "length ad = unat l"
    using split_at [of "unat l" r3] by auto
  from len r1 r2 r3 r4 tk ad ab \<open>buf ! (9 + ?tl) = l\<close> obtain p q rest where "r4 = p # q # rest"
    by (cases r4; cases "tl r4") auto
  with r1 r2 r3 r4 tk ad show thesis by (intro that) (auto simp: frame_raw_def)
qed

lemma frame_raw_encode:
  fixes c t p q :: u8
  assumes "length tk = unat (u16_from_be_bytes a b)" "length ad = unat l"
  defines "f \<equiv> \<lparr>fr_command = c, fr_ticket = tk, fr_addr_type = t, fr_addr = ad, fr_port = u16_from_be_bytes p q\<rparr>"
  shows "frame_fits f" "frame_raw MAGIC FRAME_VERSION a b tk c t l ad p q rest = frame_layout f @ rest"
  using assms(1,2) u16_less [of "u16_from_be_bytes a b"] u8_less [of l]
  by (simp_all add: f_def frame_fits_def frame_layout_def frame_raw_def)

section \<open>Properties\<close>

text \<open>
  C34: The init-frame codec is exact. The decoder returns a frame precisely on the byte strings that
  start with the encoding of that frame, so every frame survives the wire and no second encoding of a
  frame is accepted.
\<close>
theorem frame_codec_exact:
  "frame_decode buf = Inr f \<longleftrightarrow> (\<exists>b rest. frame_encode f = Inr b \<and> buf = b @ rest)"
proof
  assume d: "frame_decode buf = Inr f"
  from d obtain a b tk c t l ad p q rest where buf: "buf = frame_raw MAGIC FRAME_VERSION a b tk c t l ad p q rest"
    and len: "length tk = unat (u16_from_be_bytes a b)" "length ad = unat l"
    by (rule frame_decode_split)
  with d have "f = \<lparr>fr_command = c, fr_ticket = tk, fr_addr_type = t, fr_addr = ad, fr_port = u16_from_be_bytes p q\<rparr>"
    by (simp add: frame_raw_decode)
  with frame_raw_encode [OF len] buf show "\<exists>b rest. frame_encode f = Inr b \<and> buf = b @ rest"
    by (auto simp: frame_encode_Inr)
next
  assume "\<exists>b rest. frame_encode f = Inr b \<and> buf = b @ rest"
  then show "frame_decode buf = Inr f"
    by (auto simp: frame_encode_Inr frame_layout_decode)
qed

lemma frame_wire_len_encode: "frame_encode f = Inr b \<Longrightarrow> frame_wire_len (b @ rest) = Some (length b)"
  by (auto simp: frame_encode_Inr frame_layout_decode)

lemma frame_wire_len_mono:
  assumes "frame_wire_len buf = Some n"
  shows "frame_wire_len (buf @ ys) = Some n"
  using assms by (auto simp: frame_wire_len_def Let_def slice_simps split: if_split_asm)

text \<open>
  The acknowledgement. A positive acknowledgement decodes to success; a negative one decodes to an
  upstream error that carries the message, up to the first 65535 bytes, and the text ``error'' when the
  server gave none.
\<close>
theorem ack_roundtrip:
  "decode_ack (encode_ack ok msg) =
     (if ok then Inr ()
      else Inl (AckUpstream (from_utf8_lossy (take 65535 (as_bytes (case msg of None \<Rightarrow> ''error'' | Some m \<Rightarrow> m))))))"
proof -
  define m where "m = as_bytes (case msg of None \<Rightarrow> ''error'' | Some m \<Rightarrow> m)"
  define n where "n = min (length m) 65535"
  have n: "unat (word_of_nat n :: u16) = n" "n \<le> 65535" by (auto simp: n_def intro: unat_u16_of_len)
  have "take n m = take 65535 m" by (simp add: n_def min_def)
  moreover have "length (take n m) = n" by (simp add: n_def)
  ultimately show ?thesis
    using n by (simp add: decode_ack_def encode_ack_def Let_def ACK_OK_def ACK_ERR_def u16_to_be_bytes_eq
        u16_len_fields slice_def min_absorb1 flip: m_def n_def)
qed

end
