(* ===== verification/Deploy_Auth.thy ===== *)
theory Deploy_Auth
  imports Replay_Iface Rust_Map Net_Addr "HOL-Library.Char_ord" "HOL-Library.List_Lexorder"
begin

text \<open>
  Request authentication (\<^verbatim>\<open>deploy-auth/src/lib.rs\<close>, \<^verbatim>\<open>nonce.rs\<close>): canonical messages, signing payloads,
  the metadata a client attaches, the nonce tracker and the server's verification. Base64, Ed25519 and the
  rule for metadata values are third-party and collected in \<open>auth_crypto\<close>; \<open>auth_crypto_ok\<close> states what they
  promise. Metadata is the map of the values readable as text. Clocks and random numbers are arguments. The
  theory shows that a nonce that was accepted is refused while the tracker keeps it, whatever the request; what an
  accepted request proves is in \<open>Auth_Trust\<close>.
\<close>

section \<open>Third-party functions\<close>

record auth_crypto =
  ac_b64_decode :: "string \<Rightarrow> string + bytes"
  ac_b64_encode :: "bytes \<Rightarrow> string"
  ac_b64u_decode :: "string \<Rightarrow> string + bytes"
  ac_b64u_encode :: "bytes \<Rightarrow> string"
  ac_key_valid :: "bytes \<Rightarrow> bool"
  ac_public :: "bytes \<Rightarrow> bytes"
  ac_sign :: "bytes \<Rightarrow> bytes \<Rightarrow> bytes"
  ac_verify :: "bytes \<Rightarrow> bytes \<Rightarrow> bytes \<Rightarrow> bool"
  ac_value_ok :: "string \<Rightarrow> bool"
  ac_value_text :: "string \<Rightarrow> bool"

text \<open>
  Base64 text decodes to what was encoded, has no white space and is empty only for no bytes; public keys and signatures have their
  lengths; a signature of a key verifies under its public key; Base64 text and printable ASCII can be stored
  as metadata and read back as text.
\<close>

definition printable :: "string \<Rightarrow> bool" where
  "printable s = list_all (\<lambda>c. 32 \<le> (of_char c :: nat) \<and> (of_char c :: nat) < 127) s"

definition auth_crypto_ok :: "auth_crypto \<Rightarrow> bool" where
  "auth_crypto_ok A \<longleftrightarrow>
     (\<forall>b. ac_b64_decode A (ac_b64_encode A b) = Inr b \<and> ac_b64u_decode A (ac_b64u_encode A b) = Inr b) \<and>
     (\<forall>b. list_all solid_char (ac_b64_encode A b) \<and> list_all solid_char (ac_b64u_encode A b)) \<and>
     (\<forall>b. b \<noteq> [] \<longrightarrow> ac_b64_encode A b \<noteq> [] \<and> ac_b64u_encode A b \<noteq> []) \<and>
     (\<forall>b. printable (ac_b64_encode A b) \<and> printable (ac_b64u_encode A b)) \<and>
     (\<forall>sk. length (ac_public A sk) = 32 \<and> ac_key_valid A (ac_public A sk)) \<and>
     (\<forall>sk m. length (ac_sign A sk m) = 64 \<and> ac_verify A (ac_public A sk) m (ac_sign A sk m)) \<and>
     (\<forall>s. printable s \<longrightarrow> ac_value_ok A s \<and> ac_value_text A s)"

section \<open>Errors and names\<close>

datatype AuthError =
    InvalidBase64 string
  | InvalidKeyLength
  | BadSignature
  | UnknownPeer
  | MissingMetadata string
  | InvalidMetadata string
  | TimestampSkew
  | ReplayNonce
  | PairingCode
  | Io string
  | Json string

definition PAIR_CLIENT_MSG :: string where "PAIR_CLIENT_MSG = ''v1|PAIR''"
definition PAIR_SERVER_MSG :: string where "PAIR_SERVER_MSG = ''v1|PAIR_RESP''"
definition META_PUBKEY :: string where "META_PUBKEY = ''x-deploy-pubkey''"
definition META_TS :: string where "META_TS = ''x-deploy-ts''"
definition META_NONCE :: string where "META_NONCE = ''x-deploy-nonce''"
definition META_SIG :: string where "META_SIG = ''x-deploy-sig''"
definition META_VERSION :: string where "META_VERSION = ''x-deploy-version''"
definition META_STACK_APPLY_SHA256 :: string where "META_STACK_APPLY_SHA256 = ''x-deploy-stack-apply-sha256''"
definition META_PROJECT :: string where "META_PROJECT = ''x-deploy-project''"

lemmas meta_names = META_PUBKEY_def META_TS_def META_NONCE_def META_SIG_def META_VERSION_def
  META_STACK_APPLY_SHA256_def META_PROJECT_def

type_synonym metadata = "(string, string) hmap"

section \<open>Nonce tracker\<close>

definition WINDOW_MS :: int where "WINDOW_MS = 600000"
definition MAX_ENTRIES :: nat where "MAX_ENTRIES = 50000"

type_synonym NonceTracker = "(string, int) hmap"

definition nonce_check_and_insert :: "NonceTracker \<Rightarrow> int \<Rightarrow> string \<Rightarrow> (AuthError + unit) \<times> NonceTracker" where
  "nonce_check_and_insert m ts_ms nonce =
    (if nonce = [] \<or> 128 < length nonce then (Inl (InvalidMetadata ''nonce''), m)
     else let m1 = hm_retain (\<lambda>_ t. i64_abs (i64_sub ts_ms t) \<le> WINDOW_MS) m;
              m2 = (if MAX_ENTRIES \<le> hm_len m1 then [] else m1) in
       if hm_contains m2 nonce then (Inl ReplayNonce, m2)
       else (Inr (), hm_insert nonce ts_ms m2))"

section \<open>Keys, signatures and canonical messages\<close>

definition parse_verifying_key_b64 :: "auth_crypto \<Rightarrow> string \<Rightarrow> AuthError + bytes" where
  "parse_verifying_key_b64 A b64 = (case ac_b64u_decode A (trim b64) of
      Inl e \<Rightarrow> Inl (InvalidBase64 e)
    | Inr raw \<Rightarrow> if length raw \<noteq> 32 then Inl InvalidKeyLength
                 else if \<not> ac_key_valid A raw then Inl InvalidKeyLength else Inr raw)"

definition to_signing_key :: "auth_crypto \<Rightarrow> string \<Rightarrow> AuthError + bytes" where
  "to_signing_key A private_key_b64 = (case ac_b64_decode A (trim private_key_b64) of
      Inl e \<Rightarrow> Inl (InvalidBase64 e)
    | Inr raw \<Rightarrow> if length raw \<noteq> 32 then Inl InvalidKeyLength else Inr raw)"

definition pubkey_b64_url :: "auth_crypto \<Rightarrow> bytes \<Rightarrow> string" where
  "pubkey_b64_url A sk = ac_b64u_encode A (ac_public A sk)"

definition sign_bytes :: "auth_crypto \<Rightarrow> bytes \<Rightarrow> bytes \<Rightarrow> string" where
  "sign_bytes A sk msg = ac_b64_encode A (ac_sign A sk msg)"

definition verify_sig :: "auth_crypto \<Rightarrow> bytes \<Rightarrow> bytes \<Rightarrow> string \<Rightarrow> AuthError + unit" where
  "verify_sig A vk msg sig_b64 = (case ac_b64_decode A (trim sig_b64) of
      Inl e \<Rightarrow> Inl (InvalidBase64 e)
    | Inr raw \<Rightarrow> if length raw \<noteq> 64 then Inl BadSignature
                 else if ac_verify A vk msg raw then Inr () else Inl BadSignature)"

definition rpc_canonical :: "string \<Rightarrow> int \<Rightarrow> string \<Rightarrow> string \<Rightarrow> bytes" where
  "rpc_canonical meth ts_ms nonce payload =
     as_bytes (''v1|'' @ meth @ ''|'' @ show_int ts_ms @ ''|'' @ nonce @ ''|'' @ payload)"

definition pair_request_canonical :: "string \<Rightarrow> string \<Rightarrow> int \<Rightarrow> string \<Rightarrow> string \<Rightarrow> bytes" where
  "pair_request_canonical client_pubkey_b64 server_pubkey_b64 ts_ms nonce pairing_code =
     as_bytes (PAIR_CLIENT_MSG @ ''|'' @ client_pubkey_b64 @ ''|'' @ server_pubkey_b64 @ ''|'' @ show_int ts_ms
       @ ''|'' @ nonce @ ''|'' @ pairing_code)"

definition pair_response_canonical :: "string \<Rightarrow> string \<Rightarrow> int \<Rightarrow> string \<Rightarrow> bytes" where
  "pair_response_canonical server_pubkey_b64 client_pubkey_b64 ts_ms nonce =
     as_bytes (PAIR_SERVER_MSG @ ''|'' @ server_pubkey_b64 @ ''|'' @ client_pubkey_b64 @ ''|'' @ show_int ts_ms @ ''|'' @ nonce)"

definition verify_pair_response ::
    "auth_crypto \<Rightarrow> string \<Rightarrow> string \<Rightarrow> int \<Rightarrow> string \<Rightarrow> string \<Rightarrow> AuthError + unit" where
  "verify_pair_response A server_pubkey client_pubkey ts_ms nonce server_sig =
    (case parse_verifying_key_b64 A server_pubkey of
       Inl e \<Rightarrow> Inl e
     | Inr vk \<Rightarrow> verify_sig A vk (pair_response_canonical server_pubkey client_pubkey ts_ms nonce) server_sig)"

section \<open>Signing payloads\<close>

definition normalize_project_for_signing :: "string \<Rightarrow> string" where
  "normalize_project_for_signing s =
    (let t = trim s in if t = [] \<or> eq_ignore_ascii_case t ''default'' then ''default'' else t)"

definition signing_payload :: "string \<Rightarrow> string \<Rightarrow> string \<Rightarrow> string" where
  "signing_payload meth project_id secondary =
    (let p = normalize_project_for_signing project_id; is_default = (p = ''default'') in
     if meth \<in> {''Upload'', ''UploadServerStack'', ''Rollback''}
     then (if is_default then secondary else p @ ''|'' @ secondary)
     else if meth \<in> {''StackTunTunnel'', ''StackTunRequestBus'', ''StackTunTaskQueue''} then trim secondary
     else if is_default then [] else p)"

definition signing_payload_upload_server_stack :: "string \<Rightarrow> string option \<Rightarrow> string" where
  "signing_payload_upload_server_stack version sha =
    (case map_option trim sha of
       None \<Rightarrow> version
     | Some h \<Rightarrow> if h = [] then version else version @ ''|'' @ h)"

section \<open>Attaching\<close>

text \<open>\<open>format!("{:016x}")\<close> of a random number; the metadata names are valid keys.\<close>

definition hex16 :: "u64 \<Rightarrow> string" where
  "hex16 n = (let h = show_hex (unat n) in replicate (16 - length h) (CHR ''0'') @ h)"

definition insert_ascii :: "auth_crypto \<Rightarrow> string \<Rightarrow> string \<Rightarrow> metadata \<Rightarrow> (AuthError + unit) \<times> metadata" where
  "insert_ascii A key val m =
    (if ac_value_ok A val then (Inr (), hm_insert key val m) else (Inl (InvalidMetadata (key @ '' value'')), m))"

fun insert_each :: "auth_crypto \<Rightarrow> (string \<times> string) list \<Rightarrow> metadata \<Rightarrow> (AuthError + unit) \<times> metadata" where
  "insert_each A [] m = (Inr (), m)"
| "insert_each A ((k, v) # kvs) m = (case insert_ascii A k v m of
      (Inl e, m') \<Rightarrow> (Inl e, m')
    | (Inr _, m') \<Rightarrow> insert_each A kvs m')"

definition auth_entries :: "auth_crypto \<Rightarrow> bytes \<Rightarrow> string \<Rightarrow> string \<Rightarrow> int \<Rightarrow> string \<Rightarrow> (string \<times> string) list" where
  "auth_entries A sk meth payload ts_ms nonce =
    [(META_PUBKEY, pubkey_b64_url A sk), (META_TS, show_int ts_ms), (META_NONCE, nonce),
     (META_SIG, sign_bytes A sk (rpc_canonical meth ts_ms nonce payload))]"

definition attach_auth_metadata ::
    "auth_crypto \<Rightarrow> int \<Rightarrow> u64 \<Rightarrow> bytes \<Rightarrow> string \<Rightarrow> string \<Rightarrow> string \<Rightarrow> metadata \<Rightarrow> (AuthError + unit) \<times> metadata" where
  "attach_auth_metadata A now rnd sk meth project_id secondary m =
    insert_each A (auth_entries A sk meth (signing_payload meth project_id secondary) now (hex16 rnd) @
      (if meth \<in> {''Upload'', ''UploadServerStack''} \<and> secondary \<noteq> []
       then (META_VERSION, secondary) #
            (let p = normalize_project_for_signing project_id in
             if p \<noteq> ''default'' \<and> meth = ''Upload'' then [(META_PROJECT, p)] else [])
       else [])) m"

definition sha_entry :: "string option \<Rightarrow> (string \<times> string) list" where
  "sha_entry sha = (case map_option trim sha of
      None \<Rightarrow> [] | Some h \<Rightarrow> if h = [] then [] else [(META_STACK_APPLY_SHA256, h)])"

definition attach_auth_metadata_upload_server_stack ::
    "auth_crypto \<Rightarrow> int \<Rightarrow> u64 \<Rightarrow> bytes \<Rightarrow> string \<Rightarrow> string option \<Rightarrow> metadata \<Rightarrow> (AuthError + unit) \<times> metadata" where
  "attach_auth_metadata_upload_server_stack A now rnd sk version sha m =
    insert_each A (auth_entries A sk ''UploadServerStack'' (signing_payload_upload_server_stack version sha) now (hex16 rnd)
      @ (META_VERSION, version) # sha_entry sha) m"

definition insert_stack_apply_sha256_metadata ::
    "auth_crypto \<Rightarrow> string option \<Rightarrow> metadata \<Rightarrow> (AuthError + unit) \<times> metadata" where
  "insert_stack_apply_sha256_metadata A sha m = insert_each A (sha_entry sha) m"

section \<open>Verification\<close>

record AuthConfig =
  allow_unauthenticated :: bool
  max_clock_skew_ms :: int

definition AuthConfig_default :: AuthConfig where
  "AuthConfig_default = \<lparr>allow_unauthenticated = False, max_clock_skew_ms = 5 * 60 * 1000\<rparr>"

definition meta_text :: "auth_crypto \<Rightarrow> metadata \<Rightarrow> string \<Rightarrow> string option" where
  "meta_text A m k = (case hm_get m k of
      None \<Rightarrow> None | Some v \<Rightarrow> if ac_value_text A v then Some v else None)"

definition need_text :: "auth_crypto \<Rightarrow> metadata \<Rightarrow> string \<Rightarrow> AuthError + string" where
  "need_text A m k = (case meta_text A m k of None \<Rightarrow> Inl (MissingMetadata k) | Some v \<Rightarrow> Inr v)"

text \<open>The signature check behind the nonce tracker.\<close>

definition verify_peer ::
    "auth_crypto \<Rightarrow> bytes set \<Rightarrow> string \<Rightarrow> bytes \<Rightarrow> string \<Rightarrow> AuthError + unit" where
  "verify_peer A peers pk msg sig = (case parse_verifying_key_b64 A pk of
      Inl e \<Rightarrow> Inl e
    | Inr vk \<Rightarrow> if vk \<notin> peers then Inl UnknownPeer else verify_sig A vk msg sig)"

definition verify_rpc_metadata ::
    "auth_crypto \<Rightarrow> int \<Rightarrow> metadata \<Rightarrow> bytes set \<Rightarrow> string \<Rightarrow> string \<Rightarrow> AuthConfig \<Rightarrow> NonceTracker
       \<Rightarrow> (AuthError + unit) \<times> NonceTracker" where
  "verify_rpc_metadata A now m peers meth payload cfg tr =
    (if allow_unauthenticated cfg then (Inr (), tr)
     else case need_text A m META_PUBKEY of Inl e \<Rightarrow> (Inl e, tr) | Inr pk \<Rightarrow>
     (case need_text A m META_TS of Inl e \<Rightarrow> (Inl e, tr) | Inr ts_s \<Rightarrow>
     (case need_text A m META_NONCE of Inl e \<Rightarrow> (Inl e, tr) | Inr nonce \<Rightarrow>
     (case need_text A m META_SIG of Inl e \<Rightarrow> (Inl e, tr) | Inr sig \<Rightarrow>
     (case parse_i64 ts_s of
        None \<Rightarrow> (Inl (InvalidMetadata ''timestamp''), tr)
      | Some ts_ms \<Rightarrow>
         if max_clock_skew_ms cfg < i64_abs (i64_sub now ts_ms) then (Inl TimestampSkew, tr)
         else case nonce_check_and_insert tr ts_ms nonce of
             (Inl e, tr') \<Rightarrow> (Inl e, tr')
           | (Inr _, tr') \<Rightarrow> (verify_peer A peers pk (rpc_canonical meth ts_ms nonce payload) sig, tr'))))))"

definition verify_upload_metadata ::
    "auth_crypto \<Rightarrow> int \<Rightarrow> metadata \<Rightarrow> bytes set \<Rightarrow> AuthConfig \<Rightarrow> NonceTracker \<Rightarrow> (AuthError + unit) \<times> NonceTracker" where
  "verify_upload_metadata A now m peers cfg tr = (case need_text A m META_VERSION of
      Inl e \<Rightarrow> (Inl e, tr)
    | Inr ver \<Rightarrow>
       let proj = (case meta_text A m META_PROJECT of None \<Rightarrow> ''default'' | Some p \<Rightarrow> p) in
       verify_rpc_metadata A now m peers ''Upload'' (signing_payload ''Upload'' proj ver) cfg tr)"

definition verify_upload_server_stack_metadata ::
    "auth_crypto \<Rightarrow> int \<Rightarrow> metadata \<Rightarrow> bytes set \<Rightarrow> AuthConfig \<Rightarrow> NonceTracker \<Rightarrow> (AuthError + unit) \<times> NonceTracker" where
  "verify_upload_server_stack_metadata A now m peers cfg tr = (case need_text A m META_VERSION of
      Inl e \<Rightarrow> (Inl e, tr)
    | Inr ver \<Rightarrow>
       verify_rpc_metadata A now m peers ''UploadServerStack''
         (signing_payload_upload_server_stack ver (meta_text A m META_STACK_APPLY_SHA256)) cfg tr)"

section \<open>Bundles and peer files\<close>

text \<open>The persisted peers, as the decoded list of keys; the file and its JSON text stay outside.\<close>

fun load_peer_keys :: "auth_crypto \<Rightarrow> string list \<Rightarrow> AuthError + bytes set" where
  "load_peer_keys A [] = Inr {}"
| "load_peer_keys A (p # ps) = (case parse_verifying_key_b64 A p of
      Inl e \<Rightarrow> Inl e
    | Inr vk \<Rightarrow> (case load_peer_keys A ps of Inl e \<Rightarrow> Inl e | Inr out \<Rightarrow> Inr (insert vk out)))"

definition save_peer_keys :: "auth_crypto \<Rightarrow> bytes list \<Rightarrow> string list" where
  "save_peer_keys A keys = sort (map (ac_b64u_encode A) keys)"

section \<open>The nonce tracker as a replay guard\<close>

definition nonce_check :: "NonceTracker \<Rightarrow> int \<Rightarrow> string \<Rightarrow> bool \<times> NonceTracker" where
  "nonce_check m ts_ms nonce = (fst (nonce_check_and_insert m ts_ms nonce) = Inr (), snd (nonce_check_and_insert m ts_ms nonce))"

definition nonce_keeps :: "NonceTracker \<Rightarrow> int \<Rightarrow> int \<Rightarrow> bool" where
  "nonce_keeps m t0 t \<longleftrightarrow> i64_abs (i64_sub t t0) \<le> WINDOW_MS \<and> hm_len m < MAX_ENTRIES"

lemmas nonce_defs = nonce_check_def nonce_check_and_insert_def Let_def

interpretation nonces: replay_guard nonce_check hm_get nonce_keeps hm_ok
proof
  have small: "\<not> MAX_ENTRIES \<le> hm_len (hm_retain P m)" if "hm_len m < MAX_ENTRIES" for P and m :: NonceTracker
    using that hm_len_retain [of P m] by simp
  fix s :: NonceTracker and t t0 :: int and n m :: string
  assume ok: "hm_ok s"
  show "hm_ok (snd (nonce_check s t n))" using ok by (simp add: nonce_defs)
  show "fst (nonce_check s t n) \<Longrightarrow> hm_get (snd (nonce_check s t n)) n = Some t"
    by (auto simp: nonce_defs split: if_split_asm)
  assume e: "hm_get s n = Some t0" and k: "nonce_keeps s t0 t"
  then have r: "hm_get (hm_retain (\<lambda>_ t'. i64_abs (i64_sub t t') \<le> WINDOW_MS) s) n = Some t0"
    using ok by (simp add: nonce_keeps_def)
  show "hm_get (snd (nonce_check s t m)) n = Some t0"
    using r e k small by (auto simp: nonce_defs nonce_keeps_def hm_contains_def)
  show "\<not> fst (nonce_check s t n)"
    using r k small by (auto simp: nonce_defs nonce_keeps_def hm_contains_def)
qed

lemma nonce_len: "hm_len (snd (nonce_check m t n)) \<le> hm_len m + 1"
proof -
  let ?r = "hm_retain (\<lambda>_ t'. i64_abs (i64_sub t t') \<le> WINDOW_MS) m"
  have "hm_len ?r \<le> hm_len m" by (rule hm_len_retain)
  moreover have "hm_len (hm_insert n t m') \<le> hm_len m' + 1" for m' by (rule hm_len_insert_le)
  ultimately show ?thesis
    by (auto simp: nonce_defs hm_len_def intro: order_trans)
qed

lemma nonces_all_keep:
  "\<forall>e \<in> set evs. i64_abs (i64_sub (fst e) t0) \<le> WINDOW_MS \<Longrightarrow> hm_len s + length evs \<le> MAX_ENTRIES \<Longrightarrow>
     all_keep nonce_check nonce_keeps t0 s evs"
proof (induction evs arbitrary: s)
  case (Cons e evs)
  obtain t n where e: "e = (t, n)" by (cases e)
  have "hm_len (snd (nonce_check s t n)) + length evs \<le> MAX_ENTRIES"
    using nonce_len [of s t n] Cons.prems(2) by simp
  with Cons e show ?case by (simp add: nonce_keeps_def)
qed simp

lemma nonces_run_len: "hm_len (snd (guard_run nonce_check s evs)) \<le> hm_len s + length evs"
proof (induction evs arbitrary: s)
  case (Cons e evs)
  obtain t n where e: "e = (t, n)" by (cases e)
  show ?case using Cons.IH [of "snd (nonce_check s t n)"] nonce_len [of s t n] by (simp add: e split_beta)
qed simp

section \<open>Replay protection of the server\<close>

text \<open>Calls that arrive at the server, with its clock at that moment.\<close>

record rpc_call =
  rc_now :: int
  rc_meta :: metadata
  rc_peers :: "bytes set"
  rc_method :: string
  rc_payload :: string

definition call_step :: "auth_crypto \<Rightarrow> AuthConfig \<Rightarrow> rpc_call \<Rightarrow> NonceTracker \<Rightarrow> (AuthError + unit) \<times> NonceTracker" where
  "call_step A cfg c tr =
    verify_rpc_metadata A (rc_now c) (rc_meta c) (rc_peers c) (rc_method c) (rc_payload c) cfg tr"

fun calls_run :: "auth_crypto \<Rightarrow> AuthConfig \<Rightarrow> rpc_call list \<Rightarrow> NonceTracker \<Rightarrow> NonceTracker" where
  "calls_run A cfg [] tr = tr"
| "calls_run A cfg (c # cs) tr = calls_run A cfg cs (snd (call_step A cfg c tr))"

text \<open>The timestamp and nonce with which a call reaches the tracker, if it does.\<close>

definition call_event :: "auth_crypto \<Rightarrow> AuthConfig \<Rightarrow> rpc_call \<Rightarrow> (int \<times> string) option" where
  "call_event A cfg c =
    (if allow_unauthenticated cfg then None
     else case (meta_text A (rc_meta c) META_PUBKEY, meta_text A (rc_meta c) META_TS,
                meta_text A (rc_meta c) META_NONCE, meta_text A (rc_meta c) META_SIG) of
       (Some _, Some ts_s, Some nonce, Some _) \<Rightarrow>
         (case parse_i64 ts_s of
            None \<Rightarrow> None
          | Some t \<Rightarrow> if max_clock_skew_ms cfg < i64_abs (i64_sub (rc_now c) t) then None else Some (t, nonce))
     | _ \<Rightarrow> None)"

lemma call_step_tracker:
  "snd (call_step A cfg c tr) = (case call_event A cfg c of None \<Rightarrow> tr | Some (t, n) \<Rightarrow> snd (nonce_check tr t n))"
  by (auto simp: call_step_def verify_rpc_metadata_def call_event_def need_text_def nonce_check_def
      split: option.split sum.split prod.split)

lemma call_step_accepted:
  assumes "\<not> allow_unauthenticated cfg" "fst (call_step A cfg c tr) = Inr ()"
  obtains t n where "call_event A cfg c = Some (t, n)" "fst (nonce_check tr t n)"
  using assms
  by (auto simp: call_step_def verify_rpc_metadata_def call_event_def need_text_def nonce_check_def
      split: option.split_asm sum.split_asm prod.split_asm if_split_asm)

lemma calls_run_guard:
  "calls_run A cfg cs tr = snd (guard_run nonce_check tr (List.map_filter (call_event A cfg) cs))"
  by (induction cs arbitrary: tr)
     (auto simp: call_step_tracker List.map_filter_simps split_beta split: option.split)

lemma call_event_nonce: "call_event A cfg c = Some (t, n) \<Longrightarrow> hm_get (rc_meta c) META_NONCE = Some n"
  by (auto simp: call_event_def meta_text_def split: option.split_asm if_split_asm)

lemma call_event_fields:
  assumes "call_event A cfg c = Some (t, n)" "hm_get (rc_meta c) META_TS = Some ts" "parse_i64 ts = Some t0"
  shows "t = t0" "hm_get (rc_meta c) META_NONCE = Some n"
  using assms by (auto simp: call_event_def meta_text_def split: option.split_asm if_split_asm)

lemma parse_i64_range: "parse_i64 s = Some t \<Longrightarrow> i64_range t"
  by (auto simp: parse_i64_def i64_range_def i64_min_def i64_max_def parse_unsigned_def Let_def
      split: list.split_asm option.split_asm if_split_asm)

lemma call_event_window:
  assumes "call_event A cfg c = Some (t, n)" "0 \<le> rc_now c" "rc_now c < 2 ^ 62" "max_clock_skew_ms cfg \<le> 300000"
    and "rc_now c - t \<noteq> 2 ^ 63"
  shows "\<bar>rc_now c - t\<bar> \<le> 300000"
proof -
  have "i64_abs (i64_sub (rc_now c) t) \<le> 300000" "i64_range t"
    using assms(1,4) by (auto simp: call_event_def parse_i64_range split: option.split_asm if_split_asm)
  from i64_abs_window [OF this assms(2,3)] assms(5) show ?thesis by simp
qed

definition true_clock :: "auth_crypto \<Rightarrow> AuthConfig \<Rightarrow> rpc_call \<Rightarrow> bool" where
  "true_clock A cfg d = (case call_event A cfg d of None \<Rightarrow> True | Some (t, _) \<Rightarrow> rc_now d - t \<noteq> 2 ^ 63)"

lemma keeps_far: "\<bar>a - b\<bar> \<le> 600000 \<Longrightarrow> i64_abs (i64_sub a b) \<le> WINDOW_MS"
  by (simp add: i64_abs_diff i64_max_def WINDOW_MS_def)

lemma replay_window:
  assumes sorted: "sorted (map rc_now (c # cs @ [c']))" and t: "0 \<le> rc_now c" "rc_now c' < 2 ^ 62"
    and skew: "max_clock_skew_ms cfg \<le> 300000"
    and plain: "list_all (true_clock A cfg) (c # cs @ [c'])"
    and first: "call_event A cfg c = Some (t0, n0)" and near: "rc_now c' \<le> t0 + 300000"
    and d: "d \<in> set (cs @ [c'])" "call_event A cfg d = Some (t, n)"
  shows "i64_abs (i64_sub t t0) \<le> WINDOW_MS"
proof -
  have b: "rc_now c \<le> rc_now d" "rc_now d \<le> rc_now c'"
    using sorted d(1) by (auto simp: sorted_append)
  have w: "\<bar>rc_now e - s\<bar> \<le> 300000"
    if "e \<in> set (c # cs @ [c'])" "call_event A cfg e = Some (s, k)" "rc_now c \<le> rc_now e" "rc_now e \<le> rc_now c'" for e s k
    using call_event_window [OF that(2)] that t skew plain by (auto simp: list_all_iff true_clock_def)
  have "\<bar>rc_now c - t0\<bar> \<le> 300000" "\<bar>rc_now d - t\<bar> \<le> 300000"
    using w [OF _ first] w [OF _ d(2)] d(1) b by auto
  with b near show ?thesis by (intro keeps_far) linarith
qed

text \<open>
  C6: A nonce is accepted once. When the server, with the standard clock skew, has accepted a request, every later
  request with the same nonce is refused, whatever its timestamp, method, key and signature, as long as the
  server's clock is within the skew of the accepted timestamp; with the accepted timestamp it is refused at any
  time. Requests of any kind may come between. The server's clock must not run backwards, fewer than 50,000
  requests be in the tracker, and no request carry the one timestamp, exactly $2^{63}$ before the clock, that the
  wrapping comparison lets through.
\<close>

theorem rpc_replay_rejected:
  assumes cfg: "\<not> allow_unauthenticated cfg" "max_clock_skew_ms cfg \<le> 300000"
    and tr: "hm_ok tr" "hm_len tr + length cs + 1 < MAX_ENTRIES"
    and accepted: "fst (call_step A cfg c tr) = Inr ()"
    and stamp: "hm_get (rc_meta c) META_TS = Some ts" "parse_i64 ts = Some t0"
    and same: "hm_get (rc_meta c') META_NONCE = hm_get (rc_meta c) META_NONCE"
    and near: "rc_now c' \<le> t0 + 300000 \<or> hm_get (rc_meta c') META_TS = Some ts"
    and clock: "sorted (map rc_now (c # cs @ [c']))" "0 \<le> rc_now c" "rc_now c' < 2 ^ 62"
    and plain: "list_all (true_clock A cfg) (c # cs @ [c'])"
  shows "fst (call_step A cfg c' (calls_run A cfg cs (snd (call_step A cfg c tr)))) \<noteq> Inr ()"
proof
  let ?s = "snd (call_step A cfg c tr)" and ?evs = "List.map_filter (call_event A cfg) cs"
  obtain t1 n where "call_event A cfg c = Some (t1, n)" and ok1: "fst (nonce_check tr t1 n)"
    by (rule call_step_accepted [OF cfg(1) accepted])
  with call_event_fields [OF this(1) stamp] have ev: "call_event A cfg c = Some (t0, n)" and ok: "fst (nonce_check tr t0 n)"
    and n: "hm_get (rc_meta c) META_NONCE = Some n" by simp_all
  have s: "?s = snd (nonce_check tr t0 n)" by (simp add: call_step_tracker ev)
  assume "fst (call_step A cfg c' (calls_run A cfg cs ?s)) = Inr ()"
  then obtain t' n' where ev': "call_event A cfg c' = Some (t', n')" and ok': "fst (nonce_check (calls_run A cfg cs ?s) t' n')"
    by (rule call_step_accepted [OF cfg(1)])
  have n': "n' = n" using call_event_nonce [OF ev'] same n by simp
  have late: "rc_now c' \<le> t0 + 300000"
  proof (cases "hm_get (rc_meta c') META_TS = Some ts")
    case True
    have "\<bar>rc_now c' - t'\<bar> \<le> 300000"
      using call_event_window [OF ev' _ clock(3) cfg(2)] clock(1,2) plain ev' by (auto simp: sorted_append true_clock_def)
    then show ?thesis using call_event_fields(1) [OF ev' True stamp(2)] by simp
  qed (use near in simp)
  have w: "i64_abs (i64_sub t t0) \<le> WINDOW_MS" if "d \<in> set (cs @ [c'])" "call_event A cfg d = Some (t, m)" for d t m
    by (rule replay_window [OF clock cfg(2) plain ev late that])
  have len: "length ?evs \<le> length cs" by (simp add: List.map_filter_def)
  have hl: "hm_len ?s + length ?evs < MAX_ENTRIES" using nonce_len [of tr t0 n] tr(2) len s by simp
  have "all_keep nonce_check nonce_keeps t0 ?s ?evs"
    using hl by (intro nonces_all_keep) (auto simp: List.map_filter_def intro: w)
  then have kept: "hm_get (calls_run A cfg cs ?s) n = Some t0"
    unfolding calls_run_guard s
    by (rule nonces.run_keeps [OF nonces.check_inv [OF tr(1)] nonces.check_records [OF tr(1) ok]])
  have "nonce_keeps (calls_run A cfg cs ?s) t0 t'"
    using w [of c' t' n] ev' n' hl nonces_run_len [of ?s ?evs] by (simp add: nonce_keeps_def calls_run_guard)
  moreover have "hm_ok (calls_run A cfg cs ?s)"
    unfolding calls_run_guard s by (intro nonces.run_inv nonces.check_inv tr(1))
  ultimately show False using nonces.check_rejects kept ok' n' by blast
qed

definition crypto_example :: auth_crypto where
  "crypto_example =
    \<lparr>ac_b64_decode = (\<lambda>s. Inr (replicate (length s) 0)), ac_b64_encode = (\<lambda>b. replicate (length b) (CHR ''A'')),
     ac_b64u_decode = (\<lambda>s. Inr (replicate (length s) 0)), ac_b64u_encode = (\<lambda>b. replicate (length b) (CHR ''A'')),
     ac_key_valid = (\<lambda>_. True), ac_public = (\<lambda>_. replicate 32 0), ac_sign = (\<lambda>_ _. replicate 64 0),
     ac_verify = (\<lambda>_ _ _. True), ac_value_ok = (\<lambda>_. True), ac_value_text = (\<lambda>_. True)\<rparr>"

definition call_example :: "int \<Rightarrow> rpc_call" where
  "call_example now = \<lparr>rc_now = now,
     rc_meta = [(META_PUBKEY, replicate 32 (CHR ''A'')), (META_TS, show_int 1000), (META_NONCE, ''n1''), (META_SIG, replicate 64 (CHR ''A''))],
     rc_peers = {replicate 32 0}, rc_method = ''GetStatus'', rc_payload = []\<rparr>"

lemma trim_example: "trim (replicate n (CHR ''A'')) = replicate n (CHR ''A'')"
  by (cases "n = 0") (auto intro!: trim_solid simp: solid_char_def hd_replicate last_replicate)

lemma parse_example: "parse_i64 (show_int 1000) = Some 1000"
  by (rule parse_i64_show_int) (simp add: i64_range_def i64_min_def i64_max_def)

lemma call_example_event:
  "1000 \<le> now \<Longrightarrow> now \<le> 5000 \<Longrightarrow> call_event crypto_example AuthConfig_default (call_example now) = Some (1000, ''n1'')"
  by (simp add: call_event_def call_example_def meta_text_def hm_get_def meta_names crypto_example_def AuthConfig_default_def
      parse_example i64_abs_diff i64_max_def)

lemma call_example_accepted: "fst (call_step crypto_example AuthConfig_default (call_example 1000) []) = Inr ()"
  by (simp add: call_step_def verify_rpc_metadata_def call_example_def need_text_def meta_text_def hm_get_def meta_names
      crypto_example_def AuthConfig_default_def parse_example i64_abs_diff i64_max_def nonce_check_and_insert_def
      MAX_ENTRIES_def hm_retain_def hm_len_def hm_contains_def Let_def verify_peer_def parse_verifying_key_b64_def
      verify_sig_def trim_example)

definition renewed_example :: "int \<Rightarrow> rpc_call" where
  "renewed_example now = (call_example now)\<lparr>rc_meta := hm_insert META_TS (show_int 2500) (rc_meta (call_example now))\<rparr>"

lemma renewed_example_event:
  "1000 \<le> now \<Longrightarrow> now \<le> 5000 \<Longrightarrow> call_event crypto_example AuthConfig_default (renewed_example now) = Some (2500, ''n1'')"
  by (simp add: call_event_def renewed_example_def call_example_def meta_text_def hm_get_def hm_insert_def meta_names crypto_example_def
      AuthConfig_default_def parse_i64_show_int i64_range_def i64_min_def i64_abs_diff i64_max_def)

text \<open>The nonce of an accepted request with a new timestamp.\<close>

theorem rpc_replay_rejected_witness:
  "fst (call_step crypto_example AuthConfig_default (call_example 1000) []) = Inr () \<and>
   fst (call_step crypto_example AuthConfig_default (renewed_example 3000) (calls_run crypto_example AuthConfig_default
      [call_example 2000] (snd (call_step crypto_example AuthConfig_default (call_example 1000) [])))) \<noteq> Inr ()"
proof -
  have "hm_get (rc_meta (call_example 1000)) META_TS = Some (show_int 1000)"
    "hm_get (rc_meta (renewed_example 3000)) META_NONCE = hm_get (rc_meta (call_example 1000)) META_NONCE"
    "rc_now (call_example x) = x" "rc_now (renewed_example x) = x" for x
    by (simp_all add: call_example_def renewed_example_def hm_get_def hm_insert_def meta_names)
  then show ?thesis
    using call_example_accepted
      rpc_replay_rejected [of AuthConfig_default "[]" "[call_example 2000]" crypto_example "call_example 1000" "show_int 1000" 1000 "renewed_example 3000"]
    by (simp add: AuthConfig_default_def [THEN arg_cong, of allow_unauthenticated] AuthConfig_default_def [THEN arg_cong, of max_clock_skew_ms]
        MAX_ENTRIES_def hm_len_def true_clock_def call_example_event renewed_example_event parse_example)
qed

end
