(* ===== verification/Auth_Trust.thy ===== *)
theory Auth_Trust
  imports Deploy_Auth
begin

text \<open>
  What a verified request is worth: a request a client attaches is accepted by a server that knows its key;
  the text of an accepted request was signed by the holder of an authorised key, and belongs to this method, time, nonce
  and payload alone when its nonce has no separator; with a separator in the nonce an upload signed for one project is accepted for another; and one
  unauthenticated request can empty the nonce tracker and so revive every recorded request.
\<close>

section \<open>Attached metadata\<close>

lemma meta_distinct [simp]:
  "META_PUBKEY \<noteq> META_NONCE" "META_TS \<noteq> META_NONCE" "META_SIG \<noteq> META_NONCE" "META_VERSION \<noteq> META_NONCE"
  "META_PUBKEY \<noteq> META_PROJECT" "META_TS \<noteq> META_PROJECT" "META_SIG \<noteq> META_PROJECT" "META_VERSION \<noteq> META_PROJECT"
  "META_NONCE \<noteq> META_PROJECT"
  by (simp_all add: meta_names)

lemma insert_each_ok:
  "list_all (\<lambda>(k, v). ac_value_ok A v) kvs \<Longrightarrow> insert_each A kvs m = (Inr (), fold (\<lambda>(k, v). hm_insert k v) kvs m)"
  by (induction kvs arbitrary: m) (auto simp: insert_ascii_def)

lemma crypto_okD:
  assumes "auth_crypto_ok A"
  shows "ac_b64_decode A (ac_b64_encode A b) = Inr b" "ac_b64u_decode A (ac_b64u_encode A b) = Inr b"
    "list_all solid_char (ac_b64_encode A b)" "list_all solid_char (ac_b64u_encode A b)"
    "printable (ac_b64_encode A b)" "printable (ac_b64u_encode A b)"
    "length (ac_public A sk) = 32" "ac_key_valid A (ac_public A sk)"
    "length (ac_sign A sk msg) = 64" "ac_verify A (ac_public A sk) msg (ac_sign A sk msg)"
    "printable s \<Longrightarrow> ac_value_ok A s" "printable s \<Longrightarrow> ac_value_text A s"
    "b \<noteq> [] \<Longrightarrow> ac_b64_encode A b \<noteq> []" "b \<noteq> [] \<Longrightarrow> ac_b64u_encode A b \<noteq> []"
  using assms by (auto simp: auth_crypto_ok_def)

lemma printable_append [simp]: "printable (s @ t) \<longleftrightarrow> printable s \<and> printable t"
  by (auto simp: printable_def)

lemma printable_Nil [simp]: "printable []"
  by (simp add: printable_def)

lemma printable_show_int [simp]: "printable (show_int t)"
  unfolding printable_def list_all_iff by (auto dest!: show_int_chars simp: dec_char_def digit_val_def Let_def split: if_split_asm)

declare hex_digit.simps [simp del]

lemma show_hex_digits: "c \<in> set (show_hex n) \<Longrightarrow> \<exists>d < 16. c = hex_digit d"
proof (induction n rule: show_hex.induct)
  case (1 n)
  then show ?case by (cases "n < 16") (auto simp: show_hex.simps [of n] intro: exI [of _ "n mod 16"])
qed

lemma hex_digit_code: "d < 16 \<Longrightarrow> (of_char (hex_digit d) :: nat) = (if d < 10 then 48 + d else 87 + d)"
  by (simp add: hex_digit.simps)

lemma hex16_chars: "c \<in> set (hex16 n) \<Longrightarrow> \<exists>d < 16. c = hex_digit d"
proof -
  have "CHR ''0'' = hex_digit 0" by code_simp
  then show "c \<in> set (hex16 n) \<Longrightarrow> ?thesis"
    using show_hex_digits [of c "unat n"] by (auto simp: hex16_def Let_def intro: exI [of _ 0])
qed

lemma printable_hex16 [simp]: "printable (hex16 n)"
  unfolding printable_def list_all_iff by (auto dest!: hex16_chars simp: hex_digit_code)

lemma hex16_no_bar: "CHR ''|'' \<notin> set (hex16 n)"
proof
  assume "CHR ''|'' \<in> set (hex16 n)"
  then obtain d where "d < 16" "CHR ''|'' = hex_digit d" using hex16_chars by blast
  then have "(of_char (CHR ''|'') :: nat) = (if d < 10 then 48 + d else 87 + d)" by (metis hex_digit_code)
  with \<open>d < 16\<close> show False by (simp split: if_split_asm)
qed

lemma length_show_hex: "n < 16 ^ k \<Longrightarrow> 0 < k \<Longrightarrow> length (show_hex n) \<le> k"
proof (induction n arbitrary: k rule: show_hex.induct)
  case (1 n)
  show ?case
  proof (cases "n < 16")
    case True
    with 1 show ?thesis by (simp add: show_hex.simps [of n])
  next
    case False
    with 1(2) obtain j where k: "k = Suc j" "0 < j" by (cases k; cases "k = 1") auto
    with 1(2) have "n div 16 < 16 ^ j" by (simp add: div_less_iff_less_mult mult.commute)
    from 1(1) [OF False this k(2)] k False show ?thesis by (simp add: show_hex.simps [of n])
  qed
qed

lemma show_hex_nonempty [simp]: "show_hex n \<noteq> []"
  by (subst show_hex.simps) simp

lemma length_hex16 [simp]: "length (hex16 n) = 16"
proof -
  have "unat n < 16 ^ 16" using unsigned_less [of n] by simp
  from length_show_hex [OF this] show ?thesis by (simp add: hex16_def Let_def)
qed

lemma hex16_nonempty [simp]: "hex16 n \<noteq> []"
  by (metis length_hex16 list.size(3) zero_neq_numeral)

section \<open>A correctly signed request is accepted\<close>

lemma verify_signed:
  assumes C: "auth_crypto_ok A" and peer: "ac_public A sk \<in> peers"
    and clock: "\<bar>now - ts\<bar> \<le> max_clock_skew_ms cfg" "\<bar>now - ts\<bar> \<le> i64_max" "i64_range ts"
    and fields: "meta_text A m META_PUBKEY = Some (pubkey_b64_url A sk)" "meta_text A m META_TS = Some (show_int ts)"
      "meta_text A m META_NONCE = Some n" "meta_text A m META_SIG = Some (sign_bytes A sk (rpc_canonical meth ts n payload))"
    and n: "n \<noteq> []" "length n \<le> 128" "hm_get tr n = None" and tr: "hm_ok tr"
  shows "fst (verify_rpc_metadata A now m peers meth payload cfg tr) = Inr ()"
proof -
  note c = crypto_okD [OF C]
  have k: "parse_verifying_key_b64 A (pubkey_b64_url A sk) = Inr (ac_public A sk)"
    by (simp add: parse_verifying_key_b64_def pubkey_b64_url_def trim_all_solid c)
  have s: "verify_sig A (ac_public A sk) msg (sign_bytes A sk msg) = Inr ()" for msg
    by (simp add: verify_sig_def sign_bytes_def trim_all_solid c)
  have "fst (nonce_check_and_insert tr ts n) = Inr ()"
    using n tr by (simp add: nonce_check_and_insert_def Let_def hm_contains_def)
  then have "\<exists>tr'. nonce_check_and_insert tr ts n = (Inr (), tr')" by (metis prod.collapse)
  then show ?thesis using clock
    by (auto simp: verify_rpc_metadata_def need_text_def fields parse_i64_show_int i64_abs_diff verify_peer_def k s peer)
qed

lemma nonce_fresh:
  "hm_ok tr \<Longrightarrow> hm_get tr k = None \<Longrightarrow> k \<noteq> n \<Longrightarrow> hm_get (snd (nonce_check_and_insert tr t n)) k = None"
  by (simp add: nonce_check_and_insert_def Let_def)

lemma verify_tracker:
  obtains (same) "snd (verify_rpc_metadata A now m peers meth payload cfg tr) = tr"
    | (checked) t n where "meta_text A m META_NONCE = Some n"
        "snd (verify_rpc_metadata A now m peers meth payload cfg tr) = snd (nonce_check_and_insert tr t n)"
proof -
  let ?c = "\<lparr>rc_now = now, rc_meta = m, rc_peers = peers, rc_method = meth, rc_payload = payload\<rparr>"
  have s: "snd (verify_rpc_metadata A now m peers meth payload cfg tr) =
      (case call_event A cfg ?c of None \<Rightarrow> tr | Some (t, n) \<Rightarrow> snd (nonce_check_and_insert tr t n))"
    using call_step_tracker [of A cfg ?c tr] by (simp add: call_step_def nonce_check_def cong: option.case_cong)
  have "meta_text A m META_NONCE = Some n" if "call_event A cfg ?c = Some (t, n)" for t n
    using that by (auto simp: call_event_def split: option.split_asm if_split_asm)
  then show thesis using s same checked by (cases "call_event A cfg ?c") auto
qed

lemma verify_fresh:
  assumes "hm_ok tr" "hm_get tr k = None" "meta_text A m META_NONCE = Some n" "k \<noteq> n"
  shows "hm_ok (snd (verify_rpc_metadata A now m peers meth payload cfg tr)) \<and>
    hm_get (snd (verify_rpc_metadata A now m peers meth payload cfg tr)) k = None"
proof (cases rule: verify_tracker [of A now m peers meth payload cfg tr])
  case (checked t n')
  then show ?thesis
    using assms nonces.check_inv [OF assms(1), of t n] by (simp add: nonce_fresh nonce_check_def)
qed (simp add: assms)

lemma normalize_idem: "normalize_project_for_signing (normalize_project_for_signing s) = normalize_project_for_signing s"
proof -
  have "trim ''default'' = ''default''" by (rule trim_solid) (simp_all add: solid_char_def)
  then show ?thesis by (auto simp: normalize_project_for_signing_def Let_def eq_ignore_ascii_case_def)
qed

lemma signing_payload_normalize: "signing_payload meth (normalize_project_for_signing p) s = signing_payload meth p s"
  by (simp add: signing_payload_def normalize_idem)

lemma printable_trim: "printable s \<Longrightarrow> printable (trim s)"
  using set_trim [of s] by (auto simp: printable_def list_all_iff)

lemma printable_normalize: "printable s \<Longrightarrow> printable (normalize_project_for_signing s)"
  by (simp add: normalize_project_for_signing_def Let_def printable_trim printable_def [of "''default''"])

lemma auth_entries_ok:
  assumes "auth_crypto_ok A" "printable n"
  shows "list_all (\<lambda>(k, v). ac_value_ok A v) (auth_entries A sk meth payload ts n)"
  using crypto_okD [OF assms(1)] assms(2) by (simp add: auth_entries_def pubkey_b64_url_def sign_bytes_def)

lemma text_insert:
  "ac_value_text A v \<Longrightarrow> meta_text A (hm_insert k v m) k' = (if k' = k then Some v else meta_text A m k')"
  by (simp add: meta_text_def)

text \<open>The fields of attached metadata, whatever optional entries follow.\<close>

lemma attached_fields:
  fixes sk :: bytes and meth payload :: string and ts :: int
  assumes C: "auth_crypto_ok A" and n: "printable n"
    and extra: "list_all (\<lambda>(k, v). printable v \<and> k \<in> {META_VERSION, META_PROJECT, META_STACK_APPLY_SHA256}) extra"
  defines "r \<equiv> insert_each A (auth_entries A sk meth payload ts n @ extra) []"
  shows "fst r = Inr ()" "meta_text A (snd r) META_PUBKEY = Some (pubkey_b64_url A sk)"
    "meta_text A (snd r) META_TS = Some (show_int ts)" "meta_text A (snd r) META_NONCE = Some n"
    "meta_text A (snd r) META_SIG = Some (sign_bytes A sk (rpc_canonical meth ts n payload))"
    "snd r = fold (\<lambda>(k, v). hm_insert k v) (auth_entries A sk meth payload ts n @ extra) []"
proof -
  note c = crypto_okD [OF C]
  have ok: "list_all (\<lambda>(k, v). ac_value_ok A v) (auth_entries A sk meth payload ts n @ extra)"
    using auth_entries_ok [OF C n, of sk meth payload ts] extra c(11) by (fastforce simp: list_all_iff)
  then have r: "r = (Inr (), fold (\<lambda>(k, v). hm_insert k v) (auth_entries A sk meth payload ts n @ extra) [])"
    unfolding r_def by (rule insert_each_ok)
  have skip: "meta_text A (fold (\<lambda>(k, v). hm_insert k v) extra m) k = meta_text A m k"
    if "k \<notin> {META_VERSION, META_PROJECT, META_STACK_APPLY_SHA256}" for m k
    using extra that by (induction extra arbitrary: m) (auto simp: text_insert c(12))
  have e: "ac_value_text A (pubkey_b64_url A sk)" "ac_value_text A (show_int ts)" "ac_value_text A n"
    "ac_value_text A (sign_bytes A sk msg)" for msg
    using c n by (simp_all add: pubkey_b64_url_def sign_bytes_def)
  show "fst r = Inr ()" "snd r = fold (\<lambda>(k, v). hm_insert k v) (auth_entries A sk meth payload ts n @ extra) []"
    by (simp_all add: r)
  show "meta_text A (snd r) META_PUBKEY = Some (pubkey_b64_url A sk)" "meta_text A (snd r) META_TS = Some (show_int ts)"
    "meta_text A (snd r) META_NONCE = Some n"
    "meta_text A (snd r) META_SIG = Some (sign_bytes A sk (rpc_canonical meth ts n payload))"
    unfolding r by (simp_all add: skip meta_names auth_entries_def text_insert e)
qed

lemmas attach_defs = attach_auth_metadata_def attach_auth_metadata_upload_server_stack_def Let_def

lemma upload_extra:
  "printable ver \<Longrightarrow> printable p \<Longrightarrow> list_all (\<lambda>(k, v). printable v \<and> k \<in> {META_VERSION, META_PROJECT, META_STACK_APPLY_SHA256})
     (if meth \<in> {''Upload'', ''UploadServerStack''} \<and> ver \<noteq> []
       then (META_VERSION, ver) #
            (if normalize_project_for_signing p \<noteq> ''default'' \<and> meth = ''Upload'' then [(META_PROJECT, normalize_project_for_signing p)] else [])
       else [])"
  by (simp add: printable_normalize)

lemma attach_fields:
  fixes sk :: bytes and rnd :: u64 and ts :: int and meth :: string
  assumes C: "auth_crypto_ok A" and pr: "printable s" "printable p"
  defines "r \<equiv> attach_auth_metadata A ts rnd sk meth p s []"
  shows "fst r = Inr ()" "meta_text A (snd r) META_PUBKEY = Some (pubkey_b64_url A sk)"
    "meta_text A (snd r) META_TS = Some (show_int ts)" "meta_text A (snd r) META_NONCE = Some (hex16 rnd)"
    "meta_text A (snd r) META_SIG = Some (sign_bytes A sk (rpc_canonical meth ts (hex16 rnd) (signing_payload meth p s)))"
  unfolding r_def attach_defs
  by (rule attached_fields [OF C printable_hex16 upload_extra [OF pr]])+

lemma upload_fields:
  fixes sk :: bytes and rnd :: u64 and ts :: int
  assumes C: "auth_crypto_ok A" and pr: "printable ver" "printable p" and v: "ver \<noteq> []"
  defines "m \<equiv> snd (attach_auth_metadata A ts rnd sk ''Upload'' p ver [])"
  shows "meta_text A m META_VERSION = Some ver"
    "meta_text A m META_PROJECT =
       (if normalize_project_for_signing p = ''default'' then None else Some (normalize_project_for_signing p))"
proof -
  note c = crypto_okD [OF C]
  have e: "ac_value_text A (pubkey_b64_url A sk)" "ac_value_text A (show_int ts)" "ac_value_text A (hex16 rnd)"
    "ac_value_text A (sign_bytes A sk msg)" "ac_value_text A ver" "ac_value_text A (normalize_project_for_signing p)" for msg
    using c pr printable_normalize by (simp_all add: pubkey_b64_url_def sign_bytes_def)
  have n: "meta_text A [] k = None" for k by (simp add: meta_text_def)
  have m: "m = fold (\<lambda>(k, v). hm_insert k v) (auth_entries A sk ''Upload'' (signing_payload ''Upload'' p ver) ts (hex16 rnd) @
      (META_VERSION, ver) # (if normalize_project_for_signing p \<noteq> ''default'' then [(META_PROJECT, normalize_project_for_signing p)] else [])) []"
    using attached_fields(6) [OF C printable_hex16 upload_extra [OF pr, of "''Upload''"]] v
    by (simp add: m_def attach_defs)
  show "meta_text A m META_VERSION = Some ver"
    "meta_text A m META_PROJECT =
       (if normalize_project_for_signing p = ''default'' then None else Some (normalize_project_for_signing p))"
    unfolding m by (simp_all add: auth_entries_def text_insert e n) (simp_all add: meta_names)
qed

text \<open>
  C30: Request authentication works. A client whose key the server knows and whose clock is within the allowed
  skew attaches metadata to any method, project and version of printable characters, and the server accepts
  it, for the method it was signed for, when the random nonce is not in the tracker. For an upload the server
  reads version and project from the metadata itself.
\<close>

theorem rpc_auth_roundtrip:
  assumes C: "auth_crypto_ok A" and peer: "ac_public A sk \<in> peers"
    and clock: "\<bar>now - ts\<bar> \<le> max_clock_skew_ms cfg" "\<bar>now - ts\<bar> \<le> i64_max" "i64_range ts"
    and pr: "printable secondary" "printable project"
    and tr: "hm_ok tr" "hm_get tr (hex16 rnd) = None" and v: "version \<noteq> []" "printable version"
  shows "fst (attach_auth_metadata A ts rnd sk meth project secondary []) = Inr () \<and>
     fst (verify_rpc_metadata A now (snd (attach_auth_metadata A ts rnd sk meth project secondary [])) peers meth
            (signing_payload meth project secondary) cfg tr) = Inr () \<and>
     fst (verify_upload_metadata A now (snd (attach_auth_metadata A ts rnd sk ''Upload'' project version [])) peers cfg tr) = Inr ()"
proof -
  note f = attach_fields [OF C _ pr(2)]
  note up = upload_fields [OF C v(2) pr(2) v(1)]
  have nonce: "hex16 rnd \<noteq> []" "length (hex16 rnd) \<le> 128" by simp_all
  have r: "fst (verify_rpc_metadata A now (snd (attach_auth_metadata A ts rnd sk me project sec [])) peers me
            (signing_payload me project sec) cfg tr) = Inr ()" if "printable sec" for me sec
    by (rule verify_signed [OF C peer clock f(2-5) [OF that] nonce tr(2,1)])
  have "signing_payload ''Upload'' (case meta_text A (snd (attach_auth_metadata A ts rnd sk ''Upload'' project version [])) META_PROJECT of
        None \<Rightarrow> ''default'' | Some p \<Rightarrow> p) version = signing_payload ''Upload'' project version"
    using signing_payload_normalize [of "''Upload''" project version] by (auto simp: up)
  with r [OF v(2), of "''Upload''"] r [OF pr(1), of meth] show ?thesis
    by (simp add: f(1) [OF pr(1)] verify_upload_metadata_def need_text_def up(1) Let_def)
qed

text \<open>An instance of the third-party functions that keeps the promises: unary digits as Base64 text.\<close>

definition unary_encode :: "bytes \<Rightarrow> string" where
  "unary_encode b = concat (map (\<lambda>x. replicate (unat x) (CHR ''B'') @ ''A'') b)"

fun unary_decode :: "nat \<Rightarrow> string \<Rightarrow> bytes" where
  "unary_decode n [] = []"
| "unary_decode n (c # s) = (if c = CHR ''A'' then word_of_nat n # unary_decode 0 s else unary_decode (n + 1) s)"

lemma unary_decode_encode: "unary_decode 0 (unary_encode b) = b"
proof (induction b)
  case (Cons x b)
  have "unary_decode n (replicate k (CHR ''B'') @ ''A'' @ s) = word_of_nat (n + k) # unary_decode 0 s" for n k s
    by (induction k arbitrary: n) auto
  from this [of 0 "unat x"] Cons show ?case by (simp add: unary_encode_def)
qed (simp add: unary_encode_def)

definition crypto_sound :: auth_crypto where
  "crypto_sound =
    \<lparr>ac_b64_decode = (\<lambda>s. Inr (unary_decode 0 s)), ac_b64_encode = unary_encode,
     ac_b64u_decode = (\<lambda>s. Inr (unary_decode 0 s)), ac_b64u_encode = unary_encode,
     ac_key_valid = (\<lambda>_. True), ac_public = (\<lambda>_. replicate 32 0), ac_sign = (\<lambda>_ _. replicate 64 0),
     ac_verify = (\<lambda>_ _ s. s = replicate 64 0), ac_value_ok = (\<lambda>_. True), ac_value_text = (\<lambda>_. True)\<rparr>"

lemma crypto_sound_ok: "auth_crypto_ok crypto_sound"
proof -
  have "c \<in> set (unary_encode b) \<Longrightarrow> c = CHR ''A'' \<or> c = CHR ''B''" for c b
    by (induction b) (auto simp: unary_encode_def in_set_replicate)
  then have "list_all solid_char (unary_encode b)" "printable (unary_encode b)" for b
    unfolding list_all_iff printable_def by (fastforce simp: solid_char_def)+
  moreover have "b \<noteq> [] \<Longrightarrow> unary_encode b \<noteq> []" for b by (cases b) (simp_all add: unary_encode_def)
  ultimately show ?thesis by (simp add: auth_crypto_ok_def crypto_sound_def unary_decode_encode)
qed

theorem rpc_auth_roundtrip_witness:
  "fst (verify_rpc_metadata crypto_sound 5000 (snd (attach_auth_metadata crypto_sound 1000 7 [] ''Rollback'' ''shop'' ''v1'' []))
      {replicate 32 0} ''Rollback'' ''shop|v1'' AuthConfig_default []) = Inr ()"
proof -
  have t: "trim ''shop'' = ''shop''" by (rule trim_solid) (simp_all add: solid_char_def)
  have "signing_payload ''Rollback'' ''shop'' ''v1'' = ''shop|v1''"
    by (simp add: signing_payload_def normalize_project_for_signing_def t eq_ignore_ascii_case_def
        to_ascii_lowercase_def ascii_lower_def Let_def)
  then show ?thesis
    using rpc_auth_roundtrip [OF crypto_sound_ok, of "[]" "{replicate 32 0}" 5000 1000 AuthConfig_default "''v1''" "''shop''" "[]" 7 "''v1''" "''Rollback''"]
    by (simp add: crypto_sound_def [THEN arg_cong, of ac_public] AuthConfig_default_def i64_range_def i64_min_def i64_max_def printable_def)
qed

section \<open>An accepted request was signed\<close>

lemma bar_split:
  "CHR ''|'' \<notin> set a \<Longrightarrow> CHR ''|'' \<notin> set a' \<Longrightarrow> a @ CHR ''|'' # b = a' @ CHR ''|'' # b' \<Longrightarrow> a = a' \<and> b = b'"
  by (metis Pair_inject option.inject split_once_append)

lemma show_int_no_bar: "CHR ''|'' \<notin> set (show_int t)"
  using show_int_chars [of "CHR ''|''" t] by (auto simp: dec_char_def digit_val_def)

lemma show_int_inj: "i64_range t \<Longrightarrow> i64_range t' \<Longrightarrow> show_int t = show_int t' \<Longrightarrow> t = t'"
  using parse_i64_show_int by (metis option.inject)

lemma rpc_canonical_inj:
  assumes "rpc_canonical meth t n p = rpc_canonical meth' t' n' p'" and "i64_range t" "i64_range t'"
    and "CHR ''|'' \<notin> set meth" "CHR ''|'' \<notin> set meth'" "CHR ''|'' \<notin> set n" "CHR ''|'' \<notin> set n'"
  shows "meth = meth' \<and> t = t' \<and> n = n' \<and> p = p'"
proof -
  have "meth @ CHR ''|'' # show_int t @ CHR ''|'' # n @ CHR ''|'' # p =
        meth' @ CHR ''|'' # show_int t' @ CHR ''|'' # n' @ CHR ''|'' # p'"
    using assms(1) unfolding rpc_canonical_def as_bytes_inj by simp
  from bar_split [OF assms(4,5) this]
  have "meth = meth'" "show_int t @ CHR ''|'' # n @ CHR ''|'' # p = show_int t' @ CHR ''|'' # n' @ CHR ''|'' # p'" by auto
  moreover from bar_split [OF show_int_no_bar show_int_no_bar this(2)]
  have "show_int t = show_int t'" "n @ CHR ''|'' # p = n' @ CHR ''|'' # p'" by auto
  moreover from bar_split [OF assms(6,7) this(2)] have "n = n'" "p = p'" by auto
  ultimately show ?thesis using show_int_inj [OF assms(2,3)] by auto
qed

text \<open>
  What signatures promise: \<open>sigs\<close> are the signatures anyone has made or come by and \<open>made\<close> the messages the holder of
  each key has signed. A signature among them that verifies under an authorised key is on a message that its holder signed.
\<close>

definition unforged :: "auth_crypto \<Rightarrow> bytes set \<Rightarrow> bytes set \<Rightarrow> (bytes \<times> bytes) set \<Rightarrow> bool" where
  "unforged A peers sigs made \<longleftrightarrow>
     (\<forall>vk \<in> peers. \<forall>sg \<in> sigs. \<forall>msg. ac_verify A vk msg sg \<longrightarrow> (vk, msg) \<in> made)"

text \<open>The signature a request carries.\<close>

definition request_signature :: "auth_crypto \<Rightarrow> metadata \<Rightarrow> bytes option" where
  "request_signature A m = (case meta_text A m META_SIG of
      None \<Rightarrow> None
    | Some sig \<Rightarrow> (case ac_b64_decode A (trim sig) of Inl _ \<Rightarrow> None | Inr raw \<Rightarrow> Some raw))"

lemma accepted_facts:
  assumes "\<not> allow_unauthenticated cfg" "fst (verify_rpc_metadata A now m peers meth payload cfg tr) = Inr ()"
  obtains pk ts_s n t vk raw where "meta_text A m META_PUBKEY = Some pk" "parse_verifying_key_b64 A pk = Inr vk" "vk \<in> peers"
    "meta_text A m META_NONCE = Some n" "meta_text A m META_TS = Some ts_s"
    "parse_i64 ts_s = Some t" "i64_abs (i64_sub now t) \<le> max_clock_skew_ms cfg"
    "snd (verify_rpc_metadata A now m peers meth payload cfg tr) = snd (nonce_check_and_insert tr t n)"
    "fst (nonce_check_and_insert tr t n) = Inr ()"
    "request_signature A m = Some raw" "ac_verify A vk (rpc_canonical meth t n payload) raw"
  using assms
  by (auto simp: verify_rpc_metadata_def need_text_def verify_peer_def verify_sig_def request_signature_def
      split: option.split_asm sum.split_asm prod.split_asm if_split_asm)

text \<open>
  C8: An accepted request was signed. Suppose the signature the request carries is none that was forged. Then the request names an
  authorised key, and the holder of that key has signed the text of its method, timestamp, nonce and payload; the
  timestamp is within the skew and the nonce is recorded with it. That text belongs to no other request whose method
  and nonce are free of the separator when this request's are; a nonce with a separator can be read in another way.
\<close>

theorem accepted_was_signed:
  assumes cfg: "\<not> allow_unauthenticated cfg"
    and ok: "fst (verify_rpc_metadata A now m peers meth payload cfg tr) = Inr ()"
    and sent: "request_signature A m = Some sg" and uf: "unforged A peers sigs made" "sg \<in> sigs" and tr: "hm_ok tr"
  shows "\<exists>pk vk ts_s t n. meta_text A m META_PUBKEY = Some pk \<and> parse_verifying_key_b64 A pk = Inr vk \<and> vk \<in> peers \<and>
    meta_text A m META_TS = Some ts_s \<and> parse_i64 ts_s = Some t \<and> meta_text A m META_NONCE = Some n \<and>
    (vk, rpc_canonical meth t n payload) \<in> made \<and> i64_abs (i64_sub now t) \<le> max_clock_skew_ms cfg \<and>
    hm_get (snd (verify_rpc_metadata A now m peers meth payload cfg tr)) n = Some t \<and>
    (\<forall>meth' t' n' payload'. rpc_canonical meth' t' n' payload' = rpc_canonical meth t n payload \<and> i64_range t' \<and>
       CHR ''|'' \<notin> set meth \<union> set n \<union> set meth' \<union> set n' \<longrightarrow> (meth', t', n', payload') = (meth, t, n, payload))"
proof -
  obtain pk ts_s n t vk raw where f: "meta_text A m META_PUBKEY = Some pk" "parse_verifying_key_b64 A pk = Inr vk" "vk \<in> peers"
    "meta_text A m META_NONCE = Some n" "meta_text A m META_TS = Some ts_s" "parse_i64 ts_s = Some t"
    "i64_abs (i64_sub now t) \<le> max_clock_skew_ms cfg"
    and snd: "snd (verify_rpc_metadata A now m peers meth payload cfg tr) = snd (nonce_check_and_insert tr t n)"
    and chk: "fst (nonce_check_and_insert tr t n) = Inr ()"
    and v: "request_signature A m = Some raw" "ac_verify A vk (rpc_canonical meth t n payload) raw"
    by (rule accepted_facts [OF cfg ok]) blast
  have made: "(vk, rpc_canonical meth t n payload) \<in> made"
    using uf v sent f(3) unfolding unforged_def by auto
  have rec: "hm_get (snd (nonce_check_and_insert tr t n)) n = Some t"
    using nonces.check_records [OF tr, of t n] chk by (simp add: nonce_check_def)
  have "(meth', t', n', payload') = (meth, t, n, payload)"
    if "rpc_canonical meth' t' n' payload' = rpc_canonical meth t n payload" "i64_range t'"
      "CHR ''|'' \<notin> set meth \<union> set n \<union> set meth' \<union> set n'" for meth' t' n' payload'
    using rpc_canonical_inj [OF that(1,2) parse_i64_range [OF f(6)]] that(3) by simp
  with f snd made rec show ?thesis by auto
qed

text \<open>Third-party functions whose signature is the message, with its length in front, as long as it fits.\<close>

definition padded_sign :: "bytes \<Rightarrow> bytes" where
  "padded_sign msg = (if length msg < 64 then word_of_nat (length msg) # msg @ replicate (63 - length msg) 0 else replicate 64 255)"

definition crypto_padded :: auth_crypto where
  "crypto_padded = crypto_sound\<lparr>ac_sign := (\<lambda>_. padded_sign), ac_verify := (\<lambda>_ msg sg. sg = padded_sign msg)\<rparr>"

lemma crypto_padded_ok: "auth_crypto_ok crypto_padded"
  using crypto_sound_ok by (simp add: auth_crypto_ok_def crypto_padded_def padded_sign_def)

lemma padded_sign_inj:
  assumes "length msg < 64" "padded_sign msg = padded_sign msg'"
  shows "msg' = msg"
proof -
  have small: "unat (word_of_nat k :: u8) = k" if "k < 64" for k using that by (simp add: unat_of_nat)
  have big: "(word_of_nat k :: u8) \<noteq> 255" if "k < 64" for k
  proof
    assume "(word_of_nat k :: u8) = 255"
    then have "unat (word_of_nat k :: u8) = 255" by simp
    then show False using small [OF that] that by simp
  qed
  have "length msg' < 64"
  proof (rule ccontr)
    assume "\<not> length msg' < 64"
    then have "hd (padded_sign msg) = 255" using assms(2) by (simp add: padded_sign_def)
    then show False using big [OF assms(1)] assms(1) by (simp add: padded_sign_def)
  qed
  then have e: "(word_of_nat (length msg) :: u8) = word_of_nat (length msg')"
    "msg @ replicate (63 - length msg) 0 = msg' @ replicate (63 - length msg') 0" using assms by (simp_all add: padded_sign_def)
  have "length msg = length msg'"
    using arg_cong [OF e(1), of unat] small [OF assms(1)] small [OF \<open>length msg' < 64\<close>] by simp
  then show ?thesis using e(2) by simp
qed

theorem accepted_was_signed_witness:
  "let m = snd (attach_auth_metadata crypto_padded 1000 7 [] ''GetStatus'' [] [] []);
       msg = rpc_canonical ''GetStatus'' 1000 (hex16 7) [] in
   auth_crypto_ok crypto_padded \<and> unforged crypto_padded {replicate 32 0} {padded_sign msg} {(replicate 32 0, msg)} \<and>
   (\<exists>t n. (replicate 32 0, rpc_canonical ''GetStatus'' t n []) \<in> {(replicate 32 (0 :: u8), msg)} \<and>
     hm_get (snd (verify_rpc_metadata crypto_padded 1000 m {replicate 32 0} ''GetStatus'' [] AuthConfig_default [])) n = Some t)"
proof -
  let ?m = "snd (attach_auth_metadata crypto_padded 1000 7 [] ''GetStatus'' [] [] [])"
  let ?msg = "rpc_canonical ''GetStatus'' 1000 (hex16 7) []"
  have p: "signing_payload ''GetStatus'' [] [] = []" by (simp add: signing_payload_def normalize_project_for_signing_def)
  have pub: "ac_public crypto_padded [] = replicate 32 0" by (simp add: crypto_padded_def crypto_sound_def)
  note f = attach_fields [OF crypto_padded_ok, of "[]" "[]" 1000 7 "[]" "''GetStatus''", unfolded p, simplified]
  have acc: "fst (verify_rpc_metadata crypto_padded 1000 ?m {replicate 32 0} ''GetStatus'' [] AuthConfig_default []) = Inr ()"
    by (rule verify_signed [OF crypto_padded_ok, where sk = "[]" and n = "hex16 7" and ts = 1000])
      (use f in \<open>simp_all add: pub AuthConfig_default_def i64_range_def i64_min_def i64_max_def\<close>)
  have sg: "request_signature crypto_padded ?m = Some (padded_sign ?msg)"
    using f(5) crypto_okD(1,3) [OF crypto_padded_ok] by (simp add: request_signature_def sign_bytes_def trim_all_solid) (simp add: crypto_padded_def)
  have "show_int 1000 = ''1000''" by code_simp
  then have "length ?msg < 64" by (simp add: rpc_canonical_def)
  then have uf: "unforged crypto_padded {replicate 32 0} {padded_sign ?msg} {(replicate 32 0, ?msg)}"
    using padded_sign_inj by (auto simp: unforged_def crypto_padded_def)
  show ?thesis
    using accepted_was_signed [OF _ acc sg uf] crypto_padded_ok uf by (auto simp: Let_def AuthConfig_default_def)
qed

section \<open>Two ways around\<close>

lemma printable_bar: "printable (CHR ''|'' # s) \<longleftrightarrow> printable s"
  by (simp add: printable_def)

text \<open>
  Project confusion. The separator may occur in a nonce, so the message signed for an upload to a project
  is also the message of an upload of the same version to the default project. From the metadata of an
  accepted upload to a project, moving the project's name into the nonce and dropping the project entry gives
  metadata that the server accepts once more, now for the default project.
\<close>

theorem upload_project_confusion:
  assumes C: "auth_crypto_ok A" and peer: "ac_public A sk \<in> peers"
    and clock: "\<bar>now - ts\<bar> \<le> max_clock_skew_ms cfg" "\<bar>now - ts\<bar> \<le> i64_max" "i64_range ts"
    and p: "normalize_project_for_signing project = project" "project \<noteq> ''default''" "printable project" "length project \<le> 111"
    and v: "printable version" "version \<noteq> []"
    and tr: "hm_ok tr" "hm_get tr (hex16 rnd) = None" "hm_get tr (hex16 rnd @ ''|'' @ project) = None"
  defines "m \<equiv> snd (attach_auth_metadata A ts rnd sk ''Upload'' project version [])"
  defines "m' \<equiv> hm_remove META_PROJECT (hm_insert META_NONCE (hex16 rnd @ ''|'' @ project) m)"
  shows "fst (verify_upload_metadata A now m peers cfg tr) = Inr () \<and>
    fst (verify_upload_metadata A now m' peers cfg (snd (verify_upload_metadata A now m peers cfg tr))) = Inr () \<and>
    meta_text A m META_PROJECT = Some project \<and> meta_text A m' META_PROJECT = None"
proof -
  note f = attach_fields [OF C v(1) p(3), of ts rnd sk "''Upload''", folded m_def]
  note u = upload_fields [OF C v(1) p(3) v(2), of ts rnd sk, folded m_def]
  let ?n = "hex16 rnd @ ''|'' @ project" and ?pay = "project @ ''|'' @ version"
  have pay: "signing_payload ''Upload'' project version = ?pay" "signing_payload ''Upload'' ''default'' version = version"
    using p normalize_idem [of "''default''"]
    by (simp_all add: signing_payload_def Let_def) (simp add: normalize_project_for_signing_def eq_ignore_ascii_case_def trim_solid solid_char_def Let_def)
  have canon: "rpc_canonical ''Upload'' ts (hex16 rnd) ?pay = rpc_canonical ''Upload'' ts ?n version"
    by (simp add: rpc_canonical_def)
  have first: "verify_upload_metadata A now m peers cfg tr = verify_rpc_metadata A now m peers ''Upload'' ?pay cfg tr"
    using p by (simp add: verify_upload_metadata_def need_text_def u pay)
  have ok: "fst (verify_upload_metadata A now m peers cfg tr) = Inr ()" unfolding first
    by (rule verify_signed [OF C peer clock f(2-4) f(5) [unfolded pay] _ _ tr(2,1)]) simp_all
  let ?tr = "snd (verify_upload_metadata A now m peers cfg tr)"
  have tr': "hm_ok ?tr" "hm_get ?tr ?n = None"
    using verify_fresh [OF tr(1,3) f(4)] unfolding first by simp_all
  have val: "ac_value_text A ?n" using crypto_okD(12) [OF C] p(3) by (simp add: printable_bar)
  have f': "meta_text A m' k = (if k = META_PROJECT then None else if k = META_NONCE then Some ?n else meta_text A m k)" for k
    using val by (simp add: m'_def meta_text_def)
  have second: "verify_upload_metadata A now m' peers cfg x = verify_rpc_metadata A now m' peers ''Upload'' version cfg x" for x
    by (simp add: verify_upload_metadata_def need_text_def f' u pay)
  have "fst (verify_upload_metadata A now m' peers cfg ?tr) = Inr ()" unfolding second
    using p(4) f(5) canon pay
    by (intro verify_signed [OF C peer clock _ _ _ _ _ _ tr'(2,1)]) (simp_all add: f' f(2,3))
  with ok show ?thesis using u(2) p by (simp add: f')
qed

theorem upload_project_confusion_witness:
  "fst (verify_upload_metadata crypto_sound 5000
      (hm_remove META_PROJECT (hm_insert META_NONCE (hex16 7 @ ''|'' @ ''shop'')
         (snd (attach_auth_metadata crypto_sound 1000 7 [] ''Upload'' ''shop'' ''v1'' []))))
      {replicate 32 0} AuthConfig_default
      (snd (verify_upload_metadata crypto_sound 5000 (snd (attach_auth_metadata crypto_sound 1000 7 [] ''Upload'' ''shop'' ''v1'' []))
         {replicate 32 0} AuthConfig_default []))) = Inr ()"
proof -
  have t: "trim ''shop'' = ''shop''" by (rule trim_solid) (simp_all add: solid_char_def)
  have "normalize_project_for_signing ''shop'' = ''shop''"
    by (simp add: normalize_project_for_signing_def t eq_ignore_ascii_case_def to_ascii_lowercase_def ascii_lower_def Let_def)
  then show ?thesis
    using upload_project_confusion [OF crypto_sound_ok, of "[]" "{replicate 32 0}" 5000 1000 AuthConfig_default "''shop''" "''v1''" "[]" 7]
    by (simp add: crypto_sound_def [THEN arg_cong, of ac_public] AuthConfig_default_def i64_range_def i64_min_def i64_max_def printable_def)
qed

lemma flush_forgets:
  assumes "0 \<le> now" "now < 2 ^ 62" "0 \<le> t" "t < 2 ^ 62" "t \<noteq> now"
  shows "\<not> i64_abs (i64_sub (now - 2 ^ 63) t) \<le> WINDOW_MS"
proof (cases "t < now")
  case True
  have "i64_sub (now - 2 ^ 63) t = now - t - 2 ^ 63"
    unfolding i64_sub_def using i64_wrap_id [of "now - t - 2 ^ 63"] assms True
    by (simp add: i64_range_def i64_min_def i64_max_def algebra_simps)
  then show ?thesis using i64_abs_id [of "now - t - 2 ^ 63"] assms True
    by (simp add: i64_range_def i64_min_def i64_max_def WINDOW_MS_def)
next
  case False
  have "i64_wrap (now - 2 ^ 63 - t) = now - t + 2 ^ 63"
    unfolding i64_wrap_def using assms False int_mod_pos_eq [of "now - t" "2 ^ 64" "-1" "now - t + 2 ^ 64"] by simp
  then show ?thesis using i64_abs_id [of "now - t + 2 ^ 63"] assms False
    by (simp add: i64_sub_def i64_range_def i64_min_def i64_max_def WINDOW_MS_def)
qed

lemma flush_skew: "i64_abs (i64_sub now (now - 2 ^ 63)) = i64_min"
  using i64_abs_min by (simp add: i64_sub_def i64_wrap_def i64_min_def)

lemma update_subset: "set (hm_insert k v m) \<subseteq> insert (k, v) (set m)"
  by (induction m) (auto simp: hm_insert_def)

lemma nonce_table_subset: "set (snd (nonce_check_and_insert tr t n)) \<subseteq> insert (n, t) (set tr)"
  using update_subset [of n t "[]"]
    update_subset [of n t "hm_retain (\<lambda>_ t'. i64_abs (i64_sub t t') \<le> WINDOW_MS) tr"]
  by (auto simp: nonce_check_and_insert_def Let_def hm_retain_def)

lemma tracker_flush:
  assumes t: "0 \<le> now" "now < 2 ^ 62" and n: "n \<noteq> []" "length n \<le> 128"
    and old: "list_all (\<lambda>(k, t). 0 \<le> t \<and> t < 2 ^ 62 \<and> t \<noteq> now) tr"
  shows "nonce_check_and_insert tr (now - 2 ^ 63) n = (Inr (), [(n, now - 2 ^ 63)])"
proof -
  have "hm_retain (\<lambda>_ t. i64_abs (i64_sub (now - 2 ^ 63) t) \<le> WINDOW_MS) tr = []"
    unfolding hm_retain_def filter_empty_conv using flush_forgets [OF t] old by (fastforce simp: list_all_iff)
  with n show ?thesis by (simp add: nonce_check_and_insert_def Let_def hm_contains_def hm_len_def hm_insert_def)
qed

text \<open>
  C35: Replay after a flush. The comparison of clocks wraps, so a timestamp exactly $2^{63}$ milliseconds before
  the server's clock passes the skew check, and the tracker then sees every recorded nonce as too old. Such a
  request needs no authorised key: it is refused with \<^const>\<open>UnknownPeer\<close>, but it has emptied the tracker, and
  a request recorded earlier is accepted a second time.
\<close>

theorem replay_after_flush:
  fixes meth meth' payload :: string
  assumes C: "auth_crypto_ok A" and peer: "ac_public A sk \<in> peers" and cfg: "\<not> allow_unauthenticated cfg"
    and clock: "\<bar>now - ts\<bar> \<le> max_clock_skew_ms cfg" "\<bar>now2 - ts\<bar> \<le> max_clock_skew_ms cfg" "max_clock_skew_ms cfg \<le> i64_max"
      "0 \<le> ts" "ts < 2 ^ 62" "0 \<le> now1" "now1 < 2 ^ 62" "ts \<noteq> now1"
    and tr: "hm_ok tr" "hm_get tr (hex16 rnd) = None" "list_all (\<lambda>(k, t). 0 \<le> t \<and> t < 2 ^ 62 \<and> t \<noteq> now1) tr"
    and pr: "printable secondary" "printable project"
    and z: "meta_text A z META_PUBKEY = Some pk" "parse_verifying_key_b64 A pk = Inr vk" "vk \<notin> peers"
      "meta_text A z META_TS = Some (show_int (now1 - 2 ^ 63))" "meta_text A z META_SIG = Some sig"
      "meta_text A z META_NONCE = Some n" "n \<noteq> []" "length n \<le> 128" "n \<noteq> hex16 rnd"
  defines "m \<equiv> snd (attach_auth_metadata A ts rnd sk meth project secondary [])"
  defines "v0 \<equiv> verify_rpc_metadata A now m peers meth (signing_payload meth project secondary) cfg tr"
  defines "v1 \<equiv> verify_rpc_metadata A now1 z peers meth' payload cfg (snd v0)"
  defines "v2 \<equiv> verify_rpc_metadata A now2 m peers meth (signing_payload meth project secondary) cfg (snd v1)"
  shows "fst v0 = Inr () \<and> fst v1 = Inl UnknownPeer \<and> fst v2 = Inr ()"
proof -
  note f = attach_fields [OF C pr, of ts rnd sk meth, folded m_def]
  have r: "i64_range ts" "i64_range (now1 - 2 ^ 63)" "\<bar>now - ts\<bar> \<le> i64_max" "\<bar>now2 - ts\<bar> \<le> i64_max"
    using clock by (simp_all add: i64_range_def i64_min_def i64_max_def)
  have v: "fst (verify_rpc_metadata A t m peers meth (signing_payload meth project secondary) cfg s) = Inr ()"
    if "t = now \<or> t = now2" "hm_ok s" "hm_get s (hex16 rnd) = None" for t s
    using that clock r by (intro verify_signed [OF C peer _ _ r(1) f(2-5) _ _ that(3,2)]) auto
  obtain a s where nc: "nonce_check_and_insert tr ts (hex16 rnd) = (a, s)" by fastforce
  have "snd v0 = s \<or> snd v0 = tr"
    by (cases a) (simp_all add: v0_def verify_rpc_metadata_def need_text_def f parse_i64_show_int r nc)
  with nonce_table_subset [of tr ts "hex16 rnd"] have "set (snd v0) \<subseteq> insert (hex16 rnd, ts) (set tr)" by (auto simp: nc)
  then have "list_all (\<lambda>(k, t). 0 \<le> t \<and> t < 2 ^ 62 \<and> t \<noteq> now1) (snd v0)"
    using tr(3) clock by (fastforce simp: list_all_iff)
  from tracker_flush [OF clock(6,7) z(7,8) this]
  have v1: "v1 = (Inl UnknownPeer, [(n, now1 - 2 ^ 63)])"
    using cfg clock r z
    by (simp add: v1_def verify_rpc_metadata_def need_text_def parse_i64_show_int flush_skew [simplified] i64_min_def verify_peer_def)
  have "fst v0 = Inr ()" unfolding v0_def using tr by (intro v) auto
  moreover have "fst v2 = Inr ()" unfolding v2_def v1 using z(9) by (intro v) (auto simp: hm_ok_def hm_get_def)
  ultimately show ?thesis by (simp add: v1)
qed

definition flush_example :: metadata where
  "flush_example = [(META_PUBKEY, unary_encode (replicate 32 1)), (META_TS, show_int (2000 - 2 ^ 63)),
     (META_NONCE, ''z''), (META_SIG, [])]"

theorem replay_after_flush_witness:
  "fst (verify_rpc_metadata crypto_sound 3000 (snd (attach_auth_metadata crypto_sound 1000 7 [] ''GetStatus'' [] [] []))
      {replicate 32 0} ''GetStatus'' (signing_payload ''GetStatus'' [] []) AuthConfig_default
      (snd (verify_rpc_metadata crypto_sound 2000 flush_example {replicate 32 0} ''GetStatus'' [] AuthConfig_default
        (snd (verify_rpc_metadata crypto_sound 1000 (snd (attach_auth_metadata crypto_sound 1000 7 [] ''GetStatus'' [] [] []))
          {replicate 32 0} ''GetStatus'' (signing_payload ''GetStatus'' [] []) AuthConfig_default []))))) = Inr ()"
proof -
  have s: "list_all solid_char (unary_encode b)" for b
    using crypto_sound_ok by (simp add: auth_crypto_ok_def crypto_sound_def)
  have k: "parse_verifying_key_b64 crypto_sound (unary_encode (replicate 32 1)) = Inr (replicate 32 1)"
    using trim_all_solid [OF s] by (simp add: parse_verifying_key_b64_def crypto_sound_def unary_decode_encode)
  have z: "meta_text crypto_sound flush_example META_PUBKEY = Some (unary_encode (replicate 32 1))"
    "meta_text crypto_sound flush_example META_TS = Some (show_int (2000 - 2 ^ 63))"
    "meta_text crypto_sound flush_example META_SIG = Some []" "meta_text crypto_sound flush_example META_NONCE = Some ''z''"
    by (simp_all add: meta_text_def flush_example_def hm_get_def meta_names crypto_sound_def)
  have n: "''z'' \<noteq> hex16 7" using length_hex16 [of 7] by (metis One_nat_def length_Cons list.size(3) numeral_eq_one_iff semiring_norm(85))
  have u: "replicate 32 1 \<noteq> (replicate 32 0 :: bytes)" by simp
  show ?thesis
    using replay_after_flush [OF crypto_sound_ok, of "[]" "{replicate 32 0}" AuthConfig_default 1000 1000 3000 2000 "[]" 7 "[]" "[]"
        flush_example _ _ "[]" "''z''" "''GetStatus''" "''GetStatus''" "[]"] k z n u
    by (simp add: crypto_sound_def [THEN arg_cong, of ac_public] AuthConfig_default_def i64_max_def)
qed

end
