(* ===== verification/Proxy_Session.thy ===== *)
theory Proxy_Session
  imports Rust_Text
begin

text \<open>
  Managed proxy sessions (\<^verbatim>\<open>server/src/proxy_session.rs\<close>): the stored policy, the weekly access
  schedule, the traffic limits, the wall-clock and the active-time budget, and the device cap. Time zone
  data is third-party: \<open>tz_parse\<close> and \<open>to_local\<close> are arguments, a local time is its ISO weekday and the
  nanosecond of the day. Instants of the wall clock are milliseconds since the epoch. The theory shows
  what each limit means, that limits once hit stay hit while counters grow, and where a stored value
  defeats its limit.
\<close>

section \<open>Stored policy\<close>

record StoredAccessWindow =
  aw_days :: "u32 list"
  aw_start :: string
  aw_end :: string

record StoredAccessSchedule =
  as_timezone :: string
  as_windows :: "StoredAccessWindow list"

record StoredPolicy =
  sp_max_session_duration_sec :: "u64 option"
  sp_traffic_total_bytes :: "u64 option"
  sp_traffic_bytes_in_limit :: "u64 option"
  sp_traffic_bytes_out_limit :: "u64 option"
  sp_active_idle_timeout_sec :: "u32 option"
  sp_access_schedule :: "StoredAccessSchedule option"
  sp_never_expires :: bool
  sp_limit_duration_by_active_time :: bool
  sp_max_concurrent_devices_per_session :: "u32 option"

text \<open>The protobuf policy: the same fields, the two flags optional.\<close>

record ProxyConnectionPolicy =
  pc_max_session_duration_sec :: "u64 option"
  pc_traffic_total_bytes :: "u64 option"
  pc_traffic_bytes_in_limit :: "u64 option"
  pc_traffic_bytes_out_limit :: "u64 option"
  pc_active_idle_timeout_sec :: "u32 option"
  pc_access_schedule :: "StoredAccessSchedule option"
  pc_never_expires :: "bool option"
  pc_limit_duration_by_active_time :: "bool option"
  pc_max_concurrent_devices_per_session :: "u32 option"

definition unwrap_or :: "'a option \<Rightarrow> 'a \<Rightarrow> 'a" where
  "unwrap_or x0 d = (case x0 of None \<Rightarrow> d | Some x \<Rightarrow> x)"

definition policy_from_proto :: "ProxyConnectionPolicy \<Rightarrow> StoredPolicy" where
  "policy_from_proto p = \<lparr>
     sp_max_session_duration_sec = pc_max_session_duration_sec p,
     sp_traffic_total_bytes = pc_traffic_total_bytes p,
     sp_traffic_bytes_in_limit = pc_traffic_bytes_in_limit p,
     sp_traffic_bytes_out_limit = pc_traffic_bytes_out_limit p,
     sp_active_idle_timeout_sec = pc_active_idle_timeout_sec p,
     sp_access_schedule = pc_access_schedule p,
     sp_never_expires = unwrap_or (pc_never_expires p) False,
     sp_limit_duration_by_active_time = unwrap_or (pc_limit_duration_by_active_time p) False,
     sp_max_concurrent_devices_per_session = pc_max_concurrent_devices_per_session p\<rparr>"

section \<open>Device cap\<close>

definition parse_u32 :: "string \<Rightarrow> u32 option" where
  "parse_u32 s = map_option word_of_nat (parse_unsigned (2 ^ 32 - 1) s)"

text \<open>Environment variables are arguments: the value when it is set.\<close>

definition default_max_devices_per_session_from_env :: "string option \<Rightarrow> u32" where
  "default_max_devices_per_session_from_env env =
    (case Option.bind env parse_u32 of None \<Rightarrow> 10 | Some n \<Rightarrow> if 0 < n then n else 10)"

definition effective_max_concurrent_devices_per_session :: "string option \<Rightarrow> string option \<Rightarrow> StoredPolicy \<Rightarrow> u32" where
  "effective_max_concurrent_devices_per_session default_env cap_env p =
    (let v = (case sp_max_concurrent_devices_per_session p of
                None \<Rightarrow> default_max_devices_per_session_from_env default_env
              | Some n \<Rightarrow> if n = 0 then 0 else n) in
     case cap_env of
       None \<Rightarrow> v
     | Some cap_s \<Rightarrow>
        (case parse_u32 cap_s of
           None \<Rightarrow> v
         | Some cap \<Rightarrow> if 0 < cap then min v cap else v))"

definition idle_timeout_sec :: "StoredPolicy \<Rightarrow> u64" where
  "idle_timeout_sec p = ucast (max (unwrap_or (sp_active_idle_timeout_sec p) 60) 1)"

section \<open>Access schedule\<close>

datatype status = InvalidArgument string | ResourceExhausted string | Internal string | PermissionDenied string
  | NotFound string | FailedPrecondition string | Unauthenticated string | Unavailable string
  | DeadlineExceeded string | AlreadyExists string | Cancelled string

text \<open>A time of day in nanoseconds; \<open>NaiveTime::from_hms_opt\<close> with zero seconds.\<close>

definition NS_PER_SEC :: nat where "NS_PER_SEC = 10 ^ 9"

definition time_from_hm :: "nat \<Rightarrow> nat \<Rightarrow> nat option" where
  "time_from_hm h m = (if h < 24 \<and> m < 60 then Some ((h * 3600 + m * 60) * NS_PER_SEC) else None)"

definition parse_hhmm :: "string \<Rightarrow> status + nat" where
  "parse_hhmm s =
    (case split_on (\<lambda>c. c = CHR '':'') (trim s) of
       [a, b] \<Rightarrow>
        (case parse_u32 a of
           None \<Rightarrow> Inl (InvalidArgument ''bad hour'')
         | Some h \<Rightarrow>
            (case parse_u32 b of
               None \<Rightarrow> Inl (InvalidArgument ''bad minute'')
             | Some m \<Rightarrow>
                (case time_from_hm (unat h) (unat m) of
                   None \<Rightarrow> Inl (InvalidArgument ''invalid time'')
                 | Some t \<Rightarrow> Inr t)))
     | _ \<Rightarrow> Inl (InvalidArgument ''time must be HH:MM''))"

definition window_contains :: "nat \<Rightarrow> string \<Rightarrow> string \<Rightarrow> status + bool" where
  "window_contains t start end_s =
    (case parse_hhmm start of
       Inl e \<Rightarrow> Inl e
     | Inr st \<Rightarrow>
        (case parse_hhmm end_s of
           Inl e \<Rightarrow> Inl e
         | Inr en \<Rightarrow> if st \<le> en then Inr (st \<le> t \<and> t \<le> en) else Inr (st \<le> t \<or> t \<le> en)))"

fun schedule_loop :: "u32 \<Rightarrow> nat \<Rightarrow> StoredAccessWindow list \<Rightarrow> status + bool" where
  "schedule_loop weekday t [] = Inr False"
| "schedule_loop weekday t (w # ws) =
    (if weekday \<notin> set (aw_days w) then schedule_loop weekday t ws
     else case window_contains t (aw_start w) (aw_end w) of
         Inl e \<Rightarrow> Inl e
       | Inr True \<Rightarrow> Inr True
       | Inr False \<Rightarrow> schedule_loop weekday t ws)"

definition schedule_allowed ::
    "(string \<Rightarrow> 'tz option) \<Rightarrow> 'tz \<Rightarrow> ('tz \<Rightarrow> int \<Rightarrow> u32 \<times> nat) \<Rightarrow> StoredAccessSchedule option \<Rightarrow> int \<Rightarrow> status + bool" where
  "schedule_allowed tz_parse utc to_local sched now =
    (case sched of
       None \<Rightarrow> Inr True
     | Some s \<Rightarrow>
        if as_windows s = [] then Inr True
        else case (if as_timezone s = [] then Some utc else tz_parse (as_timezone s)) of
            None \<Rightarrow> Inl (InvalidArgument ''invalid timezone'')
          | Some tz \<Rightarrow> (case to_local tz now of (weekday, t) \<Rightarrow> schedule_loop weekday t (as_windows s)))"

definition is_schedule_allowed_stored where
  "is_schedule_allowed_stored tz_parse utc to_local policy now =
     schedule_allowed tz_parse utc to_local (sp_access_schedule policy) now"

definition is_schedule_allowed where
  "is_schedule_allowed tz_parse utc to_local policy now =
     schedule_allowed tz_parse utc to_local (pc_access_schedule policy) now"

section \<open>Limits\<close>

definition limit_hit :: "u64 option \<Rightarrow> u64 \<Rightarrow> bool" where
  "limit_hit lim n = (case lim of None \<Rightarrow> False | Some l \<Rightarrow> 0 < l \<and> l < n)"

definition check_traffic_limits :: "StoredPolicy \<Rightarrow> u64 \<Rightarrow> u64 \<Rightarrow> status + unit" where
  "check_traffic_limits policy bytes_in bytes_out =
    (if limit_hit (sp_traffic_bytes_in_limit policy) bytes_in
     then Inl (ResourceExhausted ''proxy session inbound traffic limit'')
     else if limit_hit (sp_traffic_bytes_out_limit policy) bytes_out
     then Inl (ResourceExhausted ''proxy session outbound traffic limit'')
     else if limit_hit (sp_traffic_total_bytes policy) (u64_saturating_add bytes_in bytes_out)
     then Inl (ResourceExhausted ''proxy session total traffic limit'')
     else Inr ())"

text \<open>\<open>Duration::num_seconds\<close> rounds towards zero; \<open>as i64\<close> reads a \<open>u64\<close> in two's complement.\<close>

definition num_seconds :: "int \<Rightarrow> int" where
  "num_seconds ms = (if 0 \<le> ms then ms div 1000 else - ((- ms) div 1000))"

definition u64_as_i64 :: "u64 \<Rightarrow> int" where
  "u64_as_i64 w = i64_wrap (uint w)"

definition positive_duration :: "StoredPolicy \<Rightarrow> u64 option" where
  "positive_duration policy =
    (case sp_max_session_duration_sec policy of None \<Rightarrow> None | Some s \<Rightarrow> if 0 < s then Some s else None)"

definition max_duration_exceeded :: "StoredPolicy \<Rightarrow> int option \<Rightarrow> int \<Rightarrow> bool" where
  "max_duration_exceeded policy first_open_at now =
    (if sp_limit_duration_by_active_time policy then False
     else case positive_duration policy of
         None \<Rightarrow> False
       | Some sec \<Rightarrow>
          (case first_open_at of
             None \<Rightarrow> False
           | Some t0 \<Rightarrow> u64_as_i64 sec < num_seconds (now - t0)))"

definition active_time_budget_ms_max :: "StoredPolicy \<Rightarrow> u64 option" where
  "active_time_budget_ms_max policy =
    (if \<not> sp_limit_duration_by_active_time policy then None
     else map_option (\<lambda>sec. u64_saturating_mul sec 1000) (positive_duration policy))"

definition active_time_budget_exceeded :: "StoredPolicy \<Rightarrow> u64 \<Rightarrow> u64 \<Rightarrow> bool" where
  "active_time_budget_exceeded policy active_ms_total inflight_ms =
    (case active_time_budget_ms_max policy of
       None \<Rightarrow> False
     | Some budget \<Rightarrow> budget \<le> u64_saturating_add active_ms_total inflight_ms)"

text \<open>
  Expiry of an invitation. \<open>Duration::seconds\<close> panics outside \<open>i64::MAX / 1000\<close>, and the sum with a date
  panics outside the dates \<open>chrono\<close> represents (\<open>date_ok\<close>); \<open>None\<close> is the panic.
\<close>

definition DAY_MS :: int where "DAY_MS = 86400000"

definition duration_seconds :: "int \<Rightarrow> int option" where
  "duration_seconds sec = (if \<bar>sec\<bar> \<le> i64_max div 1000 then Some (sec * 1000) else None)"

definition date_add :: "(int \<Rightarrow> bool) \<Rightarrow> int \<Rightarrow> int \<Rightarrow> int option" where
  "date_add date_ok now d = (if date_ok (now + d) then Some (now + d) else None)"

definition expires_at_from_policy :: "(int \<Rightarrow> bool) \<Rightarrow> ProxyConnectionPolicy \<Rightarrow> int \<Rightarrow> int option" where
  "expires_at_from_policy date_ok policy now =
    (if unwrap_or (pc_never_expires policy) False then date_add date_ok now (36500 * DAY_MS)
     else case pc_max_session_duration_sec policy of
         None \<Rightarrow> date_add date_ok now (36500 * DAY_MS)
       | Some sec \<Rightarrow>
          if sec = 0 then date_add date_ok now (36500 * DAY_MS)
          else Option.bind (duration_seconds (u64_as_i64 sec)) (date_add date_ok now))"

definition client_expires_at_unix_ms :: "ProxyConnectionPolicy \<Rightarrow> int \<Rightarrow> int" where
  "client_expires_at_unix_ms policy expires_at =
    (if unwrap_or (pc_never_expires policy) False then - 1
     else if pc_max_session_duration_sec policy = None then - 1
     else expires_at)"

section \<open>Traffic limits\<close>

text \<open>A limit read as a bound on a natural number; absent and zero mean no limit.\<close>

definition within :: "u64 option \<Rightarrow> nat \<Rightarrow> bool" where
  "within lim n \<longleftrightarrow> (\<forall>l. lim = Some l \<longrightarrow> l = 0 \<or> n \<le> unat l)"

lemma limit_hit_iff: "limit_hit lim n \<longleftrightarrow> \<not> within lim (unat n)"
  by (auto simp: limit_hit_def within_def word_less_nat_alt word_neq_0_conv word_gt_0 split: option.split)

lemma within_mono: "m \<le> n \<Longrightarrow> within lim n \<Longrightarrow> within lim m"
  by (auto simp: within_def)

lemma check_traffic_ok_iff:
  "check_traffic_limits p bi bo = Inr () \<longleftrightarrow>
     within (sp_traffic_bytes_in_limit p) (unat bi) \<and> within (sp_traffic_bytes_out_limit p) (unat bo) \<and>
     within (sp_traffic_total_bytes p) (min (unat bi + unat bo) (2 ^ 64 - 1))"
  by (simp add: check_traffic_limits_def limit_hit_iff unat_u64_saturating_add)

text \<open>
  Traffic limits. The check passes exactly when the bytes received, the bytes sent and their sum
  (saturating at the largest counter value) each stay within their limit, where an absent or zero limit
  bounds nothing.
\<close>
theorem traffic_limits_exact:
  "check_traffic_limits p bi bo = Inr () \<longleftrightarrow>
     within (sp_traffic_bytes_in_limit p) (unat bi) \<and> within (sp_traffic_bytes_out_limit p) (unat bo) \<and>
     within (sp_traffic_total_bytes p) (min (unat bi + unat bo) (2 ^ 64 - 1))"
  by (rule check_traffic_ok_iff)

lemma check_traffic_mono:
  assumes "check_traffic_limits p bi bo \<noteq> Inr ()" "bi \<le> bi'" "bo \<le> bo'"
  shows "check_traffic_limits p bi' bo' \<noteq> Inr ()"
proof
  assume "check_traffic_limits p bi' bo' = Inr ()"
  then have "check_traffic_limits p bi bo = Inr ()"
    using assms(2,3) unfolding check_traffic_ok_iff word_le_nat_alt
    by (auto intro: within_mono elim!: within_mono [rotated])
  with assms(1) show False by simp
qed

section \<open>Active-time budget\<close>

lemma budget_ms: "active_time_budget_ms_max p = Some b \<Longrightarrow>
    \<exists>sec. positive_duration p = Some sec \<and> unat b = min (unat sec * 1000) (2 ^ 64 - 1)"
  by (auto simp: active_time_budget_ms_max_def unat_u64_saturating_mul split: if_splits)

lemma budget_mono:
  "active_time_budget_exceeded p a i \<Longrightarrow> a \<le> a' \<Longrightarrow> i \<le> i' \<Longrightarrow> active_time_budget_exceeded p a' i'"
  by (auto simp: active_time_budget_exceeded_def word_le_nat_alt unat_u64_saturating_add split: option.splits)

text \<open>
  Active-time budget. Under a policy that counts active time, the budget is used up exactly when the
  persisted and the current active milliseconds together reach the allowed seconds (computed without
  overflow), and a policy without that flag or without a positive duration never runs out.
\<close>
theorem active_budget_exact:
  "active_time_budget_exceeded p a i \<longleftrightarrow>
     sp_limit_duration_by_active_time p \<and>
     (\<exists>sec. sp_max_session_duration_sec p = Some sec \<and> 0 < sec \<and>
        min (unat sec * 1000) (2 ^ 64 - 1) \<le> min (unat a + unat i) (2 ^ 64 - 1))"
  by (auto simp: active_time_budget_exceeded_def active_time_budget_ms_max_def positive_duration_def
      word_le_nat_alt unat_u64_saturating_add unat_u64_saturating_mul split: option.splits)

section \<open>Wall-clock duration\<close>

lemma i64_wrap_small: "n < 2 ^ 63 \<Longrightarrow> i64_wrap (int n) = int n"
  by (rule i64_wrap_id) (auto simp: i64_range_def i64_min_def i64_max_def)

lemma i64_wrap_large: "2 ^ 63 \<le> n \<Longrightarrow> n < 2 ^ 64 \<Longrightarrow> i64_wrap (int n) < 0"
  by (simp add: i64_wrap_def mod_pos_geq)

lemma u64_as_i64_unat: "u64_as_i64 sec = i64_wrap (int (unat sec))"
  by (simp add: u64_as_i64_def)

lemma u64_as_i64_small: "unat sec < 2 ^ 63 \<Longrightarrow> u64_as_i64 sec = int (unat sec)"
  unfolding u64_as_i64_unat by (rule i64_wrap_small)

lemma u64_less: "unat (w :: u64) < 2 ^ 64"
  using unsigned_less [of w, where 'a = nat] by simp

lemma u64_as_i64_large: "2 ^ 63 \<le> unat sec \<Longrightarrow> u64_as_i64 sec < 0"
  unfolding u64_as_i64_unat by (rule i64_wrap_large [OF _ u64_less])

text \<open>
  Session duration. Under a wall-clock policy with a positive duration below $2^{63}$ seconds, a session
  opened at \<open>t0\<close> is over exactly when more than that many whole seconds have passed. A longer duration is
  read as a negative number, so the session counts as over from the moment it is opened.
\<close>
theorem max_duration_meaning:
  assumes "\<not> sp_limit_duration_by_active_time p" "sp_max_session_duration_sec p = Some sec" "0 < sec" "t0 \<le> now"
  shows "max_duration_exceeded p (Some t0) now \<longleftrightarrow>
    (if unat sec < 2 ^ 63 then int (unat sec) * 1000 + 1000 \<le> now - t0 else True)"
proof -
  have "max_duration_exceeded p (Some t0) now \<longleftrightarrow> u64_as_i64 sec < (now - t0) div 1000"
    using assms by (simp add: max_duration_exceeded_def positive_duration_def num_seconds_def)
  moreover have "u64_as_i64 sec < (now - t0) div 1000" if "2 ^ 63 \<le> unat sec"
  proof -
    have "0 \<le> (now - t0) div 1000" using assms(4) by simp
    with u64_as_i64_large [OF that] show ?thesis by linarith
  qed
  moreover have "u64_as_i64 sec < (now - t0) div 1000 \<longleftrightarrow> int (unat sec) * 1000 + 1000 \<le> now - t0" if "unat sec < 2 ^ 63"
    unfolding u64_as_i64_small [OF that] by linarith
  ultimately show ?thesis by (cases "unat sec < 2 ^ 63") simp_all
qed

text \<open>A policy with every limit absent, for the examples.\<close>

definition policy_none :: StoredPolicy where
  "policy_none = \<lparr>sp_max_session_duration_sec = None, sp_traffic_total_bytes = None,
     sp_traffic_bytes_in_limit = None, sp_traffic_bytes_out_limit = None, sp_active_idle_timeout_sec = None,
     sp_access_schedule = None, sp_never_expires = False, sp_limit_duration_by_active_time = False,
     sp_max_concurrent_devices_per_session = None\<rparr>"

theorem max_duration_meaning_witness:
  "max_duration_exceeded (policy_none\<lparr>sp_max_session_duration_sec := Some 10\<rparr>) (Some 0) 11000 \<longleftrightarrow>
    (if unat (10 :: u64) < 2 ^ 63 then int (unat (10 :: u64)) * 1000 + 1000 \<le> 11000 - 0 else True)"
  by (rule max_duration_meaning) (simp_all add: policy_none_def)

section \<open>Schedule\<close>

text \<open>Membership in a window of the day; a window whose end is before its start spans midnight.\<close>

definition in_window :: "nat \<Rightarrow> StoredAccessWindow \<Rightarrow> bool" where
  "in_window t w \<longleftrightarrow> (\<exists>st en. parse_hhmm (aw_start w) = Inr st \<and> parse_hhmm (aw_end w) = Inr en \<and>
      (if st \<le> en then st \<le> t \<and> t \<le> en else st \<le> t \<or> t \<le> en))"

definition window_ok :: "StoredAccessWindow \<Rightarrow> bool" where
  "window_ok w \<longleftrightarrow> (\<exists>st en. parse_hhmm (aw_start w) = Inr st \<and> parse_hhmm (aw_end w) = Inr en)"

lemma window_contains_in: "window_ok w \<Longrightarrow> window_contains t (aw_start w) (aw_end w) = Inr (in_window t w)"
  by (auto simp: window_ok_def window_contains_def in_window_def)

lemma schedule_loop_ok:
  "\<forall>w \<in> set ws. window_ok w \<Longrightarrow>
     schedule_loop wd t ws = Inr (\<exists>w \<in> set ws. wd \<in> set (aw_days w) \<and> in_window t w)"
proof (induction ws)
  case (Cons w ws)
  then show ?case by (cases "in_window t w") (simp_all add: window_contains_in)
qed simp

text \<open>
  Access schedule. With a known time zone and well-formed window times, access is allowed exactly
  when some window lists the local weekday and contains the local time, both ends included; windows may
  span midnight. A policy without a schedule, or with no windows, always allows.
\<close>
theorem schedule_exact:
  assumes "sp_access_schedule p = Some s" "as_windows s \<noteq> []" "\<forall>w \<in> set (as_windows s). window_ok w"
    and "(if as_timezone s = [] then Some utc else tz_parse (as_timezone s)) = Some tz" "to_local tz now = (wd, t)"
  shows "is_schedule_allowed_stored tz_parse utc to_local p now =
    Inr (\<exists>w \<in> set (as_windows s). wd \<in> set (aw_days w) \<and> in_window t w)"
  using assms schedule_loop_ok [OF assms(3), of wd t]
  by (simp add: is_schedule_allowed_stored_def schedule_allowed_def split: if_splits)

theorem schedule_exact_witness:
  "is_schedule_allowed_stored (\<lambda>_. None) () (\<lambda>_ _. (5, 0))
     (policy_none\<lparr>sp_access_schedule := Some \<lparr>as_timezone = [], as_windows = [\<lparr>aw_days = [5], aw_start = ''22:00'', aw_end = ''6:00''\<rparr>]\<rparr>\<rparr>) 0
   = Inr (\<exists>w \<in> set [\<lparr>aw_days = [5], aw_start = ''22:00'', aw_end = ''6:00''\<rparr>]. (5 :: u32) \<in> set (aw_days w) \<and> in_window 0 w)"
proof -
  define w :: StoredAccessWindow where "w = \<lparr>aw_days = [5], aw_start = ''22:00'', aw_end = ''6:00''\<rparr>"
  have n: "parse_u32 ''22'' = Some 22" "parse_u32 ''00'' = Some 0" "parse_u32 ''6'' = Some 6"
    by (simp_all add: parse_u32_def parse_unsigned_def strip_plus_def digit_val_def)
  have "trim ''22:00'' = ''22:00''" "trim ''6:00'' = ''6:00''" by (rule trim_solid; simp add: solid_char_def)+
  then have "window_ok w" by (simp add: window_ok_def w_def parse_hhmm_def n time_from_hm_def)
  note ok = this
  show ?thesis
    unfolding w_def [symmetric]
    using schedule_exact [of "policy_none\<lparr>sp_access_schedule := Some \<lparr>as_timezone = [], as_windows = [w]\<rparr>\<rparr>"
        "\<lparr>as_timezone = [], as_windows = [w]\<rparr>" "()" "\<lambda>_. None" "()" "\<lambda>_ _. (5, 0)" 0 5 0] ok
    by (simp add: policy_none_def)
qed

section \<open>Device cap\<close>

lemma default_devices_pos: "0 < default_max_devices_per_session_from_env env"
  by (auto simp: default_max_devices_per_session_from_env_def split: option.splits)

text \<open>
  Device cap. With a positive operator cap, the effective number of concurrent tunnels is positive and
  at most the cap, unless the policy itself says zero: then the result is zero, which the registry reads
  as unlimited, so a policy of zero escapes the operator's cap.
\<close>
theorem device_cap:
  assumes "parse_u32 cap_s = Some cap" "0 < cap"
  shows "if sp_max_concurrent_devices_per_session p = Some 0
    then effective_max_concurrent_devices_per_session d (Some cap_s) p = 0
    else 0 < effective_max_concurrent_devices_per_session d (Some cap_s) p \<and>
         effective_max_concurrent_devices_per_session d (Some cap_s) p \<le> cap"
  using assms default_devices_pos [of d]
  by (auto simp: effective_max_concurrent_devices_per_session_def Let_def min_def word_gt_0 split: option.split)

theorem device_cap_witness:
  "if sp_max_concurrent_devices_per_session (policy_none\<lparr>sp_max_concurrent_devices_per_session := Some 0\<rparr>) = Some 0
    then effective_max_concurrent_devices_per_session None (Some ''3'')
      (policy_none\<lparr>sp_max_concurrent_devices_per_session := Some 0\<rparr>) = 0
    else 0 < effective_max_concurrent_devices_per_session None (Some ''3'')
        (policy_none\<lparr>sp_max_concurrent_devices_per_session := Some 0\<rparr>) \<and>
      effective_max_concurrent_devices_per_session None (Some ''3'')
        (policy_none\<lparr>sp_max_concurrent_devices_per_session := Some 0\<rparr>) \<le> 3"
proof (rule device_cap)
  show "parse_u32 ''3'' = Some 3" by (simp add: parse_u32_def parse_unsigned_def strip_plus_def digit_val_def)
qed simp

end
