(* ===== verification/Server_Auth.thy ===== *)
theory Server_Auth
  imports Auth_Trust Proxy_Session
begin

text \<open>
  Pairing (\<^verbatim>\<open>server/src/auth.rs\<close>, the \<open>pair\<close> handler of \<^verbatim>\<open>deploy_service.rs\<close> and \<open>run_pair\<close> of the client):
  a client that knows the pairing code proves possession of its key and becomes an authorised peer; the
  server answers with a signature of its own. The pairing file and the peers file are outcomes given as
  arguments; the audit log of the session hub is left out. The theory shows that a pairing succeeds, is
  verified by the client and authorises its later requests whatever calls and pairings come between, and that no key is authorised otherwise.
\<close>

section \<open>Server state\<close>

fun auth_error_string :: "AuthError \<Rightarrow> string" where
  "auth_error_string (InvalidBase64 e) = ''invalid base64: '' @ e"
| "auth_error_string InvalidKeyLength = ''invalid key length''"
| "auth_error_string BadSignature = ''signature verification failed''"
| "auth_error_string UnknownPeer = ''unknown client public key''"
| "auth_error_string (MissingMetadata k) = ''missing metadata: '' @ k"
| "auth_error_string (InvalidMetadata e) = ''invalid metadata: '' @ e"
| "auth_error_string TimestampSkew = ''timestamp skew too large''"
| "auth_error_string ReplayNonce = ''replay: nonce reused''"
| "auth_error_string PairingCode = ''pairing code invalid or expired''"
| "auth_error_string (Io e) = ''io: '' @ e"
| "auth_error_string (Json e) = ''json: '' @ e"

record ServerAuth =
  sa_signing_key :: bytes
  sa_server_pubkey_b64 :: string
  sa_peers :: "bytes set"
  sa_pairing_code :: string
  sa_nonce_tracker :: NonceTracker
  sa_config :: AuthConfig

text \<open>The state at start: identity, peers and code come from files; with authentication off there is none.\<close>

definition server_auth_init ::
    "auth_crypto \<Rightarrow> bool \<Rightarrow> AuthError + bytes \<Rightarrow> AuthError + bytes set \<Rightarrow> AuthError + string \<Rightarrow> AuthError + ServerAuth option" where
  "server_auth_init A allow identity peers code =
    (if allow then Inr None
     else case identity of Inl e \<Rightarrow> Inl e | Inr sk \<Rightarrow>
       (case peers of Inl e \<Rightarrow> Inl e | Inr ps \<Rightarrow>
       (case code of Inl e \<Rightarrow> Inl e | Inr c \<Rightarrow> Inr (Some
          \<lparr>sa_signing_key = sk, sa_server_pubkey_b64 = pubkey_b64_url A sk, sa_peers = ps, sa_pairing_code = c,
           sa_nonce_tracker = [], sa_config = AuthConfig_default\<rparr>))))"

text \<open>The pairing file: absent, unreadable, or its text.\<close>

definition reload_pairing_code :: "(string + string) option \<Rightarrow> ServerAuth \<Rightarrow> (string + unit) \<times> ServerAuth" where
  "reload_pairing_code file s = (case file of
      None \<Rightarrow> (Inr (), s)
    | Some (Inl e) \<Rightarrow> (Inl e, s)
    | Some (Inr t) \<Rightarrow> (Inr (), s\<lparr>sa_pairing_code := trim t\<rparr>))"

definition verify_pairing :: "ServerAuth \<Rightarrow> string \<Rightarrow> status + unit" where
  "verify_pairing s code =
    (if sa_pairing_code s = [] then Inl (PermissionDenied ''pairing code not configured'')
     else if code \<noteq> sa_pairing_code s then Inl (PermissionDenied ''invalid pairing code'')
     else Inr ())"

text \<open>The key is inserted first; a failing save is reported but the key stays.\<close>

definition add_peer :: "auth_crypto \<Rightarrow> AuthError option \<Rightarrow> string \<Rightarrow> ServerAuth \<Rightarrow> (status + unit) \<times> ServerAuth" where
  "add_peer A save_error vk_b64 s = (case parse_verifying_key_b64 A vk_b64 of
      Inl e \<Rightarrow> (Inl (InvalidArgument (auth_error_string e)), s)
    | Inr vk \<Rightarrow>
       (case save_error of None \<Rightarrow> Inr () | Some e \<Rightarrow> Inl (Internal (auth_error_string e)),
        s\<lparr>sa_peers := insert vk (sa_peers s)\<rparr>))"

definition verify_pair_signature ::
    "auth_crypto \<Rightarrow> string \<Rightarrow> string \<Rightarrow> int \<Rightarrow> string \<Rightarrow> string \<Rightarrow> string \<Rightarrow> status + unit" where
  "verify_pair_signature A client_pub server_pub ts_ms nonce code client_sig =
    (case parse_verifying_key_b64 A client_pub of
       Inl e \<Rightarrow> Inl (InvalidArgument (auth_error_string e))
     | Inr vk \<Rightarrow>
        (case verify_sig A vk (pair_request_canonical client_pub server_pub ts_ms nonce code) client_sig of
           Inl e \<Rightarrow> Inl (PermissionDenied (auth_error_string e))
         | Inr _ \<Rightarrow> Inr ()))"

definition sign_pair_response :: "auth_crypto \<Rightarrow> bytes \<Rightarrow> string \<Rightarrow> string \<Rightarrow> int \<Rightarrow> string \<Rightarrow> string" where
  "sign_pair_response A sk server_pub client_pub ts_ms nonce =
     sign_bytes A sk (pair_response_canonical server_pub client_pub ts_ms nonce)"

section \<open>The exchange\<close>

record PairRequest =
  pr_client_public_key_b64 :: string
  pr_timestamp_ms :: int
  pr_nonce :: string
  pr_pairing_code :: string
  pr_client_signature_b64 :: string

record PairResponse =
  ps_server_public_key_b64 :: string
  ps_server_signature_b64 :: string
  ps_status :: string

definition pair ::
    "auth_crypto \<Rightarrow> int \<Rightarrow> (string + string) option \<Rightarrow> AuthError option \<Rightarrow> PairRequest \<Rightarrow> ServerAuth
       \<Rightarrow> (status + PairResponse) \<times> ServerAuth" where
  "pair A now file save_error r s0 = (case reload_pairing_code file s0 of
      (Inl e, s) \<Rightarrow> (Inl (Internal e), s)
    | (Inr _, s) \<Rightarrow>
       if pr_client_public_key_b64 r = [] \<or> pr_nonce r = [] \<or> pr_client_signature_b64 r = []
       then (Inl (InvalidArgument ''missing pair fields''), s)
       else if max_clock_skew_ms (sa_config s) < i64_abs (i64_sub now (pr_timestamp_ms r))
       then (Inl (DeadlineExceeded ''timestamp skew''), s)
       else case verify_pairing s (pr_pairing_code r) of
           Inl e \<Rightarrow> (Inl e, s)
         | Inr _ \<Rightarrow>
            (case verify_pair_signature A (pr_client_public_key_b64 r) (sa_server_pubkey_b64 s) (pr_timestamp_ms r)
                    (pr_nonce r) (pr_pairing_code r) (pr_client_signature_b64 r) of
               Inl e \<Rightarrow> (Inl e, s)
             | Inr _ \<Rightarrow>
                (case add_peer A save_error (pr_client_public_key_b64 r) s of
                   (Inl e, s') \<Rightarrow> (Inl e, s')
                 | (Inr _, s') \<Rightarrow>
                    (Inr \<lparr>ps_server_public_key_b64 = sa_server_pubkey_b64 s',
                          ps_server_signature_b64 = sign_pair_response A (sa_signing_key s') (sa_server_pubkey_b64 s')
                            (pr_client_public_key_b64 r) (pr_timestamp_ms r) (pr_nonce r),
                          ps_status = ''paired''\<rparr>, s'))))"

text \<open>The handler without authentication, and the client's two halves of \<open>run_pair\<close>.\<close>

definition pair_handler ::
    "auth_crypto \<Rightarrow> int \<Rightarrow> (string + string) option \<Rightarrow> AuthError option \<Rightarrow> PairRequest \<Rightarrow> ServerAuth option
       \<Rightarrow> (status + PairResponse) \<times> ServerAuth option" where
  "pair_handler A now file save_error r auth = (case auth of
      None \<Rightarrow> (Inl (FailedPrecondition ''authentication disabled; pairing unavailable''), None)
    | Some s \<Rightarrow> map_prod (\<lambda>x. x) Some (pair A now file save_error r s))"

definition run_pair_request :: "auth_crypto \<Rightarrow> int \<Rightarrow> u64 \<Rightarrow> bytes \<Rightarrow> string \<Rightarrow> string \<Rightarrow> PairRequest" where
  "run_pair_request A now rnd sk server_pub pairing =
    (let client_pub = pubkey_b64_url A sk; nonce = hex16 rnd in
     \<lparr>pr_client_public_key_b64 = client_pub, pr_timestamp_ms = now, pr_nonce = nonce, pr_pairing_code = pairing,
      pr_client_signature_b64 = sign_bytes A sk (pair_request_canonical client_pub server_pub now nonce pairing)\<rparr>)"

definition run_pair_check :: "auth_crypto \<Rightarrow> string \<Rightarrow> PairRequest \<Rightarrow> PairResponse \<Rightarrow> AuthError + unit" where
  "run_pair_check A server_pub r resp =
     verify_pair_response A server_pub (pr_client_public_key_b64 r) (pr_timestamp_ms r) (pr_nonce r)
       (ps_server_signature_b64 resp)"

section \<open>Correctness\<close>

lemma sign_verify:
  assumes "auth_crypto_ok A"
  shows "parse_verifying_key_b64 A (pubkey_b64_url A sk) = Inr (ac_public A sk)"
    "verify_sig A (ac_public A sk) msg (sign_bytes A sk msg) = Inr ()"
  using crypto_okD [OF assms]
  by (simp_all add: parse_verifying_key_b64_def pubkey_b64_url_def verify_sig_def sign_bytes_def trim_all_solid)

lemma sign_nonempty:
  assumes A: "auth_crypto_ok A"
  shows "sign_bytes A sk msg \<noteq> []" "pubkey_b64_url A sk \<noteq> []"
proof -
  have "ac_sign A sk msg \<noteq> []" "ac_public A sk \<noteq> []"
    using crypto_okD(9) [OF A, of sk msg] crypto_okD(7) [OF A, of sk] by fastforce+
  then show "sign_bytes A sk msg \<noteq> []" "pubkey_b64_url A sk \<noteq> []"
    by (simp_all add: sign_bytes_def pubkey_b64_url_def crypto_okD(13,14) [OF A])
qed

definition server_auth_ok :: "auth_crypto \<Rightarrow> ServerAuth \<Rightarrow> bool" where
  "server_auth_ok A s \<longleftrightarrow> sa_server_pubkey_b64 s = pubkey_b64_url A (sa_signing_key s) \<and> hm_ok (sa_nonce_tracker s) \<and>
     \<not> allow_unauthenticated (sa_config s) \<and> max_clock_skew_ms (sa_config s) = 300000"

lemma server_auth_init_ok: "server_auth_init A allow i p c = Inr (Some s) \<Longrightarrow> server_auth_ok A s"
  by (auto simp: server_auth_init_def server_auth_ok_def AuthConfig_default_def split: if_split_asm sum.split_asm)

text \<open>An RPC other than pairing: the handlers call the verification and keep the tracker.\<close>

definition server_verify :: "auth_crypto \<Rightarrow> int \<Rightarrow> metadata \<Rightarrow> string \<Rightarrow> string \<Rightarrow> ServerAuth \<Rightarrow> (AuthError + unit) \<times> ServerAuth" where
  "server_verify A now m meth payload s =
    (let (r, tr) = verify_rpc_metadata A now m (sa_peers s) meth payload (sa_config s) (sa_nonce_tracker s)
     in (r, s\<lparr>sa_nonce_tracker := tr\<rparr>))"

lemma server_verify_attached:
  assumes C: "auth_crypto_ok A" and s: "server_auth_ok A s" and peer: "ac_public A sk \<in> sa_peers s"
    and clock: "\<bar>now - ts\<bar> \<le> 300000" "i64_range ts" and pr: "printable secondary" "printable project"
    and fresh: "hm_get (sa_nonce_tracker s) (hex16 rnd) = None"
  shows "fst (server_verify A now (snd (attach_auth_metadata A ts rnd sk meth project secondary [])) meth
      (signing_payload meth project secondary) s) = Inr ()"
proof -
  have "fst (verify_rpc_metadata A now (snd (attach_auth_metadata A ts rnd sk meth project secondary []))
      (sa_peers s) meth (signing_payload meth project secondary) (sa_config s) (sa_nonce_tracker s)) = Inr ()"
    using s clock fresh peer
    by (intro verify_signed [OF C _ _ _ _ attach_fields(2-5) [OF C pr]]) (auto simp: server_auth_ok_def i64_max_def)
  then show ?thesis by (simp add: server_verify_def split_beta)
qed

text \<open>The code a pairing request is compared with: that of the pairing file, when there is one.\<close>

definition current_code :: "(string + string) option \<Rightarrow> ServerAuth \<Rightarrow> string" where
  "current_code file s = (case file of Some (Inr t) \<Rightarrow> trim t | _ \<Rightarrow> sa_pairing_code s)"

lemma pair_succeeds:
  assumes C: "auth_crypto_ok A" and s: "server_auth_ok A s"
    and code: "\<not> (\<exists>e. file = Some (Inl e))" "current_code file s = code" "code \<noteq> []" and clock: "\<bar>now - ts\<bar> \<le> 300000"
  shows "pair A now file None (run_pair_request A ts rnd sk (sa_server_pubkey_b64 s) code) s =
    (Inr \<lparr>ps_server_public_key_b64 = sa_server_pubkey_b64 s,
          ps_server_signature_b64 = sign_pair_response A (sa_signing_key s) (sa_server_pubkey_b64 s) (pubkey_b64_url A sk) ts (hex16 rnd),
          ps_status = ''paired''\<rparr>, s\<lparr>sa_pairing_code := code, sa_peers := insert (ac_public A sk) (sa_peers s)\<rparr>)"
proof -
  have r: "reload_pairing_code file s = (Inr (), s\<lparr>sa_pairing_code := code\<rparr>)"
    using code by (auto simp: reload_pairing_code_def current_code_def split: option.split sum.split)
  have d: "i64_abs (i64_sub now ts) \<le> 300000" using clock by (simp add: i64_abs_diff i64_max_def)
  show ?thesis using s code(3) d
    by (simp add: pair_def r run_pair_request_def Let_def sign_nonempty [OF C] verify_pairing_def verify_pair_signature_def
        sign_verify [OF C] add_peer_def server_auth_ok_def)
qed

text \<open>What happens to the authentication state of a running server: pairing requests and verified or refused calls.\<close>

inductive auth_step :: "auth_crypto \<Rightarrow> ServerAuth \<Rightarrow> ServerAuth \<Rightarrow> bool" for A where
  auth_pair: "auth_step A s (snd (pair A now file save_error r s))"
| auth_call: "auth_step A s (snd (server_verify A now m meth payload s))"

lemma pair_state:
  obtains ps c where "snd (pair A now file save_error r s) = s\<lparr>sa_peers := ps, sa_pairing_code := c\<rparr>" "sa_peers s \<subseteq> ps"
proof -
  obtain e s1 where rl: "reload_pairing_code file s = (e, s1)" by fastforce
  then have s1: "s1 = s\<lparr>sa_pairing_code := current_code file s\<rparr>"
    by (auto simp: reload_pairing_code_def current_code_def split: option.split_asm sum.split_asm)
  have "snd (pair A now file save_error r s) \<in> {s1, snd (add_peer A save_error (pr_client_public_key_b64 r) s1)}"
    by (simp add: pair_def rl split: sum.split prod.split)
  moreover have "snd (add_peer A save_error (pr_client_public_key_b64 r) s1) = s1 \<or>
      (\<exists>vk. snd (add_peer A save_error (pr_client_public_key_b64 r) s1) = s1\<lparr>sa_peers := insert vk (sa_peers s1)\<rparr>)"
    by (auto simp: add_peer_def split: sum.split)
  ultimately consider "snd (pair A now file save_error r s) = s1" | vk where "snd (pair A now file save_error r s) = s1\<lparr>sa_peers := insert vk (sa_peers s1)\<rparr>"
    by (metis empty_iff insert_iff)
  then show thesis
  proof cases
    case 1
    then show thesis using that [of "current_code file s" "sa_peers s"] by (simp add: s1)
  next
    case (2 vk)
    then show thesis using that [of "current_code file s" "insert vk (sa_peers s)"] by (auto simp: s1)
  qed
qed

lemma auth_step_keeps:
  assumes "auth_step A s s'" "server_auth_ok A s"
  shows "server_auth_ok A s' \<and> sa_peers s \<subseteq> sa_peers s'"
  using assms(1)
proof cases
  case (auth_pair now f save_error r)
  obtain ps c where "snd (pair A now f save_error r s) = s\<lparr>sa_peers := ps, sa_pairing_code := c\<rparr>" "sa_peers s \<subseteq> ps"
    by (rule pair_state)
  then show ?thesis using assms(2) auth_pair by (simp add: server_auth_ok_def)
next
  case (auth_call now m meth payload)
  let ?tr = "snd (verify_rpc_metadata A now m (sa_peers s) meth payload (sa_config s) (sa_nonce_tracker s))"
  have "hm_ok ?tr"
  proof (cases rule: verify_tracker [where A = A and now = now and m = m and peers = "sa_peers s" and meth = meth and payload = payload and cfg = "sa_config s" and tr = "sa_nonce_tracker s"])
    case (checked t n)
    then show ?thesis using nonces.check_inv [of "sa_nonce_tracker s" t n] assms(2) by (simp add: nonce_check_def server_auth_ok_def)
  qed (use assms(2) in \<open>simp add: server_auth_ok_def\<close>)
  then show ?thesis using assms(2) auth_call by (simp add: server_verify_def split_beta server_auth_ok_def)
qed

lemma auth_run_keeps: "(auth_step A)\<^sup>*\<^sup>* s s' \<Longrightarrow> server_auth_ok A s \<Longrightarrow> server_auth_ok A s' \<and> sa_peers s \<subseteq> sa_peers s'"
  by (induction rule: rtranclp_induct) (use auth_step_keeps in blast)+

text \<open>
  C31: Pairing authorises. A client that has the server's public key and the code the server compares with, from its pairing file or
  from its start, pairs successfully within the clock skew when the server can read that file and save the key, and its
  check of the server's answer passes. From then on, after any further pairings and calls of anyone, the running
  server accepts every request the client attaches within the skew, for every method and payload, whose nonce is not in the tracker.
\<close>

theorem pair_then_call:
  fixes sk :: bytes and rnd :: u64
  assumes C: "auth_crypto_ok A" and s: "server_auth_ok A s"
    and code: "\<not> (\<exists>e. file = Some (Inl e))" "current_code file s = code" "code \<noteq> []" and clock: "\<bar>now - ts\<bar> \<le> 300000"
    and run: "(auth_step A)\<^sup>*\<^sup>* (snd (pair A now file None (run_pair_request A ts rnd sk (sa_server_pubkey_b64 s) code) s)) s2"
    and later: "\<bar>now' - ts'\<bar> \<le> 300000" "i64_range ts'" and pr: "printable secondary" "printable project"
    and fresh: "hm_get (sa_nonce_tracker s2) (hex16 rnd') = None"
  defines "req \<equiv> run_pair_request A ts rnd sk (sa_server_pubkey_b64 s) code"
  shows "\<exists>resp. fst (pair A now file None req s) = Inr resp \<and> run_pair_check A (sa_server_pubkey_b64 s) req resp = Inr () \<and>
    fst (server_verify A now' (snd (attach_auth_metadata A ts' rnd' sk meth project secondary [])) meth
      (signing_payload meth project secondary) s2) = Inr ()"
proof -
  note res = pair_succeeds [OF C s code clock, of rnd sk]
  let ?resp = "\<lparr>ps_server_public_key_b64 = sa_server_pubkey_b64 s,
    ps_server_signature_b64 = sign_pair_response A (sa_signing_key s) (sa_server_pubkey_b64 s) (pubkey_b64_url A sk) ts (hex16 rnd),
    ps_status = ''paired''\<rparr>"
  have chk: "run_pair_check A (sa_server_pubkey_b64 s) req ?resp = Inr ()"
    using s by (simp add: run_pair_check_def req_def run_pair_request_def Let_def verify_pair_response_def
        sign_pair_response_def sign_verify [OF C] server_auth_ok_def)
  have "server_auth_ok A (s\<lparr>sa_pairing_code := code, sa_peers := insert (ac_public A sk) (sa_peers s)\<rparr>)"
    using s by (simp add: server_auth_ok_def)
  from auth_run_keeps [OF run [unfolded res snd_conv] this] have k: "server_auth_ok A s2" "ac_public A sk \<in> sa_peers s2" by auto
  show ?thesis using chk server_verify_attached [OF C k later pr fresh] res by (simp add: req_def)
qed

definition server_example :: ServerAuth where
  "server_example = \<lparr>sa_signing_key = [], sa_server_pubkey_b64 = pubkey_b64_url crypto_sound [], sa_peers = {},
     sa_pairing_code = ''code'', sa_nonce_tracker = [], sa_config = AuthConfig_default\<rparr>"

lemma server_example_ok: "server_auth_ok crypto_sound server_example"
  by (simp add: server_auth_ok_def server_example_def AuthConfig_default_def)

text \<open>The pairing file has a newer code; before the call the server refuses one without metadata.\<close>

theorem pair_then_call_witness:
  "let req = run_pair_request crypto_sound 1000 5 [] (sa_server_pubkey_b64 server_example) ''key'';
       paired = pair crypto_sound 2000 (Some (Inr ''key'')) None req server_example;
       refused = server_verify crypto_sound 3000 [] ''Upload'' [] (snd paired) in
   (\<exists>resp. fst paired = Inr resp \<and> run_pair_check crypto_sound (sa_server_pubkey_b64 server_example) req resp = Inr ()) \<and>
   fst (server_verify crypto_sound 4000 (snd (attach_auth_metadata crypto_sound 3000 6 [] ''GetStatus'' [] [] [])) ''GetStatus''
     (signing_payload ''GetStatus'' [] []) (snd refused)) = Inr ()"
proof -
  let ?req = "run_pair_request crypto_sound 1000 5 [] (sa_server_pubkey_b64 server_example) ''key''"
  let ?p = "pair crypto_sound 2000 (Some (Inr ''key'')) None ?req server_example"
  let ?s2 = "snd (server_verify crypto_sound 3000 [] ''Upload'' [] (snd ?p))"
  have k: "trim ''key'' = ''key''" by (rule trim_solid) (simp_all add: solid_char_def)
  have p: "snd ?p = server_example\<lparr>sa_pairing_code := ''key'', sa_peers := insert (ac_public crypto_sound []) (sa_peers server_example)\<rparr>"
    using pair_succeeds [OF crypto_sound_ok server_example_ok, of "Some (Inr ''key'')" "''key''" 2000 1000 5 "[]"] k by (simp add: current_code_def)
  have f: "hm_get (sa_nonce_tracker ?s2) (hex16 6) = None"
    unfolding p
    by (simp add: server_verify_def verify_rpc_metadata_def need_text_def meta_text_def hm_get_def server_example_def AuthConfig_default_def)
  have r: "(auth_step crypto_sound)\<^sup>*\<^sup>* (snd ?p) ?s2" by (rule r_into_rtranclp, rule auth_call)
  from pair_then_call [OF crypto_sound_ok server_example_ok _ _ _ _ r, of 4000 3000 "[]" "[]" 6 "''GetStatus''"] f k
  show ?thesis by (simp add: current_code_def i64_range_def i64_min_def i64_max_def Let_def) blast
qed

text \<open>
  C36: No key is authorised otherwise. Whether or not the server can save the keys, a pairing request changes the set of
  authorised keys at most by adding one key, and only when the request's code is the server's non-empty pairing code (as the pairing file has
  it, when there is one), its timestamp passes the skew check, and the signature it carries verifies under the added
  key over the request with this server's public key. Nothing but the code and the keys changes.
\<close>

theorem pair_adds_only_proved:
  assumes "pair A now file save_error r s = (res, s')" and "sa_peers s' \<noteq> sa_peers s"
  shows "\<exists>vk raw. sa_peers s' = insert vk (sa_peers s) \<and> parse_verifying_key_b64 A (pr_client_public_key_b64 r) = Inr vk \<and>
    pr_pairing_code r \<noteq> [] \<and> pr_pairing_code r = (case file of Some (Inr t) \<Rightarrow> trim t | _ \<Rightarrow> sa_pairing_code s) \<and>
    i64_abs (i64_sub now (pr_timestamp_ms r)) \<le> max_clock_skew_ms (sa_config s) \<and>
    ac_b64_decode A (trim (pr_client_signature_b64 r)) = Inr raw \<and>
    ac_verify A vk (pair_request_canonical (pr_client_public_key_b64 r) (sa_server_pubkey_b64 s) (pr_timestamp_ms r)
      (pr_nonce r) (pr_pairing_code r)) raw \<and>
    s' = s\<lparr>sa_peers := insert vk (sa_peers s), sa_pairing_code := pr_pairing_code r\<rparr>"
proof -
  obtain e s1 where rl: "reload_pairing_code file s = (e, s1)" by fastforce
  then have s1: "s1 = s\<lparr>sa_pairing_code := (case file of Some (Inr t) \<Rightarrow> trim t | _ \<Rightarrow> sa_pairing_code s)\<rparr>"
    by (auto simp: reload_pairing_code_def split: option.split_asm sum.split_asm)
  let ?ok = "verify_pair_signature A (pr_client_public_key_b64 r) (sa_server_pubkey_b64 s1) (pr_timestamp_ms r)
      (pr_nonce r) (pr_pairing_code r) (pr_client_signature_b64 r)"
  have "sa_peers s1 = sa_peers s" by (simp add: s1)
  with assms rl have c: "verify_pairing s1 (pr_pairing_code r) = Inr ()" "?ok = Inr ()"
      "i64_abs (i64_sub now (pr_timestamp_ms r)) \<le> max_clock_skew_ms (sa_config s1)"
      "s' = snd (add_peer A save_error (pr_client_public_key_b64 r) s1)"
    by (auto simp: pair_def split: sum.split_asm prod.split_asm if_split_asm)
  then obtain vk raw where "parse_verifying_key_b64 A (pr_client_public_key_b64 r) = Inr vk"
      "ac_b64_decode A (trim (pr_client_signature_b64 r)) = Inr raw"
      "ac_verify A vk (pair_request_canonical (pr_client_public_key_b64 r) (sa_server_pubkey_b64 s1) (pr_timestamp_ms r)
      (pr_nonce r) (pr_pairing_code r)) raw"
    by (auto simp: verify_pair_signature_def verify_sig_def split: sum.split_asm if_split_asm)
  with c show ?thesis
    by (auto simp: verify_pairing_def add_peer_def s1 split: if_split_asm)
qed

theorem pair_adds_only_proved_witness:
  "\<exists>vk. sa_peers (snd (pair crypto_sound 2000 None (Some (Io ''disk full''))
      (run_pair_request crypto_sound 1000 5 [] (sa_server_pubkey_b64 server_example) ''code'') server_example)) = insert vk {}"
proof -
  let ?r = "run_pair_request crypto_sound 1000 5 [] (sa_server_pubkey_b64 server_example) ''code''"
  have "reload_pairing_code None server_example = (Inr (), server_example)" by (simp add: reload_pairing_code_def)
  moreover have "i64_abs (i64_sub 2000 1000) = 1000" by (simp add: i64_abs_diff i64_max_def)
  ultimately have p: "pair crypto_sound 2000 None (Some (Io ''disk full'')) ?r server_example =
      (Inl (Internal ''io: disk full''), server_example\<lparr>sa_peers := {replicate 32 0}\<rparr>)"
    using sign_verify [OF crypto_sound_ok] sign_nonempty [OF crypto_sound_ok]
    by (simp add: pair_def run_pair_request_def Let_def verify_pairing_def verify_pair_signature_def add_peer_def
        server_example_def AuthConfig_default_def crypto_sound_def [THEN arg_cong, of ac_public])
  have "sa_peers (server_example\<lparr>sa_peers := {replicate 32 0}\<rparr>) \<noteq> sa_peers server_example"
    by (simp add: server_example_def)
  from pair_adds_only_proved [OF p this] show ?thesis unfolding p by (auto simp: server_example_def)
qed

end
