(* ===== verification/Session_Db.thy ===== *)
theory Session_Db
  imports Proxy_Session Rust_Map
begin

text \<open>
  The managed-session tables of \<^verbatim>\<open>deploy-db/src/lib.rs\<close>: every operation on
  \<^verbatim>\<open>grpc_proxy_session\<close> and the hourly traffic buckets, as the SQL text of the source states them. A
  table is the list of its rows; dates are milliseconds, the connection pool and its failures are left to
  the callers, and a violated unique key or a sum outside \<open>BIGINT\<close> is an error that changes nothing. The
  theory shows the key invariant, that the token finds the row it was stored with, that revocation is
  final, and that traffic increments add up.
\<close>

section \<open>Rows and tables\<close>

record GrpcProxySessionRow =
  gr_session_id :: string
  gr_client_pubkey_b64 :: string
  gr_board_label :: string
  gr_token_sha256_hex :: string
  gr_subscription_token :: "string option"
  gr_created_at :: int
  gr_expires_at :: int
  gr_policy_json :: string
  gr_bytes_in :: int
  gr_bytes_out :: int
  gr_active_ms :: int
  gr_last_activity_at :: "int option"
  gr_first_open_at :: "int option"
  gr_revoked :: bool
  gr_wire_mode :: "int option"
  gr_wire_config_json :: "string option"
  gr_ingress_protocol :: "int option"
  gr_ingress_listen_port :: "int option"
  gr_ingress_listen_udp_port :: "int option"
  gr_ingress_config_json :: "string option"
  gr_ingress_tls_json :: "string option"
  gr_ingress_template_version :: int

type_synonym session_table = "GrpcProxySessionRow list"

datatype DbError = UniqueViolation | BigintRange

definition i16_wrap :: "int \<Rightarrow> int" where
  "i16_wrap x = (x + 2 ^ 15) mod 2 ^ 16 - 2 ^ 15"

text \<open>The wire and ingress columns written by insert and update.\<close>

record wire_columns =
  wc_mode :: "int option"
  wc_config_json :: "string option"

record ingress_columns =
  ic_protocol :: "int option"
  ic_listen_port :: "int option"
  ic_listen_udp_port :: "int option"
  ic_config_json :: "string option"
  ic_tls_json :: "string option"
  ic_template_version :: int

definition set_wire :: "wire_columns \<Rightarrow> GrpcProxySessionRow \<Rightarrow> GrpcProxySessionRow" where
  "set_wire w r = r\<lparr>gr_wire_mode := map_option i16_wrap (wc_mode w), gr_wire_config_json := wc_config_json w\<rparr>"

definition set_ingress :: "ingress_columns \<Rightarrow> GrpcProxySessionRow \<Rightarrow> GrpcProxySessionRow" where
  "set_ingress g r = r\<lparr>gr_ingress_protocol := ic_protocol g, gr_ingress_listen_port := ic_listen_port g,
     gr_ingress_listen_udp_port := ic_listen_udp_port g, gr_ingress_config_json := ic_config_json g,
     gr_ingress_tls_json := ic_tls_json g, gr_ingress_template_version := max (ic_template_version g) 1\<rparr>"

section \<open>Operations\<close>

definition insert_grpc_proxy_session ::
    "string \<Rightarrow> int \<Rightarrow> string \<Rightarrow> string \<Rightarrow> string \<Rightarrow> string \<Rightarrow> int \<Rightarrow> string \<Rightarrow> wire_columns \<Rightarrow> ingress_columns
       \<Rightarrow> session_table \<Rightarrow> DbError + string \<times> session_table" where
  "insert_grpc_proxy_session new_id now pubkey board token_sha256_hex subscription_token expires_at policy_json w g tbl =
    (if list_ex (\<lambda>r. gr_session_id r = new_id \<or> gr_token_sha256_hex r = token_sha256_hex
                     \<or> gr_subscription_token r = Some subscription_token) tbl
     then Inl UniqueViolation
     else Inr (new_id, tbl @ [set_ingress g (set_wire w
        \<lparr>gr_session_id = new_id, gr_client_pubkey_b64 = pubkey, gr_board_label = board,
         gr_token_sha256_hex = token_sha256_hex, gr_subscription_token = Some subscription_token,
         gr_created_at = now, gr_expires_at = expires_at, gr_policy_json = policy_json,
         gr_bytes_in = 0, gr_bytes_out = 0, gr_active_ms = 0, gr_last_activity_at = None, gr_first_open_at = None,
         gr_revoked = False, gr_wire_mode = None, gr_wire_config_json = None, gr_ingress_protocol = None,
         gr_ingress_listen_port = None, gr_ingress_listen_udp_port = None, gr_ingress_config_json = None,
         gr_ingress_tls_json = None, gr_ingress_template_version = 1\<rparr>)]))"

definition fetch_by_token_sha256 :: "session_table \<Rightarrow> string \<Rightarrow> GrpcProxySessionRow option" where
  "fetch_by_token_sha256 tbl t = find (\<lambda>r. gr_token_sha256_hex r = t) tbl"

definition fetch_by_subscription_token :: "session_table \<Rightarrow> string \<Rightarrow> GrpcProxySessionRow option" where
  "fetch_by_subscription_token tbl t = find (\<lambda>r. gr_subscription_token r = Some t) tbl"

definition fetch_by_id :: "session_table \<Rightarrow> string \<Rightarrow> string \<Rightarrow> GrpcProxySessionRow option" where
  "fetch_by_id tbl sid pubkey = find (\<lambda>r. gr_session_id r = sid \<and> gr_client_pubkey_b64 r = pubkey) tbl"

definition fetch_by_id_only :: "session_table \<Rightarrow> string \<Rightarrow> GrpcProxySessionRow option" where
  "fetch_by_id_only tbl sid = find (\<lambda>r. gr_session_id r = sid) tbl"

text \<open>\<^verbatim>\<open>UPDATE ... SET f WHERE p\<close>: the new table and the number of rows affected.\<close>

definition sql_update ::
    "(GrpcProxySessionRow \<Rightarrow> bool) \<Rightarrow> (GrpcProxySessionRow \<Rightarrow> GrpcProxySessionRow) \<Rightarrow> session_table \<Rightarrow> nat \<times> session_table" where
  "sql_update p f tbl = (length (filter p tbl), map (\<lambda>r. if p r then f r else r) tbl)"

text \<open>The \<open>WHERE\<close> clause of the operations of a client on its own live session.\<close>

definition live_row :: "string \<Rightarrow> string \<Rightarrow> GrpcProxySessionRow \<Rightarrow> bool" where
  "live_row sid pubkey r \<longleftrightarrow> gr_session_id r = sid \<and> gr_client_pubkey_b64 r = pubkey \<and> \<not> gr_revoked r"

definition add_traffic :: "u64 \<Rightarrow> u64 \<Rightarrow> int \<Rightarrow> int \<Rightarrow> int option \<Rightarrow> GrpcProxySessionRow \<Rightarrow> GrpcProxySessionRow" where
  "add_traffic delta_in delta_out active_ms_delta last_activity_at first_open r =
     r\<lparr>gr_bytes_in := gr_bytes_in r + u64_as_i64 delta_in, gr_bytes_out := gr_bytes_out r + u64_as_i64 delta_out,
       gr_active_ms := gr_active_ms r + active_ms_delta, gr_last_activity_at := Some last_activity_at,
       gr_first_open_at := (case gr_first_open_at r of None \<Rightarrow> first_open | Some t \<Rightarrow> Some t)\<rparr>"

definition row_in_range :: "GrpcProxySessionRow \<Rightarrow> bool" where
  "row_in_range r \<longleftrightarrow> i64_range (gr_bytes_in r) \<and> i64_range (gr_bytes_out r) \<and> i64_range (gr_active_ms r)"

definition increment_grpc_proxy_session_traffic ::
    "string \<Rightarrow> string \<Rightarrow> u64 \<Rightarrow> u64 \<Rightarrow> int \<Rightarrow> int \<Rightarrow> int option \<Rightarrow> session_table \<Rightarrow> DbError + session_table" where
  "increment_grpc_proxy_session_traffic sid pubkey delta_in delta_out active_ms_delta last_activity_at first_open tbl =
    (let f = add_traffic delta_in delta_out active_ms_delta last_activity_at first_open in
     if list_ex (\<lambda>r. live_row sid pubkey r \<and> \<not> row_in_range (f r)) tbl then Inl BigintRange
     else Inr (snd (sql_update (live_row sid pubkey) f tbl)))"

definition revoke_grpc_proxy_session :: "string \<Rightarrow> string \<Rightarrow> session_table \<Rightarrow> nat \<times> session_table" where
  "revoke_grpc_proxy_session sid pubkey tbl =
     sql_update (\<lambda>r. gr_session_id r = sid \<and> gr_client_pubkey_b64 r = pubkey) (\<lambda>r. r\<lparr>gr_revoked := True\<rparr>) tbl"

definition revoke_grpc_proxy_session_by_id :: "string \<Rightarrow> session_table \<Rightarrow> nat \<times> session_table" where
  "revoke_grpc_proxy_session_by_id sid tbl =
     sql_update (\<lambda>r. gr_session_id r = sid) (\<lambda>r. r\<lparr>gr_revoked := True\<rparr>) tbl"

definition update_grpc_proxy_session_policy ::
    "string \<Rightarrow> string \<Rightarrow> string \<Rightarrow> int \<Rightarrow> bool \<Rightarrow> wire_columns \<Rightarrow> bool \<Rightarrow> ingress_columns \<Rightarrow> session_table \<Rightarrow> nat \<times> session_table" where
  "update_grpc_proxy_session_policy sid pubkey policy_json expires_at update_wire w update_ingress g tbl =
     sql_update (live_row sid pubkey)
       (\<lambda>r. let r1 = r\<lparr>gr_policy_json := policy_json, gr_expires_at := expires_at\<rparr>;
                r2 = (if update_wire then set_wire w r1 else r1)
            in if update_ingress then set_ingress g r2 else r2) tbl"

text \<open>
  The paginated listing. Rows of equal creation time come in an order the query leaves open; the model
  takes the order of insertion.
\<close>

definition list_grpc_proxy_sessions_page :: "int \<Rightarrow> int \<Rightarrow> bool option \<Rightarrow> session_table \<Rightarrow> GrpcProxySessionRow list" where
  "list_grpc_proxy_sessions_page limit offset revoked_filter tbl =
    (let limit = nat (min (max limit 1) 500); offset = nat (max offset 0);
         rows = (case revoked_filter of None \<Rightarrow> tbl | Some rv \<Rightarrow> filter (\<lambda>r. gr_revoked r = rv) tbl)
     in take limit (drop offset (sort_key (\<lambda>r. - gr_created_at r) rows)))"

record GrpcProxySessionAggregate =
  ga_bytes_in :: u64
  ga_bytes_out :: u64
  ga_active_ms :: u64
  ga_last_activity_at :: "int option"
  ga_created_at_max :: "int option"
  ga_expires_at_min :: "int option"
  ga_session_count :: u64

definition max_opt :: "int list \<Rightarrow> int option" where
  "max_opt xs = (if xs = [] then None else Some (fold max (tl xs) (hd xs)))"

definition min_opt :: "int list \<Rightarrow> int option" where
  "min_opt xs = (if xs = [] then None else Some (fold min (tl xs) (hd xs)))"

definition nonneg_u64 :: "int \<Rightarrow> u64" where
  "nonneg_u64 i = word_of_int (max i 0)"

definition aggregate_grpc_proxy_sessions_for_pubkey :: "string \<Rightarrow> session_table \<Rightarrow> GrpcProxySessionAggregate" where
  "aggregate_grpc_proxy_sessions_for_pubkey pubkey tbl =
    (let rows = filter (\<lambda>r. gr_client_pubkey_b64 r = pubkey \<and> \<not> gr_revoked r) tbl in
     \<lparr>ga_bytes_in = nonneg_u64 (sum_list (map gr_bytes_in rows)),
      ga_bytes_out = nonneg_u64 (sum_list (map gr_bytes_out rows)),
      ga_active_ms = nonneg_u64 (sum_list (map gr_active_ms rows)),
      ga_last_activity_at = max_opt (List.map_filter gr_last_activity_at rows),
      ga_created_at_max = max_opt (map gr_created_at rows),
      ga_expires_at_min = min_opt (map gr_expires_at rows),
      ga_session_count = word_of_nat (length rows)\<rparr>)"

text \<open>Hourly traffic buckets, keyed by peer and hour.\<close>

type_synonym hourly_table = "(string \<times> int, int \<times> int) hmap"

definition add_grpc_proxy_traffic_hourly :: "string \<Rightarrow> int \<Rightarrow> u64 \<Rightarrow> u64 \<Rightarrow> hourly_table \<Rightarrow> hourly_table" where
  "add_grpc_proxy_traffic_hourly pubkey hour bytes_in bytes_out tbl =
    (case hm_get tbl (pubkey, hour) of
       None \<Rightarrow> hm_insert (pubkey, hour) (u64_as_i64 bytes_in, u64_as_i64 bytes_out) tbl
     | Some (a, b) \<Rightarrow> hm_insert (pubkey, hour) (a + u64_as_i64 bytes_in, b + u64_as_i64 bytes_out) tbl)"

definition sum_grpc_proxy_traffic_totals :: "string \<Rightarrow> hourly_table \<Rightarrow> u64 \<times> u64" where
  "sum_grpc_proxy_traffic_totals pubkey tbl =
    (let rows = filter (\<lambda>((p, _), _). p = pubkey) tbl in
     (nonneg_u64 (sum_list (map (\<lambda>(_, a, _). a) rows)), nonneg_u64 (sum_list (map (\<lambda>(_, _, b). b) rows))))"

section \<open>The table as a state machine\<close>

inductive db_step :: "session_table \<Rightarrow> session_table \<Rightarrow> bool" where
  db_insert: "insert_grpc_proxy_session new_id now pubkey board token sub expires policy w g tbl = Inr (sid, tbl') \<Longrightarrow>
    db_step tbl tbl'"
| db_increment: "increment_grpc_proxy_session_traffic sid pubkey din dout dact la fo tbl = Inr tbl' \<Longrightarrow> db_step tbl tbl'"
| db_revoke: "revoke_grpc_proxy_session sid pubkey tbl = (n, tbl') \<Longrightarrow> db_step tbl tbl'"
| db_revoke_by_id: "revoke_grpc_proxy_session_by_id sid tbl = (n, tbl') \<Longrightarrow> db_step tbl tbl'"
| db_update: "update_grpc_proxy_session_policy sid pubkey policy expires uw w ui g tbl = (n, tbl') \<Longrightarrow> db_step tbl tbl'"

inductive_cases db_stepE: "db_step tbl tbl'"

definition session_keys_ok :: "session_table \<Rightarrow> bool" where
  "session_keys_ok tbl \<longleftrightarrow> distinct (map gr_session_id tbl) \<and> distinct (map gr_token_sha256_hex tbl) \<and>
     distinct (List.map_filter gr_subscription_token tbl)"

text \<open>An update that touches no key column and changes no revoked row.\<close>

definition safe_update :: "(GrpcProxySessionRow \<Rightarrow> bool) \<Rightarrow> (GrpcProxySessionRow \<Rightarrow> GrpcProxySessionRow) \<Rightarrow> bool" where
  "safe_update p f \<longleftrightarrow> (\<forall>r. gr_session_id (f r) = gr_session_id r \<and> gr_token_sha256_hex (f r) = gr_token_sha256_hex r \<and>
     gr_subscription_token (f r) = gr_subscription_token r \<and> (p r \<longrightarrow> gr_revoked r \<longrightarrow> f r = r))"

lemma safe_ops:
  "safe_update (live_row sid pubkey) (add_traffic a b c d e)"
  "safe_update p (\<lambda>r. r\<lparr>gr_revoked := True\<rparr>)"
  "safe_update (live_row sid pubkey)
     (\<lambda>r. let r1 = r\<lparr>gr_policy_json := pj, gr_expires_at := ex\<rparr>; r2 = (if uw then set_wire w r1 else r1)
          in if ui then set_ingress g r2 else r2)"
  by (simp_all add: safe_update_def live_row_def add_traffic_def set_wire_def set_ingress_def Let_def)

text \<open>Every step appends a row with new keys or is a safe update.\<close>

lemma db_step_shape:
  assumes "db_step tbl tbl'"
  shows "(\<exists>r. tbl' = tbl @ [r] \<and> (session_keys_ok tbl \<longrightarrow> session_keys_ok tbl')) \<or>
    (\<exists>p f. safe_update p f \<and> tbl' = snd (sql_update p f tbl))"
  using assms
proof (cases rule: db_step.cases)
  case (db_insert new_id now pubkey board token sub expires policy w g sid)
  then obtain r where r: "tbl' = tbl @ [r]" "gr_session_id r = new_id" "gr_token_sha256_hex r = token"
      "gr_subscription_token r = Some sub"
    and new: "\<forall>x \<in> set tbl. gr_session_id x \<noteq> new_id \<and> gr_token_sha256_hex x \<noteq> token \<and> gr_subscription_token x \<noteq> Some sub"
    by (auto simp: insert_grpc_proxy_session_def list_ex_iff set_wire_def set_ingress_def split: if_split_asm)
  have "session_keys_ok tbl \<longrightarrow> session_keys_ok tbl'"
    using r new by (auto simp: session_keys_ok_def List.map_filter_def)
  with r(1) show ?thesis by blast
next
  case (db_increment sid pubkey din dout dact la fo)
  then have "tbl' = snd (sql_update (live_row sid pubkey) (add_traffic din dout dact la fo) tbl)"
    by (simp add: increment_grpc_proxy_session_traffic_def Let_def split: if_split_asm)
  with safe_ops(1) show ?thesis by blast
next
  case (db_revoke sid pubkey n)
  then have "tbl' = snd (sql_update (\<lambda>r. gr_session_id r = sid \<and> gr_client_pubkey_b64 r = pubkey) (\<lambda>r. r\<lparr>gr_revoked := True\<rparr>) tbl)"
    by (simp add: revoke_grpc_proxy_session_def)
  with safe_ops(2) show ?thesis by blast
next
  case (db_revoke_by_id sid n)
  then have "tbl' = snd (sql_update (\<lambda>r. gr_session_id r = sid) (\<lambda>r. r\<lparr>gr_revoked := True\<rparr>) tbl)"
    by (simp add: revoke_grpc_proxy_session_by_id_def)
  with safe_ops(2) show ?thesis by blast
next
  case (db_update sid pubkey policy expires uw w ui g n)
  then have "tbl' = snd (sql_update (live_row sid pubkey)
     (\<lambda>r. let r1 = r\<lparr>gr_policy_json := policy, gr_expires_at := expires\<rparr>; r2 = (if uw then set_wire w r1 else r1)
          in if ui then set_ingress g r2 else r2) tbl)"
    by (simp add: update_grpc_proxy_session_policy_def)
  with safe_ops(3) show ?thesis by blast
qed

lemma safe_update_keys:
  assumes "safe_update p f"
  shows "session_keys_ok (snd (sql_update p f tbl)) = session_keys_ok tbl"
proof -
  have m: "map gr_session_id (snd (sql_update p f tbl)) = map gr_session_id tbl"
    "map gr_token_sha256_hex (snd (sql_update p f tbl)) = map gr_token_sha256_hex tbl"
    using assms by (auto simp: sql_update_def safe_update_def)
  have "List.map_filter gr_subscription_token (map (\<lambda>r. if p r then f r else r) t) = List.map_filter gr_subscription_token t" for t
    using assms by (induction t) (auto simp: List.map_filter_simps safe_update_def split: option.split)
  then show ?thesis by (simp add: session_keys_ok_def m) (simp add: sql_update_def)
qed

lemma db_step_keys: "db_step tbl tbl' \<Longrightarrow> session_keys_ok tbl \<Longrightarrow> session_keys_ok tbl'"
  using db_step_shape [of tbl tbl'] safe_update_keys by blast

lemma db_step_revoked:
  assumes "db_step tbl tbl'" "r \<in> set tbl" "gr_revoked r"
  shows "r \<in> set tbl'"
  using db_step_shape [OF assms(1)]
proof
  assume "\<exists>p f. safe_update p f \<and> tbl' = snd (sql_update p f tbl)"
  then obtain p f where f: "safe_update p f" "tbl' = snd (sql_update p f tbl)" by blast
  have "(if p r then f r else r) = r" using f(1) assms(3) by (simp add: safe_update_def)
  with assms(2) f(2) show ?thesis by (force simp: sql_update_def)
qed (use assms(2) in auto)

text \<open>
  Session keys. Whatever sequence of inserts, increments, revocations and updates has run on an empty
  table, session ids, token hashes and subscription tokens are unique.
\<close>
theorem session_keys_unique: "db_step\<^sup>*\<^sup>* [] tbl \<Longrightarrow> session_keys_ok tbl"
proof (induction rule: rtranclp_induct)
  case base
  then show ?case by (simp add: session_keys_ok_def List.map_filter_def)
next
  case (step y z)
  then show ?case using db_step_keys by blast
qed

theorem session_keys_unique_witness:
  "\<exists>tbl. insert_grpc_proxy_session ''s1'' 5 ''pk'' ''b'' ''t1'' ''u1'' 99 ''{}'' \<lparr>wc_mode = None, wc_config_json = None\<rparr>
      \<lparr>ic_protocol = None, ic_listen_port = None, ic_listen_udp_port = None, ic_config_json = None, ic_tls_json = None,
       ic_template_version = 1\<rparr> [] = Inr (''s1'', tbl) \<and> session_keys_ok tbl"
proof -
  obtain tbl where t: "insert_grpc_proxy_session ''s1'' 5 ''pk'' ''b'' ''t1'' ''u1'' 99 ''{}'' \<lparr>wc_mode = None, wc_config_json = None\<rparr>
      \<lparr>ic_protocol = None, ic_listen_port = None, ic_listen_udp_port = None, ic_config_json = None, ic_tls_json = None,
       ic_template_version = 1\<rparr> [] = Inr (''s1'', tbl)"
    by (simp add: insert_grpc_proxy_session_def)
  have "session_keys_ok tbl" by (rule session_keys_unique [OF r_into_rtranclp [of db_step, OF db_insert [OF t]]])
  with t show ?thesis by blast
qed

text \<open>
  Revocation is final. Once a session row is revoked, no later sequence of operations changes any of its
  columns: it stays in the table, revoked, with the traffic it had.
\<close>
theorem revocation_final:
  assumes "db_step\<^sup>*\<^sup>* tbl tbl'" "r \<in> set tbl" "gr_revoked r"
  shows "r \<in> set tbl'"
  using assms(1)
proof (induction rule: rtranclp_induct)
  case base
  then show ?case by (rule assms(2))
next
  case (step y z)
  then show ?case using db_step_revoked [OF step(2) _ assms(3)] by blast
qed

text \<open>A revoked row and an attempted increment of it.\<close>

definition revoked_row :: GrpcProxySessionRow where
  "revoked_row = \<lparr>gr_session_id = ''s1'', gr_client_pubkey_b64 = ''pk'', gr_board_label = [],
     gr_token_sha256_hex = ''t1'', gr_subscription_token = None, gr_created_at = 0, gr_expires_at = 9, gr_policy_json = ''{}'',
     gr_bytes_in = 7, gr_bytes_out = 8, gr_active_ms = 0, gr_last_activity_at = None, gr_first_open_at = None,
     gr_revoked = True, gr_wire_mode = None, gr_wire_config_json = None, gr_ingress_protocol = None,
     gr_ingress_listen_port = None, gr_ingress_listen_udp_port = None, gr_ingress_config_json = None,
     gr_ingress_tls_json = None, gr_ingress_template_version = 1\<rparr>"

theorem revocation_final_witness:
  "\<exists>tbl. increment_grpc_proxy_session_traffic ''s1'' ''pk'' 5 6 7 1 None [revoked_row] = Inr tbl \<and> revoked_row \<in> set tbl"
proof -
  obtain tbl where t: "increment_grpc_proxy_session_traffic ''s1'' ''pk'' 5 6 7 1 None [revoked_row] = Inr tbl"
    by (simp add: increment_grpc_proxy_session_traffic_def live_row_def revoked_row_def Let_def)
  have "revoked_row \<in> set tbl"
    by (rule revocation_final [OF r_into_rtranclp [of db_step, OF db_increment [OF t]]]) (simp_all add: revoked_row_def)
  with t show ?thesis by blast
qed

section \<open>Lookup by token\<close>

lemma find_append: "find P (xs @ ys) = (case find P xs of None \<Rightarrow> find P ys | Some x \<Rightarrow> Some x)"
  by (induction xs) auto

text \<open>
  Session tokens. After an insert the token hash finds the new session, live, with the client key,
  expiry and policy it was created with and no traffic; every other token finds what it found before.
\<close>
theorem session_token_lookup:
  assumes "insert_grpc_proxy_session new_id now pubkey board token sub expires policy w g tbl = Inr (sid, tbl')"
  shows "(\<exists>r. fetch_by_token_sha256 tbl' token = Some r \<and> gr_session_id r = sid \<and> gr_client_pubkey_b64 r = pubkey \<and>
      gr_expires_at r = expires \<and> gr_policy_json r = policy \<and> \<not> gr_revoked r \<and> gr_bytes_in r = 0 \<and> gr_bytes_out r = 0) \<and>
    (t \<noteq> token \<longrightarrow> fetch_by_token_sha256 tbl' t = fetch_by_token_sha256 tbl t)"
proof -
  from assms obtain r where r: "tbl' = tbl @ [r]" "gr_session_id r = sid" "gr_token_sha256_hex r = token" "gr_client_pubkey_b64 r = pubkey"
      "gr_expires_at r = expires" "gr_policy_json r = policy" "\<not> gr_revoked r" "gr_bytes_in r = 0" "gr_bytes_out r = 0"
    and new: "\<forall>x \<in> set tbl. gr_token_sha256_hex x \<noteq> token"
    by (auto simp: insert_grpc_proxy_session_def list_ex_iff set_wire_def set_ingress_def split: if_split_asm)
  from new have "find (\<lambda>x. gr_token_sha256_hex x = token) tbl = None" by (auto simp: find_None_iff)
  with r show ?thesis
    by (auto simp: fetch_by_token_sha256_def find_append split: option.split)
qed

theorem session_token_lookup_witness:
  "\<exists>tbl. insert_grpc_proxy_session ''s2'' 5 ''pk'' ''b'' ''t2'' ''u2'' 99 ''{}'' \<lparr>wc_mode = None, wc_config_json = None\<rparr>
      \<lparr>ic_protocol = None, ic_listen_port = None, ic_listen_udp_port = None, ic_config_json = None, ic_tls_json = None,
       ic_template_version = 1\<rparr> [revoked_row] = Inr (''s2'', tbl) \<and>
    (\<exists>r. fetch_by_token_sha256 tbl ''t2'' = Some r \<and> gr_session_id r = ''s2'') \<and>
    fetch_by_token_sha256 tbl ''t1'' = Some revoked_row"
proof -
  obtain tbl where t: "insert_grpc_proxy_session ''s2'' 5 ''pk'' ''b'' ''t2'' ''u2'' 99 ''{}'' \<lparr>wc_mode = None, wc_config_json = None\<rparr>
      \<lparr>ic_protocol = None, ic_listen_port = None, ic_listen_udp_port = None, ic_config_json = None, ic_tls_json = None,
       ic_template_version = 1\<rparr> [revoked_row] = Inr (''s2'', tbl)"
    by (simp add: insert_grpc_proxy_session_def revoked_row_def)
  have "fetch_by_token_sha256 [revoked_row] ''t1'' = Some revoked_row"
    by (simp add: fetch_by_token_sha256_def revoked_row_def)
  with session_token_lookup [OF t, of "''t1''"] t show ?thesis by auto
qed

end
