(* ===== verification/Deploy_Core.thy ===== *)
theory Deploy_Core
  imports Rust_Text "HOL-Library.Sublist"
begin

text \<open>
  Names of projects and releases and the directories made from them (\<^verbatim>\<open>deploy-core/src/lib.rs\<close>). A path is the
  list of its components; joining a validated name appends one component, and the operating system skips a
  component that is a single dot. The theory shows that validated names keep the directories of different
  releases apart and inside the base, except for the name that is a single dot.
\<close>

type_synonym path = "string list"

definition MAX_VERSION_LEN :: nat where "MAX_VERSION_LEN = 128"
definition MAX_PROJECT_ID_LEN :: nat where "MAX_PROJECT_ID_LEN = 64"

definition normalize_project_id :: "string \<Rightarrow> string" where
  "normalize_project_id project_id =
    (let s = trim project_id in if s = [] \<or> eq_ignore_ascii_case s ''default'' then ''default'' else s)"

definition is_ascii_alphanumeric :: "char \<Rightarrow> bool" where
  "is_ascii_alphanumeric c = (let n = of_char c :: nat in
     48 \<le> n \<and> n \<le> 57 \<or> 65 \<le> n \<and> n \<le> 90 \<or> 97 \<le> n \<and> n \<le> 122)"

definition name_char :: "char \<Rightarrow> bool" where
  "name_char c \<longleftrightarrow> is_ascii_alphanumeric c \<or> c = CHR ''.'' \<or> c = CHR ''_'' \<or> c = CHR ''-''"

definition validate_project_id :: "string \<Rightarrow> string + unit" where
  "validate_project_id project_id =
    (let n = normalize_project_id project_id in
     if n = ''default'' then Inr ()
     else if MAX_PROJECT_ID_LEN < length n then Inl ''project_id too long''
     else if \<not> list_all name_char n then Inl ''project_id may only contain [a-zA-Z0-9._-]''
     else if str_contains n ''..'' \<or> CHR ''/'' \<in> set n \<or> char_of (92 :: nat) \<in> set n then Inl ''invalid project_id''
     else Inr ())"

definition project_deploy_root :: "path \<Rightarrow> string \<Rightarrow> path" where
  "project_deploy_root base project_id =
    (let n = normalize_project_id project_id in if n = ''default'' then base else base @ [''projects'', n])"

definition validate_version :: "string \<Rightarrow> string + unit" where
  "validate_version version =
    (if version = [] then Inl ''version must not be empty''
     else if MAX_VERSION_LEN < length version then Inl ''version too long''
     else if \<not> list_all name_char version then Inl ''version may only contain [a-zA-Z0-9._-]''
     else if str_contains version ''..'' \<or> CHR ''/'' \<in> set version \<or> char_of (92 :: nat) \<in> set version
     then Inl ''invalid version string''
     else Inr ())"

definition releases_dir :: "path \<Rightarrow> path" where
  "releases_dir root = root @ [''releases'']"

definition release_dir_for_version :: "path \<Rightarrow> string \<Rightarrow> path" where
  "release_dir_for_version root version = releases_dir root @ [version]"

text \<open>The directory the operating system reaches.\<close>

definition resolve :: "path \<Rightarrow> path" where
  "resolve p = filter (\<lambda>c. c \<noteq> ''.'') p"

definition release_dir :: "path \<Rightarrow> string \<Rightarrow> string \<Rightarrow> path" where
  "release_dir base project_id version = release_dir_for_version (project_deploy_root base project_id) version"

lemmas path_defs = release_dir_def release_dir_for_version_def releases_dir_def project_deploy_root_def resolve_def Let_def

lemma dots_found: "str_contains ''..'' ''..''"
  by code_simp

lemma valid_name_component:
  "validate_version v = Inr () \<Longrightarrow> v \<noteq> [] \<and> v \<noteq> ''..'' \<and> CHR ''/'' \<notin> set v"
  using dots_found by (auto simp: validate_version_def split: if_split_asm)

lemma valid_project_component:
  "validate_project_id p = Inr () \<Longrightarrow>
     normalize_project_id p \<noteq> [] \<and> normalize_project_id p \<noteq> ''..'' \<and> CHR ''/'' \<notin> set (normalize_project_id p)"
  using dots_found
  by (auto simp: validate_project_id_def Let_def split: if_split_asm)
     (auto simp: normalize_project_id_def Let_def split: if_split_asm)

text \<open>
  Releases stay apart. For validated projects and versions other than a single dot, the directory of a
  release lies below the base directory, its components are plain names, and the directories of two different
  releases are neither equal nor inside one another.
\<close>

theorem release_dirs_disjoint:
  assumes p: "validate_project_id p = Inr ()" "normalize_project_id p \<noteq> ''.''"
    and v: "validate_version v = Inr ()" "v \<noteq> ''.''"
    and q: "normalize_project_id q \<noteq> ''.''" "w \<noteq> ''.''"
    and diff: "(normalize_project_id p, v) \<noteq> (normalize_project_id q, w)"
  shows "(\<exists>cs. resolve (release_dir base p v) = resolve base @ cs \<and> list_all (\<lambda>c. c \<noteq> [] \<and> c \<noteq> ''..'' \<and> CHR ''/'' \<notin> set c) cs) \<and>
    \<not> prefix (resolve (release_dir base p v)) (resolve (release_dir base q w))"
  using assms valid_name_component [OF v(1)] valid_project_component [OF p(1)]
  by (auto simp: path_defs prefix_def)

theorem release_dirs_disjoint_witness:
  "\<not> prefix (resolve (release_dir [''srv''] ''shop'' ''v1'')) (resolve (release_dir [''srv''] ''shop'' ''v2''))"
proof -
  have t: "trim ''shop'' = ''shop''" by (rule trim_solid) (simp_all add: solid_char_def)
  have "normalize_project_id ''shop'' = ''shop''"
    by (simp add: normalize_project_id_def t eq_ignore_ascii_case_def to_ascii_lowercase_def ascii_lower_def Let_def)
  moreover from this have "validate_project_id ''shop'' = Inr ()" "validate_version ''v1'' = Inr ()"
    by (simp_all add: validate_project_id_def validate_version_def MAX_PROJECT_ID_LEN_def MAX_VERSION_LEN_def
        name_char_def is_ascii_alphanumeric_def str_contains_def starts_with_def Let_def char_of_def)
  ultimately show ?thesis
    using release_dirs_disjoint [of "''shop''" "''v1''" "''shop''" "''v2''" "[''srv'']"] by simp
qed

text \<open>
  The version that is a dot. A single dot passes the validation of versions, and its release directory is
  the directory of all releases of the project: every other release lies inside it.
\<close>

theorem dot_version_is_releases_dir:
  "validate_version ''.'' = Inr () \<and> resolve (release_dir base p ''.'') = resolve (releases_dir (project_deploy_root base p)) \<and>
   prefix (resolve (release_dir base p ''.'')) (resolve (release_dir base p v))"
  by (simp add: validate_version_def MAX_VERSION_LEN_def name_char_def str_contains_def starts_with_def path_defs char_of_def prefix_def)

end
