(* ===== verification/Wire_Relay.thy ===== *)
theory Wire_Relay
  imports Wire_Client
begin

text \<open>
  The server side of the wire protocols (\<^verbatim>\<open>server/src/wire_relay.rs\<close>): five relay loops that collect
  the client's \<open>Data\<close> messages, run their handshake parser, check the target against the allow list, connect
  and hand the tunnel to the raw bridge. The five loops differ in the parser and in a few answers, which
  \<open>relay_proto\<close> collects. What a tunnel ends with is a value: closed with the messages sent, or bridged
  with the bytes still to be forwarded. TCP connection and channel are parameters. The theory shows that the
  outcome does not depend on how the client cuts its stream, that only allow-listed hosts are reached, that
  the target and payload a client encodes are what the server connects to and forwards (and what else Shadowsocks
  forwards), who is
  authenticated, and a replay that the VMess cache misses.
\<close>

section \<open>Messages, outcomes and surroundings\<close>

text \<open>One item of the inbound stream; the end of the list is the end of the stream.\<close>

datatype client_item = ItemErr string | ItemOpen | ItemData bytes | ItemFin | ItemEmpty

datatype server_msg = OpenResult bool string | StatusInternal string

datatype connect_result = Connected | ConnectFailed string | ConnectTimeout

record relay_env =
  re_allowlist :: "string option"
  re_connect :: "string \<Rightarrow> connect_result"
  re_send_ok :: bool
  re_write_ok :: bool

text \<open>
  A tunnel that reaches the bridge has sent \<^term>\<open>OpenResult True []\<close>; \<open>early\<close> is already written upstream,
  \<open>pending\<close> is what the bridge writes first, and the rest of the stream follows.
\<close>

datatype relay_end =
    RelayClosed "server_msg list"
  | RelayBridged (rb_upstream: string) (rb_early: bytes) (rb_pending: bytes) (rb_rest: "client_item list")

definition MAX_PROXY_CHUNK :: nat where "MAX_PROXY_CHUNK = 256 * 1024"

definition refuse :: "string \<Rightarrow> relay_end" where
  "refuse m = RelayClosed [OpenResult False m]"

section \<open>Allow list and connection\<close>

definition allow_entry :: "string \<Rightarrow> string \<Rightarrow> bool" where
  "allow_entry host_lc part =
    (let p = to_ascii_lowercase (trim part) in
     p \<noteq> [] \<and> (host_lc = p \<or> ends_with host_lc (CHR ''.'' # p)))"

definition allowlist :: "string option \<Rightarrow> string \<Rightarrow> string + unit" where
  "allowlist env host = (case env of
      None \<Rightarrow> Inr ()
    | Some l \<Rightarrow>
       (let l = trim l in
        if l = [] \<or> l = ''*'' then Inr ()
        else if list_ex (allow_entry (to_ascii_lowercase host)) (split_on (\<lambda>c. c = CHR '','') l) then Inr ()
        else Inl ''proxy target host not allowed by DEPLOY_PROXY_ALLOWLIST''))"

definition upstream_addr :: "string \<Rightarrow> u16 \<Rightarrow> string" where
  "upstream_addr host port = host @ '':'' @ show_nat (unat port)"

definition relay_open :: "relay_env \<Rightarrow> string \<Rightarrow> u16 \<Rightarrow> bytes \<Rightarrow> bytes \<Rightarrow> client_item list \<Rightarrow> relay_end" where
  "relay_open E host port early pending rest =
    (case allowlist (re_allowlist E) host of
       Inl m \<Rightarrow> refuse m
     | Inr _ \<Rightarrow>
        (case re_connect E (upstream_addr host port) of
           ConnectFailed e \<Rightarrow> refuse e
         | ConnectTimeout \<Rightarrow> refuse ''connect timeout''
         | Connected \<Rightarrow>
            if \<not> re_send_ok E then RelayClosed []
            else if early \<noteq> [] \<and> \<not> re_write_ok E then RelayClosed [OpenResult True []]
            else RelayBridged (upstream_addr host port) early pending rest))"

section \<open>The loop\<close>

record 'r relay_proto =
  rp_ended :: 'r
  rp_failed :: "string \<Rightarrow> 'r"
  rp_opened :: 'r
  rp_finished :: 'r
  rp_too_large :: "'r option"
  rp_step :: "bytes \<Rightarrow> client_item list \<Rightarrow> 'r option"

fun relay_loop :: "'r relay_proto \<Rightarrow> bytes \<Rightarrow> client_item list \<Rightarrow> 'r" where
  "relay_loop P buf [] = rp_ended P"
| "relay_loop P buf (ItemErr e # rest) = rp_failed P e"
| "relay_loop P buf (ItemOpen # rest) = rp_opened P"
| "relay_loop P buf (ItemData d # rest) =
    (case (if MAX_PROXY_CHUNK < length d then rp_too_large P else None) of
       Some r \<Rightarrow> r
     | None \<Rightarrow>
        (case rp_step P (buf @ d) rest of
           None \<Rightarrow> relay_loop P (buf @ d) rest
         | Some r \<Rightarrow> r))"
| "relay_loop P buf (ItemFin # rest) = rp_finished P"
| "relay_loop P buf (ItemEmpty # rest) = relay_loop P buf rest"

section \<open>The five relays\<close>

definition vless_step :: "relay_env \<Rightarrow> bytes \<Rightarrow> bytes \<Rightarrow> client_item list \<Rightarrow> relay_end option" where
  "vless_step E expected buf rest = (case vless_parse_request buf (Some expected) of
      VlessNeedMore _ \<Rightarrow> None
    | VlessInvalid \<Rightarrow> Some (refuse ''invalid vless header'')
    | VlessOk ok port addr payload start \<Rightarrow> Some
        (if \<not> ok then refuse ''vless: uuid mismatch''
         else relay_open E (host_string addr) port payload (drop (start + length payload) buf) rest))"

definition run_vless_relay :: "(string \<Rightarrow> string + bytes) \<Rightarrow> relay_env \<Rightarrow> WireParams \<Rightarrow> client_item list \<Rightarrow> relay_end" where
  "run_vless_relay uuid_parse E params inbound =
    (case wp_uuid params of
       None \<Rightarrow> refuse ''vless: missing uuid in wire_config_json''
     | Some s \<Rightarrow>
        if trim s = [] then refuse ''vless: missing uuid in wire_config_json''
        else case uuid_parse (trim s) of
            Inl e \<Rightarrow> refuse (''vless: bad uuid: '' @ e)
          | Inr expected \<Rightarrow> relay_loop
              \<lparr>rp_ended = refuse ''vless: stream ended before header'',
               rp_failed = (\<lambda>e. RelayClosed [StatusInternal e]),
               rp_opened = refuse ''duplicate Open'',
               rp_finished = refuse ''vless: fin before header'',
               rp_too_large = Some (refuse ''proxy chunk too large''),
               rp_step = vless_step E expected\<rparr> [] inbound)"

definition trojan_step ::
    "(bytes \<Rightarrow> bytes) \<Rightarrow> relay_env \<Rightarrow> string \<Rightarrow> bytes \<Rightarrow> client_item list \<Rightarrow> relay_end option" where
  "trojan_step sha224 E password buf rest = (case trojan_server_handshake sha224 buf password of
      TrojanNeedMore _ \<Rightarrow> None
    | TrojanInvalidAuth \<Rightarrow> Some (refuse ''trojan: auth failed'')
    | TrojanReady addr payload_offset \<Rightarrow> Some
        (relay_open E (ta_host addr) (ta_port addr) [] (drop payload_offset buf) rest))"

definition run_trojan_relay :: "(bytes \<Rightarrow> bytes) \<Rightarrow> relay_env \<Rightarrow> WireParams \<Rightarrow> client_item list \<Rightarrow> relay_end" where
  "run_trojan_relay sha224 E params inbound =
    (case wp_password params of
       None \<Rightarrow> refuse ''trojan: missing password''
     | Some password \<Rightarrow>
        if password = [] then refuse ''trojan: missing password''
        else relay_loop
              \<lparr>rp_ended = refuse ''trojan: stream ended before handshake'',
               rp_failed = (\<lambda>e. RelayClosed [StatusInternal e]),
               rp_opened = refuse ''duplicate Open'',
               rp_finished = RelayClosed [],
               rp_too_large = None,
               rp_step = trojan_step sha224 E password\<rparr> [] inbound)"

definition socks5_step ::
    "relay_env \<Rightarrow> bool \<Rightarrow> string option \<Rightarrow> string option \<Rightarrow> bytes \<Rightarrow> client_item list \<Rightarrow> relay_end option" where
  "socks5_step E auth user pass buf rest = (case socks5_server_parse buf auth user pass of
      SocksNeedMore _ \<Rightarrow> None
    | SocksInvalid m \<Rightarrow> Some (refuse m)
    | SocksReady target consumed \<Rightarrow> Some
        (relay_open E (st_host target) (st_port target) [] (drop consumed buf) rest))"

definition run_socks5_relay :: "relay_env \<Rightarrow> WireParams \<Rightarrow> client_item list \<Rightarrow> relay_end" where
  "run_socks5_relay E params inbound =
    (let auth = wp_username params \<noteq> None \<and> wp_password params \<noteq> None in
     relay_loop
       \<lparr>rp_ended = refuse ''socks5: stream ended before handshake'',
        rp_failed = (\<lambda>e. RelayClosed [StatusInternal e]),
        rp_opened = refuse ''duplicate Open'',
        rp_finished = RelayClosed [],
        rp_too_large = Some (refuse ''proxy chunk too large''),
        rp_step = socks5_step E auth (wp_username params) (wp_password params)\<rparr> [] inbound)"

definition ss_step ::
    "('k, 'c) ss_crypto \<Rightarrow> relay_env \<Rightarrow> string \<Rightarrow> string \<Rightarrow> bytes \<Rightarrow> client_item list \<Rightarrow> relay_end option" where
  "ss_step S E meth password buf rest = (case ss_tcp_server_handshake S buf meth password of
      SsNeedMore _ \<Rightarrow> None
    | SsInvalid m \<Rightarrow> Some (refuse (''shadowsocks: '' @ m))
    | SsReady addr consumed tail_after_addr \<Rightarrow> Some
        (relay_open E (ta_host addr) (ta_port addr) [] (tail_after_addr @ drop consumed buf) rest))"

definition run_shadowsocks_relay :: "('k, 'c) ss_crypto \<Rightarrow> relay_env \<Rightarrow> WireParams \<Rightarrow> client_item list \<Rightarrow> relay_end" where
  "run_shadowsocks_relay S E params inbound =
    (case wp_password params of
       None \<Rightarrow> refuse ''shadowsocks: missing password''
     | Some password \<Rightarrow>
        if password = [] then refuse ''shadowsocks: missing password''
        else case wp_method params of
            None \<Rightarrow> refuse ''shadowsocks: missing method''
          | Some m \<Rightarrow>
             if trim m = [] then refuse ''shadowsocks: missing method''
             else relay_loop
               \<lparr>rp_ended = refuse ''shadowsocks: stream ended before handshake'',
                rp_failed = (\<lambda>e. RelayClosed [StatusInternal e]),
                rp_opened = refuse ''duplicate Open'',
                rp_finished = RelayClosed [],
                rp_too_large = Some (refuse ''proxy chunk too large''),
                rp_step = ss_step S E (trim m) password\<rparr> [] inbound)"

fun wire_error_string :: "WireError \<Rightarrow> string" where
  "wire_error_string (BadConfig e) = ''invalid wire config json: '' @ e"
| "wire_error_string (Parse e) = ''parse: '' @ e"
| "wire_error_string (Crypto e) = ''crypto: '' @ e"
| "wire_error_string (Protocol e) = ''protocol: '' @ e"

text \<open>
  VMess consults the process-wide replay cache once, when the header is complete; cache and clocks are those
  of that moment. The header parser does not answer \<open>None\<close> on a complete header
  (\<open>vmess_open_complete\<close> below).
\<close>

definition vmess_step ::
    "vmess_crypto \<Rightarrow> relay_env \<Rightarrow> bytes \<Rightarrow> VmessReplayCache option \<Rightarrow> nat \<Rightarrow> int
       \<Rightarrow> bytes \<Rightarrow> client_item list \<Rightarrow> (relay_end \<times> VmessReplayCache option) option" where
  "vmess_step C E uid cache instant unix buf rest = (case vmess_open_header_byte_len buf of
      None \<Rightarrow> None
    | Some hlen \<Rightarrow>
       if length buf < hlen then None
       else let nonce = take 12 buf;
                c = (case cache of None \<Rightarrow> replay_cache_new 120 50000 | Some c \<Rightarrow> c);
                (replay_ok, c') = vmess_check_replay c instant nonce in
         if \<not> replay_ok then Some (refuse ''vmess: replay'', Some c')
         else case vmess_server_open_header C unix uid (take hlen buf) of
             Inr None \<Rightarrow> None
           | Inl e \<Rightarrow> Some (refuse (wire_error_string e), Some c')
           | Inr (Some opn) \<Rightarrow> Some
               (relay_open E (host_string (vh_addr opn)) (vh_port opn) [] (drop hlen buf) rest, Some c'))"

definition run_vmess_relay ::
    "vmess_crypto \<Rightarrow> (string \<Rightarrow> string + bytes) \<Rightarrow> relay_env \<Rightarrow> WireParams \<Rightarrow> VmessReplayCache option \<Rightarrow> nat \<Rightarrow> int
       \<Rightarrow> client_item list \<Rightarrow> relay_end \<times> VmessReplayCache option" where
  "run_vmess_relay C uuid_parse E params cache instant unix inbound =
    (case wp_uuid params of
       None \<Rightarrow> (refuse ''vmess: missing uuid'', cache)
     | Some s \<Rightarrow>
        if trim s = [] then (refuse ''vmess: missing uuid'', cache)
        else case uuid_parse (trim s) of
            Inl e \<Rightarrow> (refuse (''vmess: bad uuid: '' @ e), cache)
          | Inr uid \<Rightarrow> relay_loop
              \<lparr>rp_ended = (RelayClosed [], cache),
               rp_failed = (\<lambda>e. (RelayClosed [StatusInternal e], cache)),
               rp_opened = (RelayClosed [], cache),
               rp_finished = (RelayClosed [], cache),
               rp_too_large = None,
               rp_step = vmess_step C E uid cache instant unix\<rparr> [] inbound)"

text \<open>The choice of the relay by the wire mode of the \<open>Open\<close> message (\<^verbatim>\<open>deploy_service.rs\<close>).\<close>

definition run_wire_relay ::
    "('k, 'c) wire_env \<Rightarrow> relay_env \<Rightarrow> int \<Rightarrow> WireParams \<Rightarrow> VmessReplayCache option \<Rightarrow> nat \<Rightarrow> int
       \<Rightarrow> client_item list \<Rightarrow> relay_end \<times> VmessReplayCache option" where
  "run_wire_relay W E wire_mode params cache instant unix inbound =
    (if wire_mode = 1 then (run_vless_relay (we_uuid_parse W) E params inbound, cache)
     else if wire_mode = 2 then (run_trojan_relay (we_sha224 W) E params inbound, cache)
     else if wire_mode = 3 then run_vmess_relay (we_vmess W) (we_uuid_parse W) E params cache instant unix inbound
     else if wire_mode = 4 then (run_shadowsocks_relay (we_ss W) E params inbound, cache)
     else if wire_mode = 5 then (run_socks5_relay E params inbound, cache)
     else (refuse ''unknown wire_mode'', cache))"

section \<open>The loop and the parsers\<close>

text \<open>The bytes of a stream of messages.\<close>

fun data_bytes :: "client_item list \<Rightarrow> bytes" where
  "data_bytes [] = []"
| "data_bytes (ItemData d # rest) = d @ data_bytes rest"
| "data_bytes (_ # rest) = data_bytes rest"

lemma data_bytes_map [simp]: "data_bytes (map ItemData ds) = concat ds"
  by (induction ds) simp_all

text \<open>On a stream of data messages the loop is the accumulation loop of the handshake contract.\<close>

lemma relay_loop_feed:
  assumes "\<And>b rest. rp_step P b rest = map_option (\<lambda>r. finish r b rest) (decide b)"
  shows "\<forall>d \<in> set ds. length d \<le> MAX_PROXY_CHUNK \<Longrightarrow>
    relay_loop P buf (map ItemData ds) = (case feed decide buf ds of
       None \<Rightarrow> rp_ended P
     | Some (r, buf', rest) \<Rightarrow> finish r buf' (map ItemData rest))"
proof (induction ds arbitrary: buf)
  case (Cons d ds)
  then show ?case by (cases "decide (buf @ d)") (simp_all add: assms)
qed simp

text \<open>What can be seen of an outcome: the messages, or the target and all bytes for it.\<close>

definition tunnel_view :: "relay_end \<Rightarrow> server_msg list + string \<times> bytes" where
  "tunnel_view r = (case r of
      RelayClosed ms \<Rightarrow> Inl ms
    | RelayBridged up early pending rest \<Rightarrow> Inr (up, early @ pending @ data_bytes rest))"

lemma tunnel_view_refuse [simp]: "tunnel_view (refuse m) = Inl [OpenResult False m]"
  by (simp add: tunnel_view_def refuse_def)

definition open_view :: "relay_env \<Rightarrow> string \<Rightarrow> u16 \<Rightarrow> bytes \<Rightarrow> server_msg list + string \<times> bytes" where
  "open_view E host port bs = tunnel_view (relay_open E host port [] bs [])"

lemma open_view_relay:
  assumes "re_write_ok E \<or> early = []"
  shows "tunnel_view (relay_open E host port early pending rest) = open_view E host port (early @ pending @ data_bytes rest)"
  using assms by (auto simp: open_view_def relay_open_def tunnel_view_def refuse_def split: sum.split connect_result.split)

text \<open>A non-empty stream of messages within the size limit.\<close>

definition chunks_ok :: "bytes list \<Rightarrow> bool" where
  "chunks_ok ds \<longleftrightarrow> ds \<noteq> [] \<and> (\<forall>d \<in> set ds. length d \<le> MAX_PROXY_CHUNK)"

text \<open>
  A relay is a handshake with the contract of \<^verbatim>\<open>Handshake_Iface\<close> and a conclusion whose view only
  depends on the bytes of the stream.
\<close>

locale relay_handshake = incremental_handshake decide consumed
  for decide :: "bytes \<Rightarrow> 'r option" and consumed :: "'r \<Rightarrow> nat" +
  fixes finish :: "'r \<Rightarrow> bytes \<Rightarrow> client_item list \<Rightarrow> 'e"
    and view :: "'e \<Rightarrow> 'v"
    and ok :: bool
  assumes finish_view: "ok \<Longrightarrow> decide buf = Some r \<Longrightarrow>
      view (finish r buf (map ItemData ds)) = view (finish r (buf @ concat ds) [])"
begin

lemma relay_whole:
  assumes step: "\<And>b rest. rp_step P b rest = map_option (\<lambda>r. finish r b rest) (decide b)"
    and "chunks_ok ds" "ok" "concat ds = bs"
  shows "view (relay_loop P [] (map ItemData ds)) = view (case decide bs of
      None \<Rightarrow> rp_ended P | Some r \<Rightarrow> finish r bs [])"
proof -
  have "\<forall>d \<in> set ds. length d \<le> MAX_PROXY_CHUNK" using assms(2) by (simp add: chunks_ok_def)
  note loop = relay_loop_feed [OF step this, of "[]"]
  show ?thesis
  proof (cases "feed decide [] ds")
    case None
    have "decide [] = None"
    proof (rule ccontr)
      assume "decide [] \<noteq> None"
      with assms(2) obtain r d rest where r: "decide [] = Some r" "ds = d # rest" by (cases ds) (auto simp: chunks_ok_def)
      from stable [OF r(1), of d] None r(2) show False by simp
    qed
    from feed_None [OF None this] None loop assms(4) show ?thesis by simp
  next
    case (Some x)
    obtain r buf rest where x: "x = (r, buf, rest)" by (cases x) auto
    from feed_Some [OF Some [unfolded x]] have d: "decide (concat ds) = Some r" "buf @ concat rest = concat ds" "decide buf = Some r"
      by simp_all
    with finish_view [OF assms(3) d(3), of rest] loop assms(4) show ?thesis by (simp add: Some x)
  qed
qed

end

definition vless_finish :: "relay_env \<Rightarrow> vless_verdict \<Rightarrow> bytes \<Rightarrow> client_item list \<Rightarrow> relay_end" where
  "vless_finish E v buf rest = (case v of
      None \<Rightarrow> refuse ''invalid vless header''
    | Some (ok, port, addr, start) \<Rightarrow>
        if \<not> ok then refuse ''vless: uuid mismatch'' else relay_open E (host_string addr) port (drop start buf) [] rest)"

lemma vless_ok_payload:
  "vless_parse_request buf e = VlessOk ok port addr payload start \<Longrightarrow> payload = drop start buf"
  by (simp add: vless_parse_ok_iff Let_def)

lemma vless_step_decide:
  "vless_step E u buf rest = map_option (\<lambda>v. vless_finish E v buf rest) (vless_decide (Some u) buf)"
proof (cases "vless_parse_request buf (Some u)")
  case (VlessOk ok port addr payload start)
  with vless_ok_payload [OF VlessOk] show ?thesis by (simp add: vless_step_def vless_decide_def vless_finish_def)
qed (simp_all add: vless_step_def vless_decide_def vless_finish_def)

interpretation vless_relay: relay_handshake "vless_decide (Some u)" vless_consumed "vless_finish E" tunnel_view "re_write_ok E"
  for u E
proof
  show "tunnel_view (vless_finish E r buf (map ItemData ds)) = tunnel_view (vless_finish E r (buf @ concat ds) [])"
    if "re_write_ok E" "vless_decide (Some u) buf = Some r" for buf r ds
  proof (cases r)
    case (Some v)
    from vless.consumed_le [OF that(2)] Some have "(case v of (_, _, _, start) \<Rightarrow> start) \<le> length buf"
      by (simp add: vless_consumed_def)
    with that(1) Some show ?thesis
      by (cases v) (simp add: vless_finish_def open_view_relay)
  qed (simp add: vless_finish_def)
qed

definition trojan_finish :: "relay_env \<Rightarrow> trojan_verdict \<Rightarrow> bytes \<Rightarrow> client_item list \<Rightarrow> relay_end" where
  "trojan_finish E v buf rest = (case v of
      None \<Rightarrow> refuse ''trojan: auth failed''
    | Some (addr, n) \<Rightarrow> relay_open E (ta_host addr) (ta_port addr) [] (drop n buf) rest)"

lemma trojan_step_decide:
  "trojan_step h E pw buf rest = map_option (\<lambda>v. trojan_finish E v buf rest) (trojan_decide h pw buf)"
  by (auto simp: trojan_step_def trojan_decide_def trojan_finish_def split: TrojanHandshakeResult.split)

interpretation trojan_relay: relay_handshake "trojan_decide h pw" trojan_consumed "trojan_finish E" tunnel_view True
  for h pw E
proof
  show "tunnel_view (trojan_finish E r buf (map ItemData ds)) = tunnel_view (trojan_finish E r (buf @ concat ds) [])"
    if "trojan_decide h pw buf = Some r" for buf r ds
  proof (cases r)
    case (Some v)
    from trojan.consumed_le [OF that] Some have "snd v \<le> length buf" by (simp add: trojan_consumed_def split_beta)
    with Some show ?thesis by (simp add: trojan_finish_def open_view_relay split_beta)
  qed (simp add: trojan_finish_def)
qed

definition socks5_finish :: "relay_env \<Rightarrow> socks5_verdict \<Rightarrow> bytes \<Rightarrow> client_item list \<Rightarrow> relay_end" where
  "socks5_finish E v buf rest = (case v of
      Inl m \<Rightarrow> refuse m
    | Inr (t, n) \<Rightarrow> relay_open E (st_host t) (st_port t) [] (drop n buf) rest)"

lemma socks5_step_decide:
  "socks5_step E auth u p buf rest = map_option (\<lambda>v. socks5_finish E v buf rest) (socks5_decide auth u p buf)"
  by (auto simp: socks5_step_def socks5_decide_def socks5_finish_def split: Socks5ServerHandshake.split)

interpretation socks5_relay: relay_handshake "socks5_decide auth u p" socks5_consumed "socks5_finish E" tunnel_view True
  for auth u p E
proof
  show "tunnel_view (socks5_finish E r buf (map ItemData ds)) = tunnel_view (socks5_finish E r (buf @ concat ds) [])"
    if "socks5_decide auth u p buf = Some r" for buf r ds
  proof (cases r)
    case (Inr v)
    from socks5.consumed_le [OF that] Inr have "snd v \<le> length buf" by (simp add: socks5_consumed_def split_beta)
    with Inr show ?thesis by (simp add: socks5_finish_def open_view_relay split_beta)
  qed (simp add: socks5_finish_def)
qed

definition ss_finish :: "relay_env \<Rightarrow> ss_verdict \<Rightarrow> bytes \<Rightarrow> client_item list \<Rightarrow> relay_end" where
  "ss_finish E v buf rest = (case v of
      Inl m \<Rightarrow> refuse (''shadowsocks: '' @ m)
    | Inr (a, n, tail) \<Rightarrow> relay_open E (ta_host a) (ta_port a) [] (tail @ drop n buf) rest)"

lemma ss_step_decide:
  "ss_step S E m p buf rest = map_option (\<lambda>v. ss_finish E v buf rest) (ss_decide S m p buf)"
  by (auto simp: ss_step_def ss_decide_def ss_finish_def split: SsTcpHandshakeResult.split)

interpretation ss_relay: relay_handshake "ss_decide S m p" ss_consumed "ss_finish E" tunnel_view True
  for S m p E
proof
  show "tunnel_view (ss_finish E r buf (map ItemData ds)) = tunnel_view (ss_finish E r (buf @ concat ds) [])"
    if "ss_decide S m p buf = Some r" for buf r ds
  proof (cases r)
    case (Inr v)
    from shadowsocks.consumed_le [OF that] Inr have "fst (snd v) \<le> length buf" by (simp add: ss_consumed_def split_beta)
    with Inr show ?thesis by (simp add: ss_finish_def open_view_relay split_beta)
  qed (simp add: ss_finish_def)
qed

text \<open>For VMess the decision is the complete sealed header.\<close>

definition vmess_decide :: "bytes \<Rightarrow> bytes option" where
  "vmess_decide buf = (case vmess_open_header_byte_len buf of
      None \<Rightarrow> None
    | Some hlen \<Rightarrow> if length buf < hlen then None else Some (take hlen buf))"

definition vmess_finish ::
    "vmess_crypto \<Rightarrow> relay_env \<Rightarrow> bytes \<Rightarrow> VmessReplayCache option \<Rightarrow> nat \<Rightarrow> int
       \<Rightarrow> bytes \<Rightarrow> bytes \<Rightarrow> client_item list \<Rightarrow> relay_end \<times> VmessReplayCache option" where
  "vmess_finish C E uid cache instant unix h buf rest =
    (let c = (case cache of None \<Rightarrow> replay_cache_new 120 50000 | Some c \<Rightarrow> c);
         (replay_ok, c') = vmess_check_replay c instant (take 12 h) in
     if \<not> replay_ok then (refuse ''vmess: replay'', Some c')
     else case vmess_server_open_header C unix uid h of
         Inr None \<Rightarrow> (RelayClosed [], None)
       | Inl e \<Rightarrow> (refuse (wire_error_string e), Some c')
       | Inr (Some opn) \<Rightarrow>
           (relay_open E (host_string (vh_addr opn)) (vh_port opn) [] (drop (length h) buf) rest, Some c'))"

lemma vmess_decide_Some:
  assumes "vmess_decide buf = Some h"
  obtains ys where "buf = h @ ys" "14 \<le> length h" "vmess_open_header_byte_len h = Some (length h)"
proof -
  from assms obtain n where n: "vmess_open_header_byte_len buf = Some n" "n \<le> length buf" "h = take n buf"
    by (auto simp: vmess_decide_def split: option.split_asm if_split_asm)
  then have b: "buf = h @ drop n buf" "length h = n" by simp_all
  from n(1) have "14 \<le> n" by (auto simp: vmess_open_header_byte_len_def GCM_NONCE_LEN_def split: if_split_asm)
  moreover from this n have "vmess_open_header_byte_len h = Some n"
    by (auto simp: vmess_open_header_byte_len_def GCM_NONCE_LEN_def split: if_split_asm)
  ultimately show ?thesis using b that [of "drop n buf"] by simp
qed

lemma vmess_decide_append:
  assumes "14 \<le> length h" "vmess_open_header_byte_len h = Some (length h)"
  shows "vmess_open_header_byte_len (h @ ys) = Some (length h) \<and> vmess_decide (h @ ys) = Some h"
  using assms by (auto simp: vmess_decide_def vmess_open_header_byte_len_def GCM_NONCE_LEN_def nth_append)

lemma vmess_open_complete:
  assumes "vmess_open_header_byte_len h = Some (length h)"
  shows "vmess_server_open_header C unix uid h \<noteq> Inr None"
proof -
  from assms have l: "\<not> length h < GCM_NONCE_LEN + 2"
    "GCM_NONCE_LEN + 2 + unat (u16_from_be_bytes (h ! GCM_NONCE_LEN) (h ! (GCM_NONCE_LEN + 1))) = length h"
    by (simp_all add: vmess_open_header_byte_len_def split: if_split_asm)
  have "vmess_check_plain unix plain \<noteq> Inr None" for plain
    by (auto simp: vmess_check_plain_def Let_def split: option.split)
  with l show ?thesis
    by (auto simp: vmess_server_open_header_def Let_def split: sum.split_asm)
qed

lemma vmess_step_decide:
  "vmess_step C E uid cache i t buf rest = map_option (\<lambda>h. vmess_finish C E uid cache i t h buf rest) (vmess_decide buf)"
proof (cases "vmess_decide buf")
  case None
  then show ?thesis by (auto simp: vmess_step_def vmess_decide_def split: option.split if_split_asm)
next
  case (Some h)
  then obtain ys where b: "buf = h @ ys" and h: "14 \<le> length h" "vmess_open_header_byte_len h = Some (length h)"
    by (rule vmess_decide_Some)
  note d = vmess_decide_append [OF h, of ys]
  show ?thesis
    using d h(1) vmess_open_complete [OF h(2), of C t uid]
    by (simp add: vmess_step_def vmess_finish_def Let_def b split: sum.split option.split prod.split)
qed

interpretation vmess: incremental_handshake vmess_decide length
proof
  show "vmess_decide (buf @ ys) = Some r" if d: "vmess_decide buf = Some r" for buf r ys
  proof -
    obtain zs where b: "buf = r @ zs" and h: "14 \<le> length r" "vmess_open_header_byte_len r = Some (length r)"
      using d by (rule vmess_decide_Some)
    show ?thesis using vmess_decide_append [OF h, of "zs @ ys"] b by simp
  qed
  show "length r \<le> length buf" if "vmess_decide buf = Some r" for buf r
    using that by (rule vmess_decide_Some) simp
qed

interpretation vmess_relay: relay_handshake vmess_decide length "vmess_finish C E uid cache i t"
    "\<lambda>(r, c). (tunnel_view r, c)" True
  for C E uid cache i t
proof
  show "(case vmess_finish C E uid cache i t r buf (map ItemData ds) of (r, c) \<Rightarrow> (tunnel_view r, c)) =
      (case vmess_finish C E uid cache i t r (buf @ concat ds) [] of (r, c) \<Rightarrow> (tunnel_view r, c))"
    if "vmess_decide buf = Some r" for buf r ds
    using vmess.consumed_le [OF that]
    by (simp add: vmess_finish_def Let_def open_view_relay split: prod.split sum.split option.split)
qed

section \<open>Chunking does not matter\<close>

definition wire_view :: "relay_end \<times> 'c \<Rightarrow> (server_msg list + string \<times> bytes) \<times> 'c" where
  "wire_view = (\<lambda>(r, c). (tunnel_view r, c))"

text \<open>The outcome of every relay is a function of the bytes of the stream.\<close>

lemma vless_relay_whole:
  assumes "rp_step P = vless_step E u" "chunks_ok ds" "concat ds = bs" "re_write_ok E"
  shows "tunnel_view (relay_loop P [] (map ItemData ds)) =
    tunnel_view (case vless_decide (Some u) bs of None \<Rightarrow> rp_ended P | Some v \<Rightarrow> vless_finish E v bs [])"
  by (rule vless_relay.relay_whole) (simp_all add: assms vless_step_decide)

lemma trojan_relay_whole:
  assumes "rp_step P = trojan_step h E pw" "chunks_ok ds" "concat ds = bs"
  shows "tunnel_view (relay_loop P [] (map ItemData ds)) =
    tunnel_view (case trojan_decide h pw bs of None \<Rightarrow> rp_ended P | Some v \<Rightarrow> trojan_finish E v bs [])"
  by (rule trojan_relay.relay_whole) (simp_all add: assms trojan_step_decide)

lemma socks5_relay_whole:
  assumes "rp_step P = socks5_step E a u p" "chunks_ok ds" "concat ds = bs"
  shows "tunnel_view (relay_loop P [] (map ItemData ds)) =
    tunnel_view (case socks5_decide a u p bs of None \<Rightarrow> rp_ended P | Some v \<Rightarrow> socks5_finish E v bs [])"
  by (rule socks5_relay.relay_whole) (simp_all add: assms socks5_step_decide)

lemma ss_relay_whole:
  assumes "rp_step P = ss_step S E m p" "chunks_ok ds" "concat ds = bs"
  shows "tunnel_view (relay_loop P [] (map ItemData ds)) =
    tunnel_view (case ss_decide S m p bs of None \<Rightarrow> rp_ended P | Some v \<Rightarrow> ss_finish E v bs [])"
  by (rule ss_relay.relay_whole) (simp_all add: assms ss_step_decide)

lemma vmess_relay_whole:
  assumes "rp_step P = vmess_step C E uid cache i t" "chunks_ok ds" "concat ds = bs"
  shows "wire_view (relay_loop P [] (map ItemData ds)) =
    wire_view (case vmess_decide bs of None \<Rightarrow> rp_ended P | Some h \<Rightarrow> vmess_finish C E uid cache i t h bs [])"
  unfolding wire_view_def by (rule vmess_relay.relay_whole) (simp_all add: assms vmess_step_decide)

lemmas relays_whole = vless_relay_whole trojan_relay_whole socks5_relay_whole ss_relay_whole vmess_relay_whole

lemma wire_view_pair [simp]: "wire_view (r, c) = (tunnel_view r, c)"
  by (simp add: wire_view_def)

text \<open>
  C29: Chunking does not matter. For every wire mode, two ways of cutting the same client bytes into messages
  within the size limit give the same messages to the client or, when the tunnel opens, the same upstream
  address and the same bytes for it, and leave the same replay cache.
\<close>
theorem relay_chunking:
  assumes "chunks_ok ds" "chunks_ok ds'" "concat ds = concat ds'" "re_write_ok E"
  shows "wire_view (run_wire_relay W E wire_mode params cache i t (map ItemData ds)) =
         wire_view (run_wire_relay W E wire_mode params cache i t (map ItemData ds'))"
proof -
  note w = relays_whole [OF _ assms(1) assms(3)] relays_whole [OF _ assms(2) refl]
  show ?thesis
    using assms(4)
    by (auto simp: run_wire_relay_def run_vless_relay_def run_trojan_relay_def run_socks5_relay_def
        run_shadowsocks_relay_def run_vmess_relay_def Let_def w split: option.split sum.split)
qed

definition chunks_example :: "bytes list" where
  "chunks_example = [[5, 1, 0, 5, 1, 0, 1], [10, 0, 0, 7, 0, 80, 9]]"

definition env_example :: relay_env where
  "env_example = \<lparr>re_allowlist = None, re_connect = (\<lambda>_. Connected), re_send_ok = True, re_write_ok = True\<rparr>"

definition wire_example :: "(unit, unit) wire_env" where
  "wire_example = \<lparr>we_uuid_parse = (\<lambda>s. if s = [] then Inl ''empty'' else Inr (replicate 16 1)),
     we_sha224 = (\<lambda>_. replicate 28 0xAB), we_vmess = plain_gcm, we_ss = plain_ss\<rparr>"

theorem relay_chunking_witness:
  "wire_view (run_wire_relay wire_example env_example 5 wire_params_default None 0 0 (map ItemData chunks_example)) =
   wire_view (run_wire_relay wire_example env_example 5 wire_params_default None 0 0 (map ItemData [concat chunks_example]))"
  by (rule relay_chunking) (simp_all add: chunks_ok_def chunks_example_def env_example_def MAX_PROXY_CHUNK_def)

section \<open>From the client to the bridge\<close>

text \<open>What the third-party functions promise: identifiers have 16 bytes, SHA-224 has 28.\<close>

definition wire_env_ok :: "('k, 'c) wire_env \<Rightarrow> bool" where
  "wire_env_ok W \<longleftrightarrow> (\<forall>s u. we_uuid_parse W s = Inr u \<longrightarrow> s \<noteq> [] \<and> length u = 16) \<and>
     (\<forall>b. length (we_sha224 W b) = 28) \<and> vmess_crypto_ok (we_vmess W)"

text \<open>
  The modes in which the relay forwards exactly what the client sends: the server is configured, for VMess the clocks agree and
  the nonce is fresh, and for SOCKS5 no user name and password are required. Shadowsocks and the raw mode are not among them.
\<close>

definition mode_ready :: "WireMode \<Rightarrow> WireParams \<Rightarrow> draws \<Rightarrow> VmessReplayCache option \<Rightarrow> nat \<Rightarrow> int \<Rightarrow> bool" where
  "mode_ready mode params D cache instant unix = (case mode of
      Vless \<Rightarrow> True
    | Trojan \<Rightarrow> wp_password params \<noteq> Some []
    | Socks5 \<Rightarrow> wp_username params = None \<or> wp_password params = None
    | Vmess \<Rightarrow> length (dr_nonce D) = 12 \<and> i64_range (dr_unix D) \<and> \<bar>unix - dr_unix D\<bar> \<le> 120 \<and>
        fst (vmess_check_replay (case cache of None \<Rightarrow> replay_cache_new 120 50000 | Some c \<Rightarrow> c) instant (dr_nonce D))
    | _ \<Rightarrow> False)"

text \<open>The target is allowed, accepts the connection, and the client still listens.\<close>

definition target_open :: "relay_env \<Rightarrow> string \<Rightarrow> u16 \<Rightarrow> bool" where
  "target_open E host port \<longleftrightarrow> allowlist (re_allowlist E) (canonical_host host) = Inr () \<and>
     re_connect E (upstream_addr (canonical_host host) port) = Connected \<and> re_send_ok E \<and> re_write_ok E"

lemma relay_open_view:
  "target_open E host port \<Longrightarrow>
     tunnel_view (relay_open E (canonical_host host) port early pending rest) =
       Inr (upstream_addr (canonical_host host) port, early @ pending @ data_bytes rest)"
  by (simp add: target_open_def relay_open_def tunnel_view_def)

lemma vless_end_to_end:
  assumes "wire_env_ok W" "wf_str host" "length host \<le> 255" "client_uuid W params m = Inr uid"
    and "chunks_ok ds" "concat ds = vless_build_request uid port (host_to_vless_addr host) bs" "target_open E host port"
  shows "tunnel_view (run_vless_relay (we_uuid_parse W) E params (map ItemData ds)) =
    Inr (upstream_addr (canonical_host host) port, bs)"
proof -
  from assms(4) obtain s where s: "wp_uuid params = Some s" "we_uuid_parse W (trim s) = Inr uid"
    by (auto simp: client_uuid_def split: option.split_asm sum.split_asm)
  with assms(1) have l: "trim s \<noteq> []" "length uid = 16" by (auto simp: wire_env_ok_def)
  have "vless_decide (Some uid) (concat ds) = Some (Some (True, port, host_to_vless_addr host, 21 + length (vless_addr_bytes (host_to_vless_addr host))))"
    using vless_build_parse [OF l(2) host_to_vless_addr_ok [OF assms(2,3)], of port bs "Some uid"] assms(6)
    by (simp add: vless_decide_def uuid_matches_def)
  moreover have "drop (21 + length (vless_addr_bytes (host_to_vless_addr host))) (concat ds) = bs"
    using vless_ok_payload [OF vless_build_parse [OF l(2) host_to_vless_addr_ok [OF assms(2,3)]]] by (simp add: assms(6))
  moreover have "re_write_ok E" using assms(7) by (simp add: target_open_def)
  ultimately show ?thesis
    using s l relay_open_view [OF assms(7), of bs "[]" "[]"]
    by (simp add: run_vless_relay_def vless_relay_whole [OF _ assms(5) refl] vless_finish_def host_to_vless_addr_string)
qed

lemma trojan_end_to_end:
  assumes "wire_env_ok W" "wf_str host" "wp_password params = Some pw" "pw \<noteq> []"
    and "trojan_build_address \<lparr>ta_host = host, ta_port = port\<rparr> = Inr a"
    and "chunks_ok ds" "concat ds = trojan_auth_line (we_sha224 W) pw @ a @ bs" "target_open E host port"
  shows "tunnel_view (run_trojan_relay (we_sha224 W) E params (map ItemData ds)) =
    Inr (upstream_addr (canonical_host host) port, bs)"
proof -
  have h: "length (we_sha224 W (as_bytes pw)) = 28" using assms(1) by (simp add: wire_env_ok_def)
  have l: "length (trojan_auth_line (we_sha224 W) pw) = 58"
    by (rule trojan_auth_line_split [of "we_sha224 W" pw, OF h]) (simp add: CRLF_def)
  have "trojan_decide (we_sha224 W) pw (concat ds) = Some (Some (\<lparr>ta_host = canonical_host host, ta_port = port\<rparr>, 58 + length a))"
    using trojan_handshake_roundtrip [of "we_sha224 W" pw, OF h, of "\<lparr>ta_host = host, ta_port = port\<rparr>" a bs] assms(2,5,7)
    by (simp add: trojan_decide_def)
  then show ?thesis
    using assms(3,4,7) l relay_open_view [OF assms(8), of "[]" bs "[]"]
    by (simp add: run_trojan_relay_def trojan_relay_whole [OF _ assms(6) refl] trojan_finish_def)
qed

lemma socks5_end_to_end:
  assumes "wf_str host" "wp_username params = None \<or> wp_password params = None"
    and "socks5_build_pipeline_connect host port = Inr h"
    and "chunks_ok ds" "concat ds = h @ bs" "target_open E host port"
  shows "tunnel_view (run_socks5_relay E params (map ItemData ds)) = Inr (upstream_addr (canonical_host host) port, bs)"
proof -
  have "socks5_decide False (wp_username params) (wp_password params) (concat ds) =
      Some (Inr (\<lparr>st_host = canonical_host host, st_port = port\<rparr>, length h))"
    using socks5_connect_roundtrip [OF assms(1,3)] by (simp add: socks5_decide_def assms(5))
  then show ?thesis
    using assms(2,5) relay_open_view [OF assms(6), of "[]" bs "[]"]
    by (auto simp: run_socks5_relay_def socks5_relay_whole [OF _ assms(4) refl] socks5_finish_def Let_def)
qed

lemma vmess_end_to_end:
  assumes "wire_env_ok W" "wf_str host" "length host \<le> 255" "client_uuid W params m = Inr uid"
    and "mode_ready Vmess params D cache i t"
    and "vmess_client_header (we_vmess W) (dr_unix D) (dr_nonce D) uid port (host_to_vless_addr host) = Inr h"
    and "chunks_ok ds" "concat ds = h @ bs" "target_open E host port"
  shows "fst (wire_view (run_vmess_relay (we_vmess W) (we_uuid_parse W) E params cache i t (map ItemData ds))) =
    Inr (upstream_addr (canonical_host host) port, bs)"
proof -
  from assms(4) obtain s where s: "wp_uuid params = Some s" "we_uuid_parse W (trim s) = Inr uid"
    by (auto simp: client_uuid_def split: option.split_asm sum.split_asm)
  with assms(1) have l: "trim s \<noteq> []" and C: "vmess_crypto_ok (we_vmess W)" by (auto simp: wire_env_ok_def)
  from assms(5) have n: "length (dr_nonce D) = GCM_NONCE_LEN" "i64_range (dr_unix D)" "\<bar>t - dr_unix D\<bar> \<le> 120"
    and fresh: "fst (vmess_check_replay (case cache of None \<Rightarrow> replay_cache_new 120 50000 | Some c \<Rightarrow> c) i (dr_nonce D))"
    by (simp_all add: mode_ready_def GCM_NONCE_LEN_def)
  note rt = vmess_header_roundtrip [OF C n(1,2) host_to_vless_addr_ok [OF assms(2,3)] n(3) assms(6)]
  from vmess_header_shape [OF C assms(6)] have nonce: "take 12 h = dr_nonce D"
    using n(1) by (auto simp: GCM_NONCE_LEN_def)
  have d: "vmess_decide (concat ds) = Some h" using rt [of bs] by (simp add: vmess_decide_def assms(8))
  obtain c' where c': "vmess_check_replay (case cache of None \<Rightarrow> replay_cache_new 120 50000 | Some c \<Rightarrow> c) i (dr_nonce D) = (True, c')"
    using fresh by (metis (full_types) prod.collapse)
  have "fst (wire_view (vmess_finish (we_vmess W) E uid cache i t h (concat ds) [])) = Inr (upstream_addr (canonical_host host) port, bs)"
    using rt [of "[]"] relay_open_view [OF assms(9), of "[]" bs "[]"]
    by (simp add: vmess_finish_def nonce c' host_to_vless_addr_string assms(8))
  with d s l show ?thesis
    by (simp add: run_vmess_relay_def vmess_relay_whole [OF _ assms(7) refl])
qed

lemma relay_delivers:
  assumes "wire_env_ok W" "wf_str host" "length host \<le> 255" "mode_ready mode params D cache i t"
    and "wire_tunnel_first_chunk W D mode params host port tail = Inr first"
    and "chunks_ok ds" "concat ds = first @ bs" "target_open E host port"
  shows "fst (wire_view (run_wire_relay W E (wire_mode_to_proto mode) params cache i t (map ItemData ds))) =
    Inr (upstream_addr (canonical_host host) port, tail @ bs)"
proof (cases mode)
  case Vless
  with assms(5) obtain uid where "client_uuid W params ''vless uuid'' = Inr uid"
      "first = vless_build_request uid port (host_to_vless_addr host) tail"
    by (auto simp: wire_tunnel_first_chunk_def Let_def split: sum.split_asm)
  with vless_end_to_end [OF assms(1-3) this(1) assms(6) _ assms(8), of "tail @ bs"] Vless assms(7)
  show ?thesis by (simp add: run_wire_relay_def vless_build_request_def)
next
  case Trojan
  with assms(5) obtain pw a where "wp_password params = Some pw" "first = trojan_auth_line (we_sha224 W) pw @ a @ tail"
      "trojan_build_address \<lparr>ta_host = host, ta_port = port\<rparr> = Inr a"
    by (auto simp: wire_tunnel_first_chunk_def Let_def split: sum.split_asm option.split_asm)
  moreover from this Trojan assms(4) have "pw \<noteq> []" by (auto simp: mode_ready_def)
  ultimately show ?thesis
    using trojan_end_to_end [OF assms(1,2) _ _ _ assms(6) _ assms(8), of params pw a "tail @ bs"] Trojan assms(7)
    by (simp add: run_wire_relay_def)
next
  case Vmess
  with assms(5) obtain uid h where "client_uuid W params ''vmess uuid'' = Inr uid" "first = h @ tail"
      "vmess_client_header (we_vmess W) (dr_unix D) (dr_nonce D) uid port (host_to_vless_addr host) = Inr h"
    by (auto simp: wire_tunnel_first_chunk_def Let_def split: sum.split_asm)
  with vmess_end_to_end [OF assms(1-3) this(1) assms(4) [unfolded Vmess] this(3) assms(6) _ assms(8), of "tail @ bs"] Vmess assms(7)
  show ?thesis by (simp add: run_wire_relay_def)
next
  case Socks5
  with assms(5) obtain h where "first = h @ tail" "socks5_build_pipeline_connect host port = Inr h"
    by (auto simp: wire_tunnel_first_chunk_def Let_def split: sum.split_asm)
  moreover from Socks5 assms(4) have "wp_username params = None \<or> wp_password params = None" by (simp add: mode_ready_def)
  ultimately show ?thesis
    using socks5_end_to_end [OF assms(2) _ _ assms(6) _ assms(8), of params h "tail @ bs"] Socks5 assms(7)
    by (simp add: run_wire_relay_def)
qed (use assms(4) in \<open>simp_all add: mode_ready_def\<close>)

definition draws_example :: draws where
  "draws_example = \<lparr>dr_unix = 1000, dr_nonce = replicate 12 7, dr_salt = [1, 2, 3, 4]\<rparr>"

lemma socks5_example: "socks5_build_pipeline_connect ''10.0.0.7'' 80 = Inr [5, 1, 0, 5, 1, 0, 1, 10, 0, 0, 7, 0, 80]"
  by code_simp


lemma wf_str_example: "wf_str ''10.0.0.7''"
  by code_simp

lemma target_example: "target_open env_example ''10.0.0.7'' port"
  by (simp add: target_open_def env_example_def allowlist_def)

lemma wire_example_ok: "wire_env_ok wire_example"
  by (simp add: wire_env_ok_def wire_example_def plain_gcm_ok)

lemma ss_handshake_trim: "ss_tcp_server_handshake S buf (trim m) p = ss_tcp_server_handshake S buf m p"
  unfolding ss_tcp_server_handshake_def decrypt_first_payload_def trim_idem ..

text \<open>
  Shadowsocks end to end. The relay connects to the client's target, but what it forwards is the client's
  payload, then \<open>tag_len\<close> bytes left over from the opened packet, then the rest of the stream: the tag of
  the first packet reaches the destination in the middle of the data.
\<close>
lemma shadowsocks_end_to_end:
  assumes "ss_crypto_ok (we_ss W)" "wf_str host" "length tail \<le> 65276"
    and "wp_method params = Some m" "trim m \<noteq> []" "sc_parse (we_ss W) (trim m) = Some k" "length (dr_salt D) = sc_salt_len (we_ss W) k"
    and "wp_password params = Some pw" "pw \<noteq> []"
    and "wire_tunnel_first_chunk W D Shadowsocks params host port tail = Inr first"
    and "chunks_ok ds" "concat ds = first @ bs" "target_open E host port"
  shows "\<exists>tag. length tag = sc_tag_len (we_ss W) k \<and>
    fst (wire_view (run_wire_relay W E (wire_mode_to_proto Shadowsocks) params cache i t (map ItemData ds))) =
      Inr (upstream_addr (canonical_host host) port, tail @ tag @ bs)"
proof -
  have c: "ss_client_first_chunk (we_ss W) (dr_salt D) m pw \<lparr>ta_host = host, ta_port = port\<rparr> tail = Inr first"
    using assms(4,8,10) by (simp add: wire_tunnel_first_chunk_def Let_def)
  from ss_first_chunk_read [OF assms(1,6,7) _ assms(3) c, of bs] assms(2) obtain tag where
    tag: "length tag = sc_tag_len (we_ss W) k" and h: "ss_tcp_server_handshake (we_ss W) (first @ bs) m pw =
        SsReady \<lparr>ta_host = canonical_host host, ta_port = port\<rparr> (length first) (tail @ tag)"
    by auto
  have "ss_decide (we_ss W) (trim m) pw (concat ds) = Some (Inr (\<lparr>ta_host = canonical_host host, ta_port = port\<rparr>, length first, tail @ tag))"
    by (simp add: ss_decide_def ss_handshake_trim assms(12) h)
  then have "fst (wire_view (run_wire_relay W E (wire_mode_to_proto Shadowsocks) params cache i t (map ItemData ds))) =
      Inr (upstream_addr (canonical_host host) port, tail @ tag @ bs)"
    using assms(4,5,8,9,12) relay_open_view [OF assms(13), of "[]" "(tail @ tag) @ bs" "[]"]
    by (simp add: run_wire_relay_def run_shadowsocks_relay_def ss_relay_whole [OF _ assms(11) refl] ss_finish_def)
  with tag show ?thesis by blast
qed

text \<open>SOCKS5 with credentials: the client offers no authentication, which the server does not take.\<close>

lemma socks5_credentials_refused:
  assumes "wp_username params \<noteq> None" "wp_password params \<noteq> None"
    and "socks5_build_pipeline_connect host port = Inr h" "chunks_ok ds" "concat ds = h @ bs"
  shows "tunnel_view (run_socks5_relay E params (map ItemData ds)) \<noteq> Inr x"
proof -
  obtain r where "h = [5, 1, 0] @ r"
    using assms(3) by (auto simp: socks5_build_pipeline_connect_def Let_def split: host_kind.split_asm if_split_asm)
  then have "socks5_decide True (wp_username params) (wp_password params) (concat ds) = Some (Inl ''socks5: username auth required'')"
    by (simp add: assms(5) socks5_decide_def socks5_server_parse_def socks5_auth_def slice_def)
  then show ?thesis
    using assms(1,2) by (simp add: run_socks5_relay_def socks5_relay_whole [OF _ assms(4) refl] socks5_finish_def Let_def)
qed

text \<open>
  All modes: what the server of the mode needs, which clients it takes (the raw mode has no handshake and is not served by the relay),
  and how many bytes of the first Shadowsocks packet are left over behind its payload.
\<close>

definition wire_ready ::
    "('k, 'c) wire_env \<Rightarrow> WireMode \<Rightarrow> WireParams \<Rightarrow> draws \<Rightarrow> VmessReplayCache option \<Rightarrow> nat \<Rightarrow> int \<Rightarrow> bytes \<Rightarrow> bool" where
  "wire_ready W mode params D cache instant unix tail = (case mode of
      Shadowsocks \<Rightarrow> ss_crypto_ok (we_ss W) \<and> length tail \<le> 65276 \<and> wp_password params \<noteq> Some [] \<and>
        (case wp_method params of
           None \<Rightarrow> True
         | Some m \<Rightarrow> trim m \<noteq> [] \<and>
            (case sc_parse (we_ss W) (trim m) of None \<Rightarrow> True | Some k \<Rightarrow> length (dr_salt D) = sc_salt_len (we_ss W) k))
    | Socks5 \<Rightarrow> True
    | RawTcpRelay \<Rightarrow> True
    | _ \<Rightarrow> mode_ready mode params D cache instant unix)"

definition relay_takes :: "WireMode \<Rightarrow> WireParams \<Rightarrow> bool" where
  "relay_takes mode params \<longleftrightarrow> mode \<noteq> RawTcpRelay \<and> \<not> (mode = Socks5 \<and> wp_username params \<noteq> None \<and> wp_password params \<noteq> None)"

definition leftover_len :: "('k, 'c) wire_env \<Rightarrow> WireMode \<Rightarrow> WireParams \<Rightarrow> nat" where
  "leftover_len W mode params = (case mode of
      Shadowsocks \<Rightarrow> (case wp_method params of
          None \<Rightarrow> 0
        | Some m \<Rightarrow> (case sc_parse (we_ss W) (trim m) of None \<Rightarrow> 0 | Some k \<Rightarrow> sc_tag_len (we_ss W) k))
    | _ \<Rightarrow> 0)"

lemma shadowsocks_delivers:
  assumes "wf_str host" "wire_ready W Shadowsocks params D cache i t tail"
    and "wire_tunnel_first_chunk W D Shadowsocks params host port tail = Inr first"
    and "chunks_ok ds" "concat ds = first @ bs" "target_open E host port"
  shows "\<exists>tag. length tag = leftover_len W Shadowsocks params \<and>
    fst (wire_view (run_wire_relay W E (wire_mode_to_proto Shadowsocks) params cache i t (map ItemData ds))) =
      Inr (upstream_addr (canonical_host host) port, tail @ tag @ bs)"
proof -
  from assms(3) obtain m pw k where m: "wp_method params = Some m" "wp_password params = Some pw" "sc_parse (we_ss W) (trim m) = Some k"
    by (auto simp: wire_tunnel_first_chunk_def ss_client_first_chunk_def Let_def split: option.split_asm)
  with assms(2) have r: "ss_crypto_ok (we_ss W)" "length tail \<le> 65276" "pw \<noteq> []" "trim m \<noteq> []" "length (dr_salt D) = sc_salt_len (we_ss W) k"
    by (simp_all add: wire_ready_def)
  from shadowsocks_end_to_end [OF r(1) assms(1) r(2) m(1) r(4) m(3) r(5) m(2) r(3) assms(3-6)] m show ?thesis
    by (simp add: leftover_len_def)
qed

text \<open>
  C4: End to end, in every wire mode. A client and the server share the wire parameters, the server of the mode is ready, and the target
  is allowed and accepts. The bytes the client builds for a host and port, followed by anything and cut into messages in any way,
  make the relay connect to exactly that host (in canonical form) and port and forward the client's payload and what
  follows it, and nothing else for VLESS, Trojan, VMess and SOCKS5 without credentials. For Shadowsocks the bytes of one packet tag
  are forwarded in between. With a SOCKS5 user name and password configured the relay takes no client of its own side, and it
  does not serve the raw mode.
\<close>
theorem relay_end_to_end:
  assumes "wire_env_ok W" "wf_str host" "length host \<le> 255" "wire_ready W mode params D cache i t tail"
    and "wire_tunnel_first_chunk W D mode params host port tail = Inr first"
    and "chunks_ok ds" "concat ds = first @ bs" "target_open E host port"
  defines "view \<equiv> fst (wire_view (run_wire_relay W E (wire_mode_to_proto mode) params cache i t (map ItemData ds)))"
  shows "if relay_takes mode params
    then \<exists>tag. length tag = leftover_len W mode params \<and> view = Inr (upstream_addr (canonical_host host) port, tail @ tag @ bs)
    else \<forall>x. view \<noteq> Inr x"
proof (cases "mode_ready mode params D cache i t")
  case True
  then have "relay_takes mode params" "leftover_len W mode params = 0"
    by (auto simp: mode_ready_def relay_takes_def leftover_len_def split: WireMode.split_asm)
  with relay_delivers [OF assms(1-3) True assms(5-8)] show ?thesis by (simp add: view_def)
next
  case False
  with assms(4) consider "mode = RawTcpRelay" | "mode = Shadowsocks" | "mode = Socks5" "wp_username params \<noteq> None" "wp_password params \<noteq> None"
    by (cases mode) (auto simp: wire_ready_def mode_ready_def)
  then show ?thesis
  proof cases
    case 1
    then show ?thesis by (simp add: relay_takes_def view_def run_wire_relay_def refuse_def tunnel_view_def)
  next
    case 2
    then show ?thesis using shadowsocks_delivers [OF assms(2) assms(4) [unfolded 2] assms(5) [unfolded 2] assms(6-8)] by (simp add: relay_takes_def view_def)
  next
    case 3
    with assms(5) obtain h where "first = h @ tail" "socks5_build_pipeline_connect host port = Inr h"
      by (auto simp: wire_tunnel_first_chunk_def Let_def split: sum.split_asm)
    with socks5_credentials_refused [OF 3(2,3) _ assms(6), of host port h "tail @ bs"] assms(7) 3 show ?thesis
      by (simp add: relay_takes_def view_def run_wire_relay_def)
  qed
qed

definition ss_params_example :: WireParams where
  "ss_params_example = wire_params_default\<lparr>wp_method := Some ''plain'', wp_password := Some ''pw''\<rparr>"

lemma plain_ss_ok: "ss_crypto_ok plain_ss"
  by (auto simp: ss_crypto_ok_def plain_ss_def)

text \<open>A SOCKS5 and a Shadowsocks client.\<close>

theorem relay_end_to_end_witness:
  "fst (wire_view (run_wire_relay wire_example env_example (wire_mode_to_proto Socks5) wire_params_default None 0 0
      (map ItemData chunks_example))) = Inr (upstream_addr (canonical_host ''10.0.0.7'') 80, [9] @ []) \<and>
   (\<exists>first tag. wire_tunnel_first_chunk wire_example draws_example Shadowsocks ss_params_example ''10.0.0.7'' 80 [9] = Inr first \<and>
    length tag = 2 \<and>
    fst (wire_view (run_wire_relay wire_example env_example (wire_mode_to_proto Shadowsocks) ss_params_example None 0 0
      (map ItemData [first]))) = Inr (upstream_addr (canonical_host ''10.0.0.7'') 80, [9] @ tag @ []))"
proof (rule conjI)
  have c: "wire_tunnel_first_chunk wire_example draws_example Socks5 wire_params_default ''10.0.0.7'' 80 [9] = Inr (concat chunks_example)"
    by (simp add: wire_tunnel_first_chunk_def socks5_example chunks_example_def)
  show "fst (wire_view (run_wire_relay wire_example env_example (wire_mode_to_proto Socks5) wire_params_default None 0 0
      (map ItemData chunks_example))) = Inr (upstream_addr (canonical_host ''10.0.0.7'') 80, [9] @ [])"
    using relay_end_to_end [OF wire_example_ok wf_str_example _ _ c, of None 0 0 chunks_example "[]" env_example]
    by (simp add: target_example wire_ready_def relay_takes_def leftover_len_def chunks_ok_def chunks_example_def MAX_PROXY_CHUNK_def wire_params_default_def)
next
  have tr: "trim ''plain'' = ''plain''" by code_simp
  have a: "trojan_build_address \<lparr>ta_host = ''10.0.0.7'', ta_port = 80\<rparr> = Inr [1, 10, 0, 0, 7, 0, 80]" by code_simp
  define first where "first = [1, 2, 3, 4] @ (u16_to_be_bytes 8 @ [0, 0]) @ ([1, 10, 0, 0, 7, 0, 80] @ [9] @ [0, 0])"
  have f: "wire_tunnel_first_chunk wire_example draws_example Shadowsocks ss_params_example ''10.0.0.7'' 80 [9] = Inr first"
    by (simp add: wire_tunnel_first_chunk_def ss_params_example_def ss_client_first_chunk_def wire_example_def plain_ss_def tr a
        draws_example_def first_def eval_nat_numeral)
  have r: "wire_ready wire_example Shadowsocks ss_params_example draws_example None 0 0 [9]"
    by (simp add: wire_ready_def wire_example_def plain_ss_ok ss_params_example_def tr draws_example_def) (simp add: plain_ss_def)
  have l: "leftover_len wire_example Shadowsocks ss_params_example = 2" "relay_takes Shadowsocks ss_params_example"
    by (simp_all add: leftover_len_def relay_takes_def ss_params_example_def tr wire_example_def plain_ss_def)
  show "\<exists>first tag. wire_tunnel_first_chunk wire_example draws_example Shadowsocks ss_params_example ''10.0.0.7'' 80 [9] = Inr first \<and>
    length tag = 2 \<and>
    fst (wire_view (run_wire_relay wire_example env_example (wire_mode_to_proto Shadowsocks) ss_params_example None 0 0
      (map ItemData [first]))) = Inr (upstream_addr (canonical_host ''10.0.0.7'') 80, [9] @ tag @ [])"
    using relay_end_to_end [OF wire_example_ok wf_str_example _ r f, of "[first]" "[]" env_example] f l
    by (auto simp: target_example chunks_ok_def MAX_PROXY_CHUNK_def first_def)
qed

section \<open>Who reaches what\<close>

text \<open>Every outcome other than an early return comes from the parser, run on a prefix of the client's bytes.\<close>

lemma relay_loop_step:
  assumes "r \<noteq> rp_ended P" "\<And>e. r \<noteq> rp_failed P e" "r \<noteq> rp_opened P" "r \<noteq> rp_finished P" "Some r \<noteq> rp_too_large P"
  shows "relay_loop P buf items = r \<Longrightarrow> \<exists>bs ys rest. rp_step P bs rest = Some r \<and> buf @ data_bytes items = bs @ ys"
proof (induction items arbitrary: buf)
  case (Cons x items)
  show ?case
  proof (cases x)
    case (ItemData d)
    show ?thesis
    proof (cases "rp_step P (buf @ d) items")
      case None
      with Cons.prems ItemData assms(5) have "relay_loop P (buf @ d) items = r" by (auto split: if_split_asm option.split_asm)
      from Cons.IH [OF this] ItemData show ?thesis by simp
    next
      case (Some q)
      with Cons.prems ItemData assms(5) have "q = r" by (auto split: if_split_asm option.split_asm)
      with Some ItemData show ?thesis by auto
    qed
  qed (use Cons assms in auto)
qed (use assms in simp)

lemma relay_open_bridged:
  "relay_open E host port early pending rest = RelayBridged up e p r \<Longrightarrow>
     up = upstream_addr host port \<and> allowlist (re_allowlist E) host = Inr () \<and> re_connect E up = Connected"
  by (auto simp: relay_open_def refuse_def split: sum.split_asm connect_result.split_asm if_split_asm)

lemma refuse_not_bridged [simp]: "refuse m \<noteq> RelayBridged up e p r" "RelayBridged up e p r \<noteq> refuse m"
  by (simp_all add: refuse_def)

text \<open>A bridged tunnel of a relay comes from a parser step that opened an allow-listed target.\<close>

definition opened :: "relay_env \<Rightarrow> string \<Rightarrow> bool" where
  "opened E up \<longleftrightarrow> (\<exists>host port. up = upstream_addr host port \<and> allowlist (re_allowlist E) host = Inr () \<and> re_connect E up = Connected)"

lemma opened_relay_open: "relay_open E host port early pending rest = RelayBridged up e p r \<Longrightarrow> opened E up"
  using relay_open_bridged by (fastforce simp: opened_def)

lemma vless_bridged:
  assumes "run_vless_relay uuid_parse E params inbound = RelayBridged up e p r"
  shows "\<exists>s u. wp_uuid params = Some s \<and> uuid_parse (trim s) = Inr u \<and> slice 1 17 (data_bytes inbound) = u \<and> opened E up"
proof -
  from assms obtain s u where s: "wp_uuid params = Some s" "uuid_parse (trim s) = Inr u"
    by (auto simp: run_vless_relay_def split: option.split_asm if_split_asm sum.split_asm)
  with assms obtain bs ys rest where
    st: "vless_step E u bs rest = Some (RelayBridged up e p r)" and b: "data_bytes inbound = bs @ ys"
    by (auto simp: run_vless_relay_def split: if_split_asm dest!: relay_loop_step [rotated 5])
  from st obtain port addr payload start where v: "vless_parse_request bs (Some u) = VlessOk True port addr payload start"
    and op: "relay_open E (host_string addr) port payload (drop (start + length payload) bs) rest = RelayBridged up e p r"
    by (auto simp: vless_step_def split: VlessParseResult.split_asm if_split_asm)
  from v have "22 \<le> length bs" "slice 1 17 bs = u" by (auto simp: vless_parse_ok_iff Let_def uuid_matches_def)
  then have "slice 1 17 (data_bytes inbound) = u" by (simp add: b slice_simps)
  with s opened_relay_open [OF op] show ?thesis by blast
qed

lemma trojan_bridged:
  assumes "run_trojan_relay sha224 E params inbound = RelayBridged up e p r"
  shows "\<exists>pw. wp_password params = Some pw \<and> take 56 (data_bytes inbound) = take 56 (trojan_auth_line sha224 pw) \<and> opened E up"
proof -
  from assms obtain pw bs ys rest where pw: "wp_password params = Some pw" and
    st: "trojan_step sha224 E pw bs rest = Some (RelayBridged up e p r)" and b: "data_bytes inbound = bs @ ys"
    by (auto simp: run_trojan_relay_def split: if_split_asm option.split_asm dest!: relay_loop_step [rotated 5])
  from st obtain addr n where v: "trojan_server_handshake sha224 bs pw = TrojanReady addr n"
    and op: "relay_open E (ta_host addr) (ta_port addr) [] (drop n bs) rest = RelayBridged up e p r"
    by (auto simp: trojan_step_def split: TrojanHandshakeResult.split_asm)
  from v have "find_crlf bs = Some 56" "take 56 bs = take 56 (trojan_auth_line sha224 pw)"
    by (auto simp: trojan_ready_iff trojan_parse_and_verify_def split: if_split_asm)
  with find_crlf_bound [of bs 56] have "take 56 (data_bytes inbound) = take 56 (trojan_auth_line sha224 pw)" by (simp add: b)
  with pw opened_relay_open [OF op] show ?thesis by blast
qed








text \<open>
  C28: Credentials before anything else. A VLESS tunnel is only bridged for a client whose stream carries the
  configured identifier at its place, a Trojan tunnel only for one whose stream starts with the hex SHA-224
  of the configured password; a server without such a parameter bridges nothing.
\<close>
theorem relay_authenticated:
  assumes "run_wire_relay W E wire_mode params cache i t inbound = (RelayBridged up e p r, c)"
  shows "(wire_mode = 1 \<longrightarrow> (\<exists>s u. wp_uuid params = Some s \<and> we_uuid_parse W (trim s) = Inr u \<and> slice 1 17 (data_bytes inbound) = u)) \<and>
    (wire_mode = 2 \<longrightarrow> (\<exists>pw. wp_password params = Some pw \<and>
        take 56 (data_bytes inbound) = take 56 (trojan_auth_line (we_sha224 W) pw)))"
proof (intro conjI impI)
  assume "wire_mode = 1"
  with assms have "run_vless_relay (we_uuid_parse W) E params inbound = RelayBridged up e p r" by (simp add: run_wire_relay_def)
  from vless_bridged [OF this] show "\<exists>s u. wp_uuid params = Some s \<and> we_uuid_parse W (trim s) = Inr u \<and> slice 1 17 (data_bytes inbound) = u"
    by blast
next
  assume "wire_mode = 2"
  with assms have "run_trojan_relay (we_sha224 W) E params inbound = RelayBridged up e p r" by (simp add: run_wire_relay_def)
  from trojan_bridged [OF this] show "\<exists>pw. wp_password params = Some pw \<and> take 56 (data_bytes inbound) = take 56 (trojan_auth_line (we_sha224 W) pw)"
    by blast
qed

definition trojan_params_example :: WireParams where
  "trojan_params_example = wire_params_default\<lparr>wp_password := Some ''pw''\<rparr>"

lemma trojan_example_runs:
  obtains first up e p r where
    "wire_tunnel_first_chunk wire_example draws_example Trojan trojan_params_example ''10.0.0.7'' 80 [9] = Inr first"
    "run_wire_relay wire_example env_example 2 trojan_params_example None 0 0 [ItemData first] = (RelayBridged up e p r, None)"
proof -
  have a: "trojan_build_address \<lparr>ta_host = ''10.0.0.7'', ta_port = 80\<rparr> = Inr [1, 10, 0, 0, 7, 0, 80]" by code_simp
  define first where "first = trojan_auth_line (we_sha224 wire_example) ''pw'' @ [1, 10, 0, 0, 7, 0, 80] @ [9]"
  have f: "wire_tunnel_first_chunk wire_example draws_example Trojan trojan_params_example ''10.0.0.7'' 80 [9] = Inr first"
    by (simp add: wire_tunnel_first_chunk_def trojan_params_example_def a first_def)
  have l: "length (we_sha224 wire_example (as_bytes ''pw'')) = 28" by (simp add: wire_example_def)
  have "length first \<le> 100"
    by (rule trojan_auth_line_split [of "we_sha224 wire_example" "''pw''", OF l]) (simp add: first_def CRLF_def)
  then have "tunnel_view (run_trojan_relay (we_sha224 wire_example) env_example trojan_params_example (map ItemData [first])) =
      Inr (upstream_addr (canonical_host ''10.0.0.7'') 80, [9])"
    by (intro trojan_end_to_end [OF wire_example_ok wf_str_example _ _ a _ _ target_example, of _ "''pw''"])
       (simp_all add: trojan_params_example_def chunks_ok_def MAX_PROXY_CHUNK_def first_def)
  then obtain up e p r where "run_trojan_relay (we_sha224 wire_example) env_example trojan_params_example [ItemData first] = RelayBridged up e p r"
    by (auto simp: tunnel_view_def split: relay_end.split_asm)
  then have "run_wire_relay wire_example env_example 2 trojan_params_example None 0 0 [ItemData first] = (RelayBridged up e p r, None)"
    by (simp add: run_wire_relay_def)
  with f show thesis by (rule that)
qed

theorem relay_authenticated_witness:
  "\<exists>first up e p r. wire_tunnel_first_chunk wire_example draws_example Trojan trojan_params_example ''10.0.0.7'' 80 [9] = Inr first \<and>
     run_wire_relay wire_example env_example 2 trojan_params_example None 0 0 [ItemData first] = (RelayBridged up e p r, None) \<and>
     take 56 first = take 56 (trojan_auth_line (we_sha224 wire_example) ''pw'')"
proof -
  obtain first up e p r where f: "wire_tunnel_first_chunk wire_example draws_example Trojan trojan_params_example ''10.0.0.7'' 80 [9] = Inr first"
    and r: "run_wire_relay wire_example env_example 2 trojan_params_example None 0 0 [ItemData first] = (RelayBridged up e p r, None)"
    by (rule trojan_example_runs)
  from relay_authenticated [OF r] have "take 56 first = take 56 (trojan_auth_line (we_sha224 wire_example) ''pw'')"
    by (simp add: trojan_params_example_def)
  with f r show ?thesis by blast
qed

section \<open>A replay the cache misses\<close>

text \<open>The cache is updated by a completed header, whatever becomes of it.\<close>

lemma vmess_run_cache:
  assumes "wp_uuid params = Some s" "trim s \<noteq> []" "uuid_parse (trim s) = Inr uid" "chunks_ok ds"
    and "vmess_decide (concat ds) = Some h" "vmess_server_open_header C t uid h \<noteq> Inr None"
  shows "snd (wire_view (run_vmess_relay C uuid_parse E params cache i t (map ItemData ds))) =
    Some (snd (vmess_check_replay (case cache of None \<Rightarrow> replay_cache_new 120 50000 | Some c \<Rightarrow> c) i (take 12 h)))"
  using assms(1-3,5,6)
  by (simp add: run_vmess_relay_def vmess_relay_whole [OF _ assms(4) refl] vmess_finish_def Let_def
      split: prod.split sum.split option.split)

lemma fresh_cache_forgets:
  assumes "i + 120 * 10 ^ 9 < i'"
  shows "fst (vmess_check_replay (snd (vmess_check_replay (replay_cache_new 120 50000) i n)) i' n)"
  using assms
  by (simp add: vmess_check_replay_def replay_check_and_insert_def replay_cache_new_def replay_evict_def hm_len_def hm_contains_def)

text \<open>
  VMess replay. The replay cache forgets a nonce after 120 seconds while a header is accepted until 120
  seconds after its own time stamp. A recorded first flight of a client whose clock is ahead of the server's
  is therefore accepted a second time: whenever both instants lie in the window of the time stamp and more
  than 120 seconds apart, the relay connects twice and forwards the same bytes twice.
\<close>
theorem vmess_replay_after_ttl:
  assumes "wire_env_ok W" "wf_str host" "length host \<le> 255" "target_open E host port"
    and "length (dr_nonce D) = 12" "i64_range (dr_unix D)" "\<bar>t - dr_unix D\<bar> \<le> 120" "\<bar>t' - dr_unix D\<bar> \<le> 120"
    and "i + 120 * 10 ^ 9 < i'"
    and "wire_tunnel_first_chunk W D Vmess params host port tail = Inr first" "chunks_ok ds" "concat ds = first"
    and "run_wire_relay W E 3 params None i t (map ItemData ds) = (r, c)"
  shows "tunnel_view r = Inr (upstream_addr (canonical_host host) port, tail) \<and>
    fst (wire_view (run_wire_relay W E 3 params c i' t' (map ItemData ds))) = Inr (upstream_addr (canonical_host host) port, tail)"
proof -
  from assms(10) obtain uid h where u: "client_uuid W params ''vmess uuid'' = Inr uid" and first: "first = h @ tail"
    and h: "vmess_client_header (we_vmess W) (dr_unix D) (dr_nonce D) uid port (host_to_vless_addr host) = Inr h"
    by (auto simp: wire_tunnel_first_chunk_def Let_def split: sum.split_asm)
  from u obtain s where s: "wp_uuid params = Some s" "we_uuid_parse W (trim s) = Inr uid"
    by (auto simp: client_uuid_def split: option.split_asm sum.split_asm)
  with assms(1) have ne: "trim s \<noteq> []" and C: "vmess_crypto_ok (we_vmess W)" by (auto simp: wire_env_ok_def)
  have run: "run_wire_relay W E 3 params cache j u (map ItemData ds) =
      run_vmess_relay (we_vmess W) (we_uuid_parse W) E params cache j u (map ItemData ds)" for cache j u
    by (simp add: run_wire_relay_def)
  have ds: "concat ds = h @ tail" using assms(12) first by simp
  have new: "mode_ready Vmess params D None i t"
    using assms(5-7) by (simp add: mode_ready_def vmess_check_replay_def replay_check_and_insert_def replay_cache_new_def
        replay_evict_def hm_len_def hm_contains_def)
  note e2e = vmess_end_to_end [OF assms(1-3) u _ h assms(11) ds assms(4)]
  have first_run: "tunnel_view r = Inr (upstream_addr (canonical_host host) port, tail)"
    using e2e [OF new] assms(13) by (simp add: run)
  from C assms(5) have n: "length (dr_nonce D) = GCM_NONCE_LEN" by (simp add: GCM_NONCE_LEN_def)
  note rt = vmess_header_roundtrip [OF C n assms(6) host_to_vless_addr_ok [OF assms(2,3)] assms(7) h]
  have d: "vmess_decide (concat ds) = Some h" using rt [of tail] by (simp add: vmess_decide_def ds)
  have "take 12 h = dr_nonce D" using vmess_header_shape [OF C h] assms(5) by auto
  then have "c = Some (snd (vmess_check_replay (replay_cache_new 120 50000) i (dr_nonce D)))"
    using vmess_run_cache [of params s "we_uuid_parse W" uid ds h "we_vmess W" t E None i, OF s(1) ne s(2) assms(11) d]
      rt [of "[]"] assms(13) by (simp add: run)
  then have "mode_ready Vmess params D c i' t'"
    using assms(5,6,8) fresh_cache_forgets [OF assms(9)] by (simp add: mode_ready_def)
  from e2e [OF this] first_run show ?thesis by (simp add: run)
qed

definition vmess_params_example :: WireParams where
  "vmess_params_example = wire_params_default\<lparr>wp_uuid := Some ''u''\<rparr>"

theorem vmess_replay_after_ttl_witness:
  "\<exists>first r c. wire_tunnel_first_chunk wire_example draws_example Vmess vmess_params_example ''10.0.0.7'' 80 [9] = Inr first \<and>
     run_wire_relay wire_example env_example 3 vmess_params_example None 0 900 [ItemData first] = (r, c) \<and>
     tunnel_view r = Inr (upstream_addr (canonical_host ''10.0.0.7'') 80, [9]) \<and>
     fst (wire_view (run_wire_relay wire_example env_example 3 vmess_params_example c (121 * 10 ^ 9) 1021 [ItemData first])) =
       Inr (upstream_addr (canonical_host ''10.0.0.7'') 80, [9])"
proof -
  have tr: "trim ''u'' = ''u''" by code_simp
  have u: "client_uuid wire_example vmess_params_example ''vmess uuid'' = Inr (replicate 16 1)"
    by (simp add: client_uuid_def vmess_params_example_def wire_example_def tr)
  have cl: "classify_host ''10.0.0.7'' = HostV4 [10, 0, 0, 7]" by code_simp
  have a: "host_to_vless_addr ''10.0.0.7'' = IpV4 [10, 0, 0, 7]" by (simp add: host_to_vless_addr_def cl)
  obtain h where h: "vmess_client_header plain_gcm 1000 (replicate 12 7) (replicate 16 1) 80 (IpV4 [10, 0, 0, 7]) = Inr h" "length h \<le> 100"
    by (simp add: vmess_client_header_def plain_gcm_def vmess_plain_def HEADER_PLAIN_MAX_def)
  have f: "wire_tunnel_first_chunk wire_example draws_example Vmess vmess_params_example ''10.0.0.7'' 80 [9] = Inr (h @ [9])"
    by (simp add: wire_tunnel_first_chunk_def u a draws_example_def) (simp add: wire_example_def h)
  obtain r c where r: "run_wire_relay wire_example env_example 3 vmess_params_example None 0 900 (map ItemData [h @ [9]]) = (r, c)"
    by (cases "run_wire_relay wire_example env_example 3 vmess_params_example None 0 900 (map ItemData [h @ [9]])")
  have "tunnel_view r = Inr (upstream_addr (canonical_host ''10.0.0.7'') 80, [9]) \<and>
     fst (wire_view (run_wire_relay wire_example env_example 3 vmess_params_example c (121 * 10 ^ 9) 1021 (map ItemData [h @ [9]]))) =
       Inr (upstream_addr (canonical_host ''10.0.0.7'') 80, [9])"
    by (rule vmess_replay_after_ttl [OF wire_example_ok wf_str_example _ target_example _ _ _ _ _ f _ _ r])
       (use h(2) in \<open>simp_all add: draws_example_def i64_range_def i64_min_def i64_max_def chunks_ok_def MAX_PROXY_CHUNK_def\<close>)
  with f r show ?thesis by auto
qed

end
