(* ===== verification/Connection_Api.thy ===== *)
theory Connection_Api
  imports Server_Auth Session_Db Deploy_Core Wire_Relay
begin

text \<open>
  The control plane of managed sessions (\<open>create_connection\<close>, \<open>close_connection\<close>, \<open>get_stats\<close> and
  \<open>update_settings\<close> of \<^verbatim>\<open>server/src/deploy_service.rs\<close> with their validators). A handler takes the state of the
  service and returns its answer with the new state; \<open>None\<close> as an answer is a panic. JSON, the digest, time
  zones and the range of dates are third-party and collected in \<open>service_env\<close>; clocks, random bytes and the
  outcome of the database call are arguments, and the audit of authenticated clients is left out. The theory
  shows that every handler moves the session table by one of its operations or not at all, so that the key
  invariant holds in every run of the service, and that only the owner of a session changes it.
\<close>

section \<open>Service\<close>

record 'tz service_env =
  se_crypto :: auth_crypto
  se_sha256 :: "bytes \<Rightarrow> bytes"
  se_json_check :: "string \<Rightarrow> string + unit"
  se_wire_decode :: "string \<Rightarrow> string + WireParams"
  se_policy_print :: "StoredPolicy \<Rightarrow> string + string"
  se_policy_parse :: "string \<Rightarrow> string + StoredPolicy"
  se_tz_parse :: "string \<Rightarrow> 'tz option"
  se_utc :: 'tz
  se_to_local :: "'tz \<Rightarrow> int \<Rightarrow> u32 \<times> nat"
  se_date_ok :: "int \<Rightarrow> bool"
  se_db_text :: "DbError \<Rightarrow> string"

record service =
  sv_auth :: "ServerAuth option"
  sv_db :: "session_table option"

definition NO_METADATA_DB :: string where
  "NO_METADATA_DB = ''metadata database is not configured; set DEPLOY_SQLITE_URL or DATABASE_URL on deploy-server''"

text \<open>\<open>hex::encode\<close>.\<close>

definition hex_encode :: "bytes \<Rightarrow> string" where
  "hex_encode b = concat (map (\<lambda>x. [hex_digit (unat x div 16), hex_digit (unat x mod 16)]) b)"

definition hash_session_token_hex :: "'tz service_env \<Rightarrow> string \<Rightarrow> string" where
  "hash_session_token_hex E token = hex_encode (se_sha256 E (as_bytes token))"

definition policy_json_from_proto :: "'tz service_env \<Rightarrow> ProxyConnectionPolicy \<Rightarrow> status + string" where
  "policy_json_from_proto E p = (case se_policy_print E (policy_from_proto p) of Inl e \<Rightarrow> Inl (Internal e) | Inr s \<Rightarrow> Inr s)"

definition parse_policy_json :: "'tz service_env \<Rightarrow> string \<Rightarrow> status + StoredPolicy" where
  "parse_policy_json E s = (case se_policy_parse E s of Inl e \<Rightarrow> Inl (Internal (''policy json: '' @ e)) | Inr p \<Rightarrow> Inr p)"

definition policy_default :: ProxyConnectionPolicy where
  "policy_default = \<lparr>pc_max_session_duration_sec = None, pc_traffic_total_bytes = None, pc_traffic_bytes_in_limit = None,
     pc_traffic_bytes_out_limit = None, pc_active_idle_timeout_sec = None, pc_access_schedule = None,
     pc_never_expires = None, pc_limit_duration_by_active_time = None, pc_max_concurrent_devices_per_session = None\<rparr>"

text \<open>The opening of the four handlers: database, project, authentication, client key.\<close>

definition require_auth ::
    "'tz service_env \<Rightarrow> int \<Rightarrow> metadata \<Rightarrow> string \<Rightarrow> string \<Rightarrow> service \<Rightarrow> (status + string) \<times> service" where
  "require_auth E now_ms m meth project_id S =
    (if sv_db S = None then (Inl (FailedPrecondition NO_METADATA_DB), S)
     else case validate_project_id project_id of
         Inl e \<Rightarrow> (Inl (InvalidArgument e), S)
       | Inr _ \<Rightarrow>
          (case sv_auth S of
             None \<Rightarrow> (Inl (FailedPrecondition (''authentication disabled; '' @ meth @ '' unavailable'')), S)
           | Some a \<Rightarrow>
              (case server_verify (se_crypto E) now_ms m meth (signing_payload meth project_id []) a of
                 (Inl e, a') \<Rightarrow> (Inl (Unauthenticated (auth_error_string e)), S\<lparr>sv_auth := Some a'\<rparr>)
               | (Inr _, a') \<Rightarrow>
                  (case meta_text (se_crypto E) m META_PUBKEY of
                     None \<Rightarrow> (Inl (Unauthenticated ''missing pubkey''), S\<lparr>sv_auth := Some a'\<rparr>)
                   | Some pk \<Rightarrow> (Inr pk, S\<lparr>sv_auth := Some a'\<rparr>)))))"

section \<open>Validation of wire and ingress settings\<close>

definition blank :: "string option \<Rightarrow> bool" where
  "blank s = (case s of None \<Rightarrow> True | Some t \<Rightarrow> trim t = [])"

definition validate_inbound_wire ::
    "'tz service_env \<Rightarrow> int option \<Rightarrow> string option \<Rightarrow> status + (int option \<times> string option)" where
  "validate_inbound_wire E wire_mode wire_config_json = (case (wire_mode, wire_config_json) of
      (None, None) \<Rightarrow> Inr (None, None)
    | (Some m, Some j0) \<Rightarrow>
       (let j = trim j0 in
        if j = [] then Inl (InvalidArgument ''wire_config_json is empty'')
        else if m \<notin> {1, 2, 3, 4, 5}
        then Inl (InvalidArgument ''wire_mode must be 1 (VLESS), 2 (Trojan), 3 (VMess), 4 (Shadowsocks), or 5 (SOCKS5)'')
        else case wire_params_from_json (se_wire_decode E) j of
            Inl e \<Rightarrow> Inl (InvalidArgument (''wire_config_json: '' @ wire_error_string e))
          | Inr p \<Rightarrow>
             if m \<in> {1, 3} \<and> blank (wp_uuid p)
             then Inl (InvalidArgument ''uuid is required in wire_config_json for VLESS and VMess'')
             else if m = 2 \<and> blank (wp_password p)
             then Inl (InvalidArgument ''password is required in wire_config_json for Trojan'')
             else if m = 4 \<and> blank (wp_password p)
             then Inl (InvalidArgument ''password is required in wire_config_json for Shadowsocks'')
             else if m = 4 \<and> blank (wp_method p)
             then Inl (InvalidArgument ''method is required in wire_config_json for Shadowsocks'')
             else Inr (Some m, Some j))
    | _ \<Rightarrow> Inl (InvalidArgument ''wire_mode and wire_config_json must both be set or both omitted''))"

text \<open>The ingress fields of the two requests.\<close>

record ingress_request =
  iq_protocol :: "int option"
  iq_listen_port :: "u32 option"
  iq_listen_udp_port :: "u32 option"
  iq_config_json :: "string option"
  iq_tls_json :: "string option"
  iq_template_version :: "u32 option"

definition ingress_disabled :: ingress_columns where
  "ingress_disabled = \<lparr>ic_protocol = None, ic_listen_port = None, ic_listen_udp_port = None, ic_config_json = None,
     ic_tls_json = None, ic_template_version = 1\<rparr>"

definition should_update_ingress :: "ingress_request \<Rightarrow> bool" where
  "should_update_ingress q \<longleftrightarrow> iq_protocol q \<noteq> None \<or> iq_listen_port q \<noteq> None \<or> iq_listen_udp_port q \<noteq> None \<or>
     \<not> blank (iq_config_json q) \<or> \<not> blank (iq_tls_json q) \<or> iq_template_version q \<noteq> None"

text \<open>The TLS text, the UDP port and the version, as both validators read them.\<close>

definition ingress_tls :: "'tz service_env \<Rightarrow> string option \<Rightarrow> status + string option" where
  "ingress_tls E tls = (case map_option trim tls of
      None \<Rightarrow> Inr None
    | Some t \<Rightarrow> if t = [] then Inr None
        else (case se_json_check E t of
            Inl e \<Rightarrow> Inl (InvalidArgument (''ingress_tls_json is not valid JSON: '' @ e))
          | Inr _ \<Rightarrow> Inr (Some t)))"

definition ingress_udp :: "u32 option \<Rightarrow> status + int option" where
  "ingress_udp udp = (case udp of
      None \<Rightarrow> Inr None
    | Some p \<Rightarrow> if p = 0 then Inr None
        else if sint p \<le> 0 \<or> 65535 < sint p then Inl (InvalidArgument ''invalid ingress_listen_udp_port'')
        else Inr (Some (sint p)))"

definition ingress_version :: "u32 option \<Rightarrow> int" where
  "ingress_version v = sint (max (unwrap_or v 1) 1)"

definition ingress_columns_of ::
    "'tz service_env \<Rightarrow> int \<Rightarrow> int \<Rightarrow> string \<Rightarrow> ingress_request \<Rightarrow> status + ingress_columns" where
  "ingress_columns_of E proto port cfg q = (case se_json_check E cfg of
      Inl e \<Rightarrow> Inl (InvalidArgument (''ingress_config_json is not valid JSON: '' @ e))
    | Inr _ \<Rightarrow>
       (case ingress_tls E (iq_tls_json q) of
          Inl e \<Rightarrow> Inl e
        | Inr tls \<Rightarrow>
           (case ingress_udp (iq_listen_udp_port q) of
              Inl e \<Rightarrow> Inl e
            | Inr udp \<Rightarrow> Inr \<lparr>ic_protocol = Some (i16_wrap proto), ic_listen_port = Some port, ic_listen_udp_port = udp,
                ic_config_json = Some cfg, ic_tls_json = tls, ic_template_version = ingress_version (iq_template_version q)\<rparr>)))"

definition validate_ingress_create :: "'tz service_env \<Rightarrow> ingress_request \<Rightarrow> status + ingress_columns" where
  "validate_ingress_create E q =
    (let proto = unwrap_or (iq_protocol q) 0 in
     if \<not> should_update_ingress q \<and> proto = 0 then Inr ingress_disabled
     else if proto < 1 \<or> 6 < proto
     then Inl (InvalidArgument ''ingress_protocol must be 0 (disabled) or 1=VLESS .. 6=Hysteria2'')
     else case iq_listen_port q of
         None \<Rightarrow> Inl (InvalidArgument ''ingress_listen_port is required when ingress is enabled'')
       | Some p \<Rightarrow>
          if sint p \<le> 0 \<or> 65535 < sint p then Inl (InvalidArgument ''invalid ingress_listen_port'')
          else let cfg = trim (unwrap_or (iq_config_json q) []) in
            if cfg = [] then Inl (InvalidArgument ''ingress_config_json is required when ingress is enabled'')
            else ingress_columns_of E proto (sint p) cfg q)"

definition validate_ingress_update :: "'tz service_env \<Rightarrow> ingress_request \<Rightarrow> status + ingress_columns" where
  "validate_ingress_update E q =
    (let proto = unwrap_or (iq_protocol q) 0 in
     if proto = 0 then Inr ingress_disabled
     else if proto < 1 \<or> 6 < proto then Inl (InvalidArgument ''ingress_protocol must be 0 (clear) or 1..6'')
     else case iq_listen_port q of
         None \<Rightarrow> Inl (InvalidArgument ''ingress_listen_port is required when updating ingress'')
       | Some p \<Rightarrow>
          if sint p \<le> 0 \<or> 65535 < sint p then Inl (InvalidArgument ''invalid ingress_listen_port'')
          else case iq_config_json q of
              None \<Rightarrow> Inl (InvalidArgument ''ingress_config_json is required when updating ingress'')
            | Some c \<Rightarrow>
               if trim c = [] then Inl (InvalidArgument ''ingress_config_json is required when updating ingress'')
               else ingress_columns_of E proto (sint p) (trim c) q)"

section \<open>Handlers\<close>

text \<open>An answer that may also be a panic, and the sequencing of such steps.\<close>

type_synonym 'a answer = "(status + 'a) option"

definition and_then :: "'a answer \<Rightarrow> ('a \<Rightarrow> 'b answer) \<Rightarrow> 'b answer" where
  "and_then r f = (case r of None \<Rightarrow> None | Some (Inl e) \<Rightarrow> Some (Inl e) | Some (Inr x) \<Rightarrow> f x)"

record CreateConnectionRequest =
  cq_project_id :: string
  cq_board_label :: string
  cq_policy :: "ProxyConnectionPolicy option"
  cq_recipient_client_pubkey_b64 :: "string option"
  cq_wire_mode :: "int option"
  cq_wire_config_json :: "string option"
  cq_ingress :: ingress_request

record CreateConnectionResponse =
  cr_session_id :: string
  cr_session_token :: string
  cr_expires_at_unix_ms :: int
  cr_status :: string
  cr_subscription_token :: "string option"
  cr_subscription_url :: "string option"

definition recipient_key :: "'tz service_env \<Rightarrow> string option \<Rightarrow> string \<Rightarrow> status + string" where
  "recipient_key E recipient pk = (case recipient of
      None \<Rightarrow> Inr pk
    | Some r \<Rightarrow>
       if trim r = [] then Inr pk
       else case parse_verifying_key_b64 (se_crypto E) (trim r) of
           Inl e \<Rightarrow> Inl (InvalidArgument (''invalid recipient pubkey: '' @ auth_error_string e))
         | Inr vk \<Rightarrow> Inr (ac_b64u_encode (se_crypto E) vk))"

text \<open>Schedule, policy text and expiry of the policy in a request.\<close>

definition policy_columns :: "'tz service_env \<Rightarrow> int \<Rightarrow> ProxyConnectionPolicy \<Rightarrow> (string \<times> int) answer" where
  "policy_columns E now policy =
    (case is_schedule_allowed (se_tz_parse E) (se_utc E) (se_to_local E) policy now of
       Inl e \<Rightarrow> Some (Inl e)
     | Inr ok \<Rightarrow>
        if \<not> ok then Some (Inl (PermissionDenied ''outside access schedule''))
        else case policy_json_from_proto E policy of
            Inl e \<Rightarrow> Some (Inl e)
          | Inr json \<Rightarrow>
             (case expires_at_from_policy (se_date_ok E) policy now of
                None \<Rightarrow> None
              | Some expires_at \<Rightarrow> Some (Inr (json, expires_at))))"

definition subscription_url :: "string option \<Rightarrow> string \<Rightarrow> string option" where
  "subscription_url host token = (case host of
      None \<Rightarrow> None
    | Some b \<Rightarrow>
       (let base = rev (dropWhile (\<lambda>c. c = CHR ''/'') (rev (trim b))) in
        if base = [] then None else Some (base @ ''/api/v1/public/proxy-subscription/'' @ token)))"

definition create_session ::
    "'tz service_env \<Rightarrow> int \<Rightarrow> bytes \<Rightarrow> bytes \<Rightarrow> string \<Rightarrow> string option \<Rightarrow> string option \<Rightarrow> string
       \<Rightarrow> CreateConnectionRequest \<Rightarrow> session_table \<Rightarrow> (CreateConnectionResponse \<times> session_table) answer" where
  "create_session E now raw sub_raw new_id fault sub_host pk q tbl =
    (let policy = unwrap_or (cq_policy q) policy_default in
     and_then (Some (recipient_key E (cq_recipient_client_pubkey_b64 q) pk)) (\<lambda>pk_stored.
     and_then (policy_columns E now policy) (\<lambda>(policy_json, expires_at).
     and_then (Some (validate_inbound_wire E (cq_wire_mode q) (cq_wire_config_json q))) (\<lambda>(wire_mode, wire_json).
     and_then (Some (validate_ingress_create E (cq_ingress q))) (\<lambda>ingress.
       let token = hex_encode raw; subscription_token = hex_encode sub_raw in
       case fault of
         Some e \<Rightarrow> Some (Inl (Internal e))
       | None \<Rightarrow>
          (case insert_grpc_proxy_session new_id now pk_stored (cq_board_label q) (hash_session_token_hex E token)
                  subscription_token expires_at policy_json \<lparr>wc_mode = wire_mode, wc_config_json = wire_json\<rparr> ingress tbl of
             Inl e \<Rightarrow> Some (Inl (Internal (se_db_text E e)))
           | Inr (session_id, tbl') \<Rightarrow> Some (Inr
               (\<lparr>cr_session_id = session_id, cr_session_token = token,
                 cr_expires_at_unix_ms = client_expires_at_unix_ms policy expires_at, cr_status = ''ok'',
                 cr_subscription_token = Some subscription_token,
                 cr_subscription_url = subscription_url sub_host subscription_token\<rparr>, tbl'))))))))"

text \<open>A handler body that answers with a new table, run behind the authentication.\<close>

definition with_sessions ::
    "(status + string) \<times> service \<Rightarrow> (string \<Rightarrow> session_table \<Rightarrow> ('a \<times> session_table) answer) \<Rightarrow> 'a answer \<times> service" where
  "with_sessions auth body = (case auth of
      (Inl e, S) \<Rightarrow> (Some (Inl e), S)
    | (Inr pk, S) \<Rightarrow>
       (case body pk (unwrap_or (sv_db S) []) of
          None \<Rightarrow> (None, S)
        | Some (Inl e) \<Rightarrow> (Some (Inl e), S)
        | Some (Inr (a, tbl)) \<Rightarrow> (Some (Inr a), S\<lparr>sv_db := Some tbl\<rparr>)))"

definition create_connection ::
    "'tz service_env \<Rightarrow> int \<Rightarrow> int \<Rightarrow> bytes \<Rightarrow> bytes \<Rightarrow> string \<Rightarrow> string option \<Rightarrow> string option \<Rightarrow> metadata
       \<Rightarrow> CreateConnectionRequest \<Rightarrow> service \<Rightarrow> CreateConnectionResponse answer \<times> service" where
  "create_connection E now_ms now raw sub_raw new_id fault sub_host m q S =
     with_sessions (require_auth E now_ms m ''CreateConnection'' (cq_project_id q) S)
       (\<lambda>pk tbl. create_session E now raw sub_raw new_id fault sub_host pk q tbl)"

definition close_connection ::
    "'tz service_env \<Rightarrow> int \<Rightarrow> string option \<Rightarrow> metadata \<Rightarrow> string \<Rightarrow> string \<Rightarrow> service \<Rightarrow> string answer \<times> service" where
  "close_connection E now_ms fault m project_id session_id S =
     with_sessions (require_auth E now_ms m ''CloseConnection'' project_id S)
       (\<lambda>pk tbl. case fault of
          Some e \<Rightarrow> Some (Inl (Internal e))
        | None \<Rightarrow>
           (let (n, tbl') = revoke_grpc_proxy_session session_id pk tbl in
            if n = 0 then Some (Inl (NotFound ''session not found or already revoked'')) else Some (Inr (''ok'', tbl'))))"

record GetStatsResponse =
  gs_session_id :: string
  gs_bytes_in :: u64
  gs_bytes_out :: u64
  gs_active_ms :: u64
  gs_last_activity_unix_ms :: int
  gs_revoked :: bool
  gs_created_at_unix_ms :: int
  gs_expires_at_unix_ms :: int

definition expires_ms_from_policy_json :: "'tz service_env \<Rightarrow> string \<Rightarrow> int \<Rightarrow> int" where
  "expires_ms_from_policy_json E policy_json expires_at = (case parse_policy_json E policy_json of
      Inr p \<Rightarrow> if sp_never_expires p \<or> sp_max_session_duration_sec p = None then - 1 else expires_at
    | Inl _ \<Rightarrow> expires_at)"

definition stats_of_session :: "'tz service_env \<Rightarrow> string \<Rightarrow> string \<Rightarrow> session_table \<Rightarrow> status + GetStatsResponse" where
  "stats_of_session E session_id pk tbl =
    (if session_id = [] then
       (let agg = aggregate_grpc_proxy_sessions_for_pubkey pk tbl in
        Inr \<lparr>gs_session_id = [], gs_bytes_in = ga_bytes_in agg, gs_bytes_out = ga_bytes_out agg, gs_active_ms = ga_active_ms agg,
             gs_last_activity_unix_ms = unwrap_or (ga_last_activity_at agg) 0, gs_revoked = False,
             gs_created_at_unix_ms = unwrap_or (ga_created_at_max agg) 0,
             gs_expires_at_unix_ms = unwrap_or (ga_expires_at_min agg) 0\<rparr>)
     else case fetch_by_id tbl session_id pk of
         None \<Rightarrow> Inl (NotFound ''session not found'')
       | Some row \<Rightarrow>
          Inr \<lparr>gs_session_id = gr_session_id row, gs_bytes_in = nonneg_u64 (gr_bytes_in row),
               gs_bytes_out = nonneg_u64 (gr_bytes_out row), gs_active_ms = nonneg_u64 (gr_active_ms row),
               gs_last_activity_unix_ms = unwrap_or (gr_last_activity_at row) 0, gs_revoked = gr_revoked row,
               gs_created_at_unix_ms = gr_created_at row,
               gs_expires_at_unix_ms = expires_ms_from_policy_json E (gr_policy_json row) (gr_expires_at row)\<rparr>)"

definition get_stats ::
    "'tz service_env \<Rightarrow> int \<Rightarrow> string option \<Rightarrow> metadata \<Rightarrow> string \<Rightarrow> string \<Rightarrow> service \<Rightarrow> GetStatsResponse answer \<times> service" where
  "get_stats E now_ms fault m project_id session_id S =
     with_sessions (require_auth E now_ms m ''GetStats'' project_id S)
       (\<lambda>pk tbl. case fault of
          Some e \<Rightarrow> Some (Inl (Internal e))
        | None \<Rightarrow> (case stats_of_session E session_id pk tbl of Inl e \<Rightarrow> Some (Inl e) | Inr r \<Rightarrow> Some (Inr (r, tbl))))"

record UpdateProxySettingsRequest =
  uq_project_id :: string
  uq_session_id :: string
  uq_policy :: "ProxyConnectionPolicy option"
  uq_wire_mode :: "int option"
  uq_wire_config_json :: "string option"
  uq_ingress :: ingress_request

record UpdateProxySettingsResponse =
  ur_status :: string
  ur_expires_at_unix_ms :: int

definition update_session ::
    "'tz service_env \<Rightarrow> int \<Rightarrow> string option \<Rightarrow> UpdateProxySettingsRequest \<Rightarrow> string \<Rightarrow> session_table
       \<Rightarrow> (UpdateProxySettingsResponse \<times> session_table) answer" where
  "update_session E now fault q pk tbl =
    (let policy = unwrap_or (uq_policy q) policy_default;
         update_wire = (uq_wire_mode q \<noteq> None \<or> uq_wire_config_json q \<noteq> None);
         update_ingress = should_update_ingress (uq_ingress q) in
     and_then (policy_columns E now policy) (\<lambda>(policy_json, expires_at).
     and_then (Some (if update_wire then validate_inbound_wire E (uq_wire_mode q) (uq_wire_config_json q) else Inr (None, None)))
       (\<lambda>(wire_mode, wire_json).
     and_then (Some (if update_ingress then validate_ingress_update E (uq_ingress q) else Inr ingress_disabled)) (\<lambda>ingress.
       case fault of
         Some e \<Rightarrow> Some (Inl (Internal e))
       | None \<Rightarrow>
          (let (n, tbl') = update_grpc_proxy_session_policy (uq_session_id q) pk policy_json expires_at update_wire
                  \<lparr>wc_mode = wire_mode, wc_config_json = wire_json\<rparr> update_ingress ingress tbl in
           if n = 0 then Some (Inl (NotFound ''session not found or revoked''))
           else Some (Inr (\<lparr>ur_status = ''ok'', ur_expires_at_unix_ms = client_expires_at_unix_ms policy expires_at\<rparr>, tbl')))))))"

definition update_settings ::
    "'tz service_env \<Rightarrow> int \<Rightarrow> int \<Rightarrow> string option \<Rightarrow> metadata \<Rightarrow> UpdateProxySettingsRequest \<Rightarrow> service
       \<Rightarrow> UpdateProxySettingsResponse answer \<times> service" where
  "update_settings E now_ms now fault m q S =
     with_sessions (require_auth E now_ms m ''UpdateSettings'' (uq_project_id q) S) (update_session E now fault q)"

section \<open>Calls and their effect\<close>

datatype svc_call =
    CallCreate int metadata CreateConnectionRequest int bytes bytes string "string option" "string option"
  | CallClose int metadata string string "string option"
  | CallStats int metadata string string "string option"
  | CallUpdate int metadata UpdateProxySettingsRequest int "string option"

fun svc_handle :: "'tz service_env \<Rightarrow> svc_call \<Rightarrow> service \<Rightarrow> service" where
  "svc_handle E (CallCreate now_ms m q now raw sub_raw new_id fault host) S =
     snd (create_connection E now_ms now raw sub_raw new_id fault host m q S)"
| "svc_handle E (CallClose now_ms m pid sid fault) S = snd (close_connection E now_ms fault m pid sid S)"
| "svc_handle E (CallStats now_ms m pid sid fault) S = snd (get_stats E now_ms fault m pid sid S)"
| "svc_handle E (CallUpdate now_ms m q now fault) S = snd (update_settings E now_ms now fault m q S)"

text \<open>Clock, metadata, method and project of a call.\<close>

fun call_auth :: "svc_call \<Rightarrow> int \<times> metadata \<times> string \<times> string" where
  "call_auth (CallCreate now_ms m q now raw sub_raw new_id fault host) = (now_ms, m, ''CreateConnection'', cq_project_id q)"
| "call_auth (CallClose now_ms m pid sid fault) = (now_ms, m, ''CloseConnection'', pid)"
| "call_auth (CallStats now_ms m pid sid fault) = (now_ms, m, ''GetStats'', pid)"
| "call_auth (CallUpdate now_ms m q now fault) = (now_ms, m, ''UpdateSettings'', uq_project_id q)"

definition call_authenticated :: "'tz service_env \<Rightarrow> svc_call \<Rightarrow> service \<Rightarrow> bool" where
  "call_authenticated E c S = (case call_auth c of (now_ms, m, meth, pid) \<Rightarrow>
     (case sv_auth S of None \<Rightarrow> False
      | Some a \<Rightarrow> fst (server_verify (se_crypto E) now_ms m meth (signing_payload meth pid []) a) = Inr ()))"

definition call_key :: "'tz service_env \<Rightarrow> svc_call \<Rightarrow> string option" where
  "call_key E c = meta_text (se_crypto E) (fst (snd (call_auth c))) META_PUBKEY"

text \<open>The session a call is about to change.\<close>

fun call_session :: "svc_call \<Rightarrow> string option" where
  "call_session (CallClose now_ms m pid sid fault) = Some sid"
| "call_session (CallUpdate now_ms m q now fault) = Some (uq_session_id q)"
| "call_session _ = None"

lemma require_auth_db: "sv_db (snd (require_auth E now m meth pid S)) = sv_db S"
  by (simp add: require_auth_def split: option.split sum.split prod.split)

lemma require_auth_ok:
  assumes "require_auth E now m meth pid S = (Inr pk, S')"
  shows "meta_text (se_crypto E) m META_PUBKEY = Some pk \<and> sv_db S' = sv_db S \<and> sv_db S \<noteq> None \<and>
    (\<exists>a. sv_auth S = Some a \<and> fst (server_verify (se_crypto E) now m meth (signing_payload meth pid []) a) = Inr ())"
  using assms by (auto simp: require_auth_def split: option.split_asm sum.split_asm prod.split_asm if_split_asm)

lemma require_auth_attached:
  fixes meth :: string
  assumes C: "auth_crypto_ok (se_crypto E)" and s: "sv_auth S = Some a" "server_auth_ok (se_crypto E) a"
      "ac_public (se_crypto E) sk \<in> sa_peers a" and db: "sv_db S \<noteq> None" and pid: "validate_project_id pid = Inr ()" "printable pid"
    and clock: "\<bar>now - ts\<bar> \<le> 300000" "i64_range ts" and fresh: "hm_get (sa_nonce_tracker a) (hex16 rnd) = None"
  shows "\<exists>S'. require_auth E now (snd (attach_auth_metadata (se_crypto E) ts rnd sk meth pid [] [])) meth pid S =
    (Inr (pubkey_b64_url (se_crypto E) sk), S') \<and> sv_db S' = sv_db S"
proof -
  have "fst (server_verify (se_crypto E) now (snd (attach_auth_metadata (se_crypto E) ts rnd sk meth pid [] [])) meth
      (signing_payload meth pid []) a) = Inr ()"
    by (rule server_verify_attached [OF C s(2,3) clock _ pid(2) fresh]) simp
  then obtain a' where "server_verify (se_crypto E) now (snd (attach_auth_metadata (se_crypto E) ts rnd sk meth pid [] [])) meth
      (signing_payload meth pid []) a = (Inr (), a')" by (metis prod.collapse)
  then show ?thesis
    using db s(1) pid attach_fields(2) [OF C _ pid(2), of "[]" ts rnd sk meth] by (auto simp: require_auth_def)
qed

text \<open>What a handler does to the table: nothing, or what its body answers for the authenticated key.\<close>

lemma with_sessions_cases:
  assumes "sv_db (snd (with_sessions (require_auth E now m meth pid S) body)) = Some tbl'" "sv_db S = Some tbl"
  obtains "tbl' = tbl"
    | pk a where "body pk tbl = Some (Inr (a, tbl'))" "meta_text (se_crypto E) m META_PUBKEY = Some pk"
        "\<exists>a. sv_auth S = Some a \<and> fst (server_verify (se_crypto E) now m meth (signing_payload meth pid []) a) = Inr ()"
proof (cases "require_auth E now m meth pid S")
  case (Pair r S')
  then have db: "sv_db S' = Some tbl" using require_auth_db [of E now m meth pid S] assms(2) by simp
  show thesis
  proof (cases r)
    case (Inl e)
    with assms(1) Pair db show thesis by (intro that(1)) (simp add: with_sessions_def)
  next
    case (Inr pk)
    note ok = require_auth_ok [OF Pair [unfolded Inr]]
    from assms(1) Pair Inr db have
      "case body pk tbl of Some (Inr (a, t)) \<Rightarrow> tbl' = t | _ \<Rightarrow> tbl' = tbl"
      by (simp add: with_sessions_def unwrap_or_def split: option.split_asm sum.split_asm prod.split_asm)
    with ok that show thesis by (auto split: option.split_asm sum.split_asm prod.split_asm)
  qed
qed

lemma and_then_ok: "and_then r f = Some (Inr y) \<longleftrightarrow> (\<exists>x. r = Some (Inr x) \<and> f x = Some (Inr y))"
  by (auto simp: and_then_def split: option.split sum.split)

lemma create_session_ok:
  assumes "create_session E now raw sub_raw new_id fault host pk q tbl = Some (Inr (a, tbl'))"
  obtains pk' json ex wm wj ing where "recipient_key E (cq_recipient_client_pubkey_b64 q) pk = Inr pk'"
    "policy_columns E now (unwrap_or (cq_policy q) policy_default) = Some (Inr (json, ex))"
    "validate_inbound_wire E (cq_wire_mode q) (cq_wire_config_json q) = Inr (wm, wj)"
    "validate_ingress_create E (cq_ingress q) = Inr ing"
    "insert_grpc_proxy_session new_id now pk' (cq_board_label q) (hash_session_token_hex E (hex_encode raw))
       (hex_encode sub_raw) ex json \<lparr>wc_mode = wm, wc_config_json = wj\<rparr> ing tbl = Inr (cr_session_id a, tbl')"
    "cr_session_token a = hex_encode raw" "cr_subscription_token a = Some (hex_encode sub_raw)"
  using assms unfolding create_session_def Let_def and_then_ok
  by (auto simp: and_then_ok split: option.split_asm sum.split_asm prod.split_asm)

lemma update_session_ok:
  assumes "update_session E now fault q pk tbl = Some (Inr (a, tbl'))"
  obtains json ex uw w ui g n where "update_grpc_proxy_session_policy (uq_session_id q) pk json ex uw w ui g tbl = (n, tbl')"
  using assms unfolding update_session_def Let_def and_then_ok
  by (auto simp: and_then_ok split: option.split_asm prod.split_asm if_split_asm)

lemma close_body_ok:
  assumes "(case fault of Some e \<Rightarrow> Some (Inl (Internal e))
        | None \<Rightarrow>
           (let (n, tbl') = revoke_grpc_proxy_session session_id pk tbl in
            if n = 0 then Some (Inl (NotFound ''session not found or already revoked'')) else Some (Inr (''ok'', tbl'))))
     = Some (Inr (a, tbl'))"
  obtains n where "revoke_grpc_proxy_session session_id pk tbl = (n, tbl')"
  using assms by (auto split: option.split_asm prod.split_asm if_split_asm)

text \<open>The effect of a call on the table: nothing, a new row, or an update of rows of the authenticated key.\<close>

lemma svc_handle_cases:
  assumes db: "sv_db S = Some tbl" "sv_db (svc_handle E c S) = Some tbl'"
  obtains "tbl' = tbl"
    | (step) pk where "db_step tbl tbl'" "call_key E c = Some pk" "call_authenticated E c S"
        "\<And>r. r \<in> set tbl \<Longrightarrow> r \<notin> set tbl' \<Longrightarrow> gr_client_pubkey_b64 r = pk \<and> call_session c = Some (gr_session_id r)"
proof (cases c)
  case (CallCreate now_ms m q now raw sub_raw new_id fault host)
  note d = db(2) [unfolded CallCreate svc_handle.simps create_connection_def]
  show thesis
  proof (cases rule: with_sessions_cases [OF d db(1)])
    case 1
    then show thesis by (rule that(1))
  next
    case (2 pk a)
    from create_session_ok [OF 2(1)] obtain pk' json ex w g sid where
      "insert_grpc_proxy_session new_id now pk' (cq_board_label q) (hash_session_token_hex E (hex_encode raw))
         (hex_encode sub_raw) ex json w g tbl = Inr (sid, tbl')" by metis
    note i = this
    have "set tbl \<subseteq> set tbl'" using i by (auto simp: insert_grpc_proxy_session_def split: if_split_asm)
    with db_insert [OF i] 2 CallCreate show thesis
      by (intro step [of pk]) (auto simp: call_key_def call_authenticated_def split: option.split)
  qed
next
  case (CallClose now_ms m pid sid fault)
  note d = db(2) [unfolded CallClose svc_handle.simps close_connection_def]
  show thesis
  proof (cases rule: with_sessions_cases [OF d db(1)])
    case 1
    then show thesis by (rule that(1))
  next
    case (2 pk a)
    from close_body_ok [OF 2(1)] obtain n where i: "revoke_grpc_proxy_session sid pk tbl = (n, tbl')" .
    have "r \<in> set tbl \<Longrightarrow> r \<notin> set tbl' \<Longrightarrow> gr_client_pubkey_b64 r = pk \<and> gr_session_id r = sid" for r
      using i by (auto simp: revoke_grpc_proxy_session_def sql_update_def)
    with db_revoke [OF i] 2 CallClose show thesis
      by (intro step [of pk]) (auto simp: call_key_def call_authenticated_def split: option.split)
  qed
next
  case (CallStats now_ms m pid sid fault)
  note d = db(2) [unfolded CallStats svc_handle.simps get_stats_def]
  show thesis
    by (cases rule: with_sessions_cases [OF d db(1)]) (auto split: option.split_asm sum.split_asm intro: that(1))
next
  case (CallUpdate now_ms m q now fault)
  note d = db(2) [unfolded CallUpdate svc_handle.simps update_settings_def]
  show thesis
  proof (cases rule: with_sessions_cases [OF d db(1)])
    case 1
    then show thesis by (rule that(1))
  next
    case (2 pk a)
    from update_session_ok [OF 2(1)] obtain json ex uw w ui g n where
      i: "update_grpc_proxy_session_policy (uq_session_id q) pk json ex uw w ui g tbl = (n, tbl')" .
    have "r \<in> set tbl \<Longrightarrow> r \<notin> set tbl' \<Longrightarrow> gr_client_pubkey_b64 r = pk \<and> gr_session_id r = uq_session_id q" for r
      using i by (auto simp: update_grpc_proxy_session_policy_def sql_update_def live_row_def)
    with db_update [OF i] 2 CallUpdate show thesis
      by (intro step [of pk]) (auto simp: call_key_def call_authenticated_def split: option.split)
  qed
qed

section \<open>Runs of the service\<close>

text \<open>
  Calls of clients, pairings, the usage that tunnels flush, and other methods of the server, of which the session service
  sees the verification.
\<close>

inductive svc_step_by :: "'tz service_env \<Rightarrow> (svc_call \<Rightarrow> bool) \<Rightarrow> service \<Rightarrow> service \<Rightarrow> bool" for E allowed where
  svc_call: "allowed c \<Longrightarrow> svc_step_by E allowed S (svc_handle E c S)"
| svc_pair: "svc_step_by E allowed S (S\<lparr>sv_auth := snd (pair_handler (se_crypto E) now file save_error r (sv_auth S))\<rparr>)"
| svc_usage: "sv_db S = Some tbl \<Longrightarrow> increment_grpc_proxy_session_traffic sid pk din dout dact la fo tbl = Inr tbl' \<Longrightarrow>
    svc_step_by E allowed S (S\<lparr>sv_db := Some tbl'\<rparr>)"
| svc_other: "sv_auth S = Some a \<Longrightarrow>
    svc_step_by E allowed S (S\<lparr>sv_auth := Some (snd (server_verify (se_crypto E) now_ms m meth payload a))\<rparr>)"

abbreviation svc_step :: "'tz service_env \<Rightarrow> service \<Rightarrow> service \<Rightarrow> bool" where
  "svc_step E \<equiv> svc_step_by E (\<lambda>_. True)"

text \<open>Steps in which the owner of a session does not close or change it.\<close>

definition owner_call :: "'tz service_env \<Rightarrow> string \<Rightarrow> string \<Rightarrow> svc_call \<Rightarrow> bool" where
  "owner_call E pk sid c \<longleftrightarrow> call_key E c = Some pk \<and> call_session c = Some sid"

abbreviation quiet_step :: "'tz service_env \<Rightarrow> string \<Rightarrow> string \<Rightarrow> service \<Rightarrow> service \<Rightarrow> bool" where
  "quiet_step E pk sid \<equiv> svc_step_by E (\<lambda>c. \<not> owner_call E pk sid c)"

lemma svc_step_any: "svc_step_by E P S S' \<Longrightarrow> svc_step E S S'"
  by (induction rule: svc_step_by.induct) (auto intro: svc_step_by.intros)

lemma svc_run_any: "(svc_step_by E P)\<^sup>*\<^sup>* S S' \<Longrightarrow> (svc_step E)\<^sup>*\<^sup>* S S'"
  by (rule rtranclp_mono [THEN predicate2D]) (use svc_step_any in auto)

lemma svc_handle_db: "sv_db S = Some tbl \<Longrightarrow> \<exists>tbl'. sv_db (svc_handle E c S) = Some tbl'"
proof -
  have w: "\<exists>tbl'. sv_db (snd (with_sessions (require_auth E now m meth pid S) body)) = Some tbl'"
    if "sv_db S = Some tbl" for now m meth pid and body :: "string \<Rightarrow> session_table \<Rightarrow> ('x \<times> session_table) answer"
    using that require_auth_db [of E now m meth pid S]
    by (auto simp: with_sessions_def split: prod.split sum.split option.split)
  show "sv_db S = Some tbl \<Longrightarrow> ?thesis"
    by (cases c) (simp_all add: w create_connection_def close_connection_def get_stats_def update_settings_def)
qed

lemma svc_step_db:
  assumes "svc_step E S S'" "sv_db S = Some tbl"
  shows "\<exists>tbl'. sv_db S' = Some tbl' \<and> (tbl' = tbl \<or> db_step tbl tbl')"
  using assms(1)
proof cases
  case (svc_call c)
  obtain tbl' where t: "sv_db S' = Some tbl'" using svc_handle_db [OF assms(2)] svc_call by metis
  with svc_handle_cases [OF assms(2) t [unfolded svc_call]] show ?thesis by metis
next
  case (svc_usage tbl0 sid pk din dout dact la fo tbl')
  then show ?thesis using assms(2) db_increment [of sid pk din dout dact la fo tbl tbl'] by auto
qed (use assms(2) in auto)

lemma service_run_db:
  assumes "(svc_step E)\<^sup>*\<^sup>* S S'" "sv_db S = Some tbl"
  shows "\<exists>tbl'. sv_db S' = Some tbl' \<and> db_step\<^sup>*\<^sup>* tbl tbl'"
  using assms(1)
proof (induction rule: rtranclp_induct)
  case (step S1 S2)
  then obtain t1 t2 where t: "db_step\<^sup>*\<^sup>* tbl t1" "sv_db S2 = Some t2" "t2 = t1 \<or> db_step t1 t2" using svc_step_db by metis
  then have "db_step\<^sup>*\<^sup>* tbl t2" by (auto intro: rtranclp.rtrancl_into_rtrancl)
  with t(2) show ?case by blast
qed (use assms(2) in blast)

lemma db_run_keeps:
  assumes "db_step\<^sup>*\<^sup>* tbl tbl'" "session_keys_ok tbl"
  shows "session_keys_ok tbl' \<and> (\<forall>r \<in> set tbl. gr_revoked r \<longrightarrow> r \<in> set tbl')"
  using assms(1)
proof (induction rule: rtranclp_induct)
  case (step y z)
  then show ?case using db_step_keys db_step_revoked [OF step(2)] by blast
qed (use assms(2) in auto)

text \<open>Quiet steps keep the terms of the session: only the counters of its usage move.\<close>

definition same_terms :: "GrpcProxySessionRow \<Rightarrow> GrpcProxySessionRow \<Rightarrow> bool" where
  "same_terms r r' \<longleftrightarrow> gr_session_id r' = gr_session_id r \<and> gr_client_pubkey_b64 r' = gr_client_pubkey_b64 r \<and>
     gr_token_sha256_hex r' = gr_token_sha256_hex r \<and> gr_policy_json r' = gr_policy_json r \<and>
     gr_expires_at r' = gr_expires_at r \<and> gr_revoked r' = gr_revoked r"

lemma quiet_step_terms:
  assumes "quiet_step E pk sid S S'" "sv_db S = Some tbl" "r \<in> set tbl" "gr_session_id r = sid" "gr_client_pubkey_b64 r = pk"
  shows "\<exists>tbl' r'. sv_db S' = Some tbl' \<and> r' \<in> set tbl' \<and> same_terms r r'"
  using assms(1)
proof cases
  case (svc_call c)
  obtain tbl' where t: "sv_db S' = Some tbl'" using svc_handle_db [OF assms(2)] svc_call by metis
  have "r \<in> set tbl'"
    using svc_handle_cases [OF assms(2) t [unfolded svc_call]] assms(3-5) svc_call(2) unfolding owner_call_def by metis
  with t show ?thesis by (auto simp: same_terms_def)
next
  case (svc_usage tbl0 sid' pk' din dout dact la fo tbl')
  then have "tbl' = snd (sql_update (live_row sid' pk') (add_traffic din dout dact la fo) tbl)"
    using assms(2) by (simp add: increment_grpc_proxy_session_traffic_def Let_def split: if_split_asm)
  then have "(if live_row sid' pk' r then add_traffic din dout dact la fo r else r) \<in> set tbl'"
    using assms(3) by (auto simp: sql_update_def)
  moreover have "same_terms r (if live_row sid' pk' r then add_traffic din dout dact la fo r else r)"
    by (simp add: same_terms_def add_traffic_def)
  ultimately show ?thesis using svc_usage by auto
qed (use assms(2,3) in \<open>auto simp: same_terms_def\<close>)

lemma quiet_run_terms:
  assumes "(quiet_step E (gr_client_pubkey_b64 r) (gr_session_id r))\<^sup>*\<^sup>* S S'" "sv_db S = Some tbl" "r \<in> set tbl"
  shows "\<exists>tbl' r'. sv_db S' = Some tbl' \<and> r' \<in> set tbl' \<and> same_terms r r'"
  using assms(1)
proof (induction rule: rtranclp_induct)
  case base
  then show ?case using assms(2,3) by (auto simp: same_terms_def)
next
  case (step S1 S2)
  then obtain t1 r1 where r1: "sv_db S1 = Some t1" "r1 \<in> set t1" "same_terms r r1" by blast
  with quiet_step_terms [OF step(2) r1(1,2)] show ?case by (auto simp: same_terms_def)
qed

text \<open>
  C9: The service keeps the session table. After any run of the service each further step, be it a call, a pairing, a
  flush of usage or another method, with every kind of failure, leaves the session table as it is or is one operation
  of the database on it: session ids, token hashes and subscription tokens stay unique, and every session revoked at
  the beginning is there unchanged.
\<close>

theorem service_refines_tables:
  assumes "(svc_step E)\<^sup>*\<^sup>* S0 S" "svc_step E S S'" "sv_db S0 = Some tbl0" "session_keys_ok tbl0"
  shows "\<exists>tbl tbl'. sv_db S = Some tbl \<and> sv_db S' = Some tbl' \<and> db_step\<^sup>*\<^sup>* tbl0 tbl \<and> (tbl' = tbl \<or> db_step tbl tbl') \<and>
    session_keys_ok tbl' \<and> {r \<in> set tbl0. gr_revoked r} \<subseteq> set tbl'"
proof -
  obtain tbl where t: "sv_db S = Some tbl" "db_step\<^sup>*\<^sup>* tbl0 tbl" using service_run_db [OF assms(1,3)] by blast
  obtain tbl' where t': "sv_db S' = Some tbl'" "tbl' = tbl \<or> db_step tbl tbl'" using svc_step_db [OF assms(2) t(1)] by blast
  with t(2) have "db_step\<^sup>*\<^sup>* tbl0 tbl'" by (auto intro: rtranclp.rtrancl_into_rtrancl)
  from db_run_keeps [OF this assms(4)] t t' show ?thesis by blast
qed

text \<open>
  C27: Only the owner. If a call removes or changes a session that existed before it, then the call was
  authenticated, under its method and project, and the key it presented is the one the session belongs to.
\<close>

theorem only_owner_changes:
  assumes "sv_db S = Some tbl" "sv_db (svc_handle E c S) = Some tbl'" "r \<in> set tbl" "r \<notin> set tbl'"
  shows "call_authenticated E c S \<and> call_key E c = Some (gr_client_pubkey_b64 r)"
  using svc_handle_cases [OF assms(1,2)] assms(3,4) by metis

text \<open>
  Settings without a protocol. A request that names any ingress setting but no protocol clears the whole
  ingress of the session, while the same settings are refused when a session is created.
\<close>

theorem ingress_update_clears:
  assumes u: "update_session E now fault q pk tbl = Some (Inr (a, tbl'))"
    and q: "iq_protocol (uq_ingress q) = None" "should_update_ingress (uq_ingress q)"
    and r: "r \<in> set tbl'" "live_row (uq_session_id q) pk r"
  shows "gr_ingress_protocol r = None \<and> gr_ingress_listen_port r = None \<and> gr_ingress_config_json r = None \<and>
    gr_ingress_tls_json r = None \<and>
    validate_ingress_create E (uq_ingress q) = Inl (InvalidArgument ''ingress_protocol must be 0 (disabled) or 1=VLESS .. 6=Hysteria2'')"
proof -
  have g: "validate_ingress_update E (uq_ingress q) = Inr ingress_disabled"
    using q(1) by (simp add: validate_ingress_update_def unwrap_or_def)
  from u g q(2) obtain n json ex uw w where
    i: "update_grpc_proxy_session_policy (uq_session_id q) pk json ex uw w True ingress_disabled tbl = (n, tbl')"
    unfolding update_session_def Let_def and_then_ok
    by (auto simp: and_then_ok split: option.split_asm prod.split_asm if_split_asm)
  have "\<exists>r0. r = set_ingress ingress_disabled r0"
    using r i by (auto simp: update_grpc_proxy_session_policy_def sql_update_def Let_def split: if_split_asm)
  then show ?thesis using q
    by (auto simp: set_ingress_def ingress_disabled_def validate_ingress_create_def unwrap_or_def)
qed

section \<open>Examples\<close>

definition service_env_example :: "unit service_env" where
  "service_env_example =
    \<lparr>se_crypto = crypto_sound, se_sha256 = (\<lambda>b. b), se_json_check = (\<lambda>_. Inr ()), se_wire_decode = (\<lambda>_. Inl ''none''),
     se_policy_print = (\<lambda>p. if p = policy_from_proto policy_default then Inr ''{}'' else Inl ''unsupported''), se_policy_parse = (\<lambda>_. Inr (policy_from_proto policy_default)),
     se_tz_parse = (\<lambda>_. None), se_utc = (), se_to_local = (\<lambda>_ _. (1, 0)), se_date_ok = (\<lambda>_. True), se_db_text = (\<lambda>_. [])\<rparr>"

definition row_example :: "bool \<Rightarrow> GrpcProxySessionRow" where
  "row_example revoked =
    \<lparr>gr_session_id = ''s1'', gr_client_pubkey_b64 = pubkey_b64_url crypto_sound [], gr_board_label = [],
     gr_token_sha256_hex = hex_encode (as_bytes ''t1''), gr_subscription_token = Some ''u1'', gr_created_at = 0, gr_expires_at = 99000,
     gr_policy_json = ''{}'', gr_bytes_in = 7, gr_bytes_out = 9, gr_active_ms = 5, gr_last_activity_at = None,
     gr_first_open_at = None, gr_revoked = revoked, gr_wire_mode = None, gr_wire_config_json = None,
     gr_ingress_protocol = Some 1, gr_ingress_listen_port = Some 443, gr_ingress_listen_udp_port = None,
     gr_ingress_config_json = Some ''{}'', gr_ingress_tls_json = None, gr_ingress_template_version = 1\<rparr>"

definition service_example :: "bool \<Rightarrow> service" where
  "service_example revoked = \<lparr>sv_auth = Some (server_example\<lparr>sa_peers := {replicate 32 0}\<rparr>), sv_db = Some [row_example revoked]\<rparr>"

definition close_example :: svc_call where
  "close_example = CallClose 2000 (snd (attach_auth_metadata crypto_sound 1000 7 [] ''CloseConnection'' [] [] [])) [] ''s1'' None"

lemma default_project: "validate_project_id [] = Inr ()"
  by (simp add: validate_project_id_def normalize_project_id_def Let_def)

lemma server_example_auth: "server_auth_ok crypto_sound (server_example\<lparr>sa_peers := P\<rparr>)"
  by (simp add: server_auth_ok_def server_example_def AuthConfig_default_def)

lemma example_auth:
  assumes "meth \<in> {''CloseConnection'', ''CreateConnection''}" "sv_auth S = Some (server_example\<lparr>sa_peers := {replicate 32 0}\<rparr>)" "sv_db S = Some tbl"
  obtains S' where "require_auth service_env_example 2000 (snd (attach_auth_metadata crypto_sound 1000 7 [] meth [] [] [])) meth [] S =
    (Inr (pubkey_b64_url crypto_sound []), S')" "sv_db S' = Some tbl"
proof -
  have C: "auth_crypto_ok (se_crypto service_env_example)" using crypto_sound_ok by (simp add: service_env_example_def)
  have a: "server_auth_ok (se_crypto service_env_example) (server_example\<lparr>sa_peers := {replicate 32 0}\<rparr>)"
    "ac_public (se_crypto service_env_example) [] \<in> sa_peers (server_example\<lparr>sa_peers := {replicate 32 0}\<rparr>)"
    using server_example_auth by (simp_all add: service_env_example_def crypto_sound_def [THEN arg_cong, of ac_public])
  show thesis
    using require_auth_attached [OF C assms(2) a _ default_project, of 2000 1000 7 meth] assms(3) that
    by (auto simp: service_env_example_def server_example_def i64_range_def i64_min_def i64_max_def)
qed

lemma close_example_answer:
  obtains S1 where "close_connection service_env_example 2000 None
      (snd (attach_auth_metadata crypto_sound 1000 7 [] ''CloseConnection'' [] [] [])) [] ''s1'' (service_example False) = (Some (Inr ''ok''), S1)"
    "sv_db S1 = Some [row_example True]"
proof -
  obtain S' where r: "require_auth service_env_example 2000 (snd (attach_auth_metadata crypto_sound 1000 7 [] ''CloseConnection'' [] [] []))
      ''CloseConnection'' [] (service_example False) = (Inr (pubkey_b64_url crypto_sound []), S')" "sv_db S' = Some [row_example False]"
    by (rule example_auth [of "''CloseConnection''" "service_example False"]) (simp_all add: service_example_def)
  have "revoke_grpc_proxy_session ''s1'' (pubkey_b64_url crypto_sound []) [row_example False] = (1, [row_example True])"
    by (simp add: revoke_grpc_proxy_session_def sql_update_def row_example_def)
  with r that show thesis by (simp add: close_connection_def with_sessions_def unwrap_or_def)
qed

lemma close_example_runs: "sv_db (svc_handle service_env_example close_example (service_example False)) = Some [row_example True]"
  by (rule close_example_answer) (simp add: close_example_def)

theorem service_refines_tables_witness:
  "\<exists>tbl tbl'. sv_db (service_example True) = Some tbl \<and> sv_db (svc_handle service_env_example close_example (service_example True)) = Some tbl' \<and>
     (tbl' = tbl \<or> db_step tbl tbl') \<and> session_keys_ok tbl' \<and> row_example True \<in> set tbl'"
proof -
  have "sv_db (service_example True) = Some [row_example True]" "session_keys_ok [row_example True]" "gr_revoked (row_example True)"
    by (simp_all add: service_example_def session_keys_ok_def row_example_def List.map_filter_def)
  with service_refines_tables [OF rtranclp.rtrancl_refl svc_call [OF TrueI], of "service_example True" "[row_example True]" service_env_example close_example]
  show ?thesis by auto
qed

theorem only_owner_changes_witness:
  "call_authenticated service_env_example close_example (service_example False) \<and>
   call_key service_env_example close_example = Some (gr_client_pubkey_b64 (row_example False))"
proof (rule only_owner_changes [OF _ close_example_runs])
  show "sv_db (service_example False) = Some [row_example False]" by (simp add: service_example_def)
  show "row_example False \<notin> set [row_example True]" by (simp add: row_example_def)
qed simp

definition update_example :: UpdateProxySettingsRequest where
  "update_example = \<lparr>uq_project_id = [], uq_session_id = ''s1'', uq_policy = None, uq_wire_mode = None, uq_wire_config_json = None,
     uq_ingress = \<lparr>iq_protocol = None, iq_listen_port = None, iq_listen_udp_port = None, iq_config_json = None, iq_tls_json = None,
       iq_template_version = Some 2\<rparr>\<rparr>"

lemma default_policy_columns:
  "policy_columns service_env_example now policy_default = Some (Inr (''{}'', now + 36500 * DAY_MS))"
  by (simp add: policy_columns_def is_schedule_allowed_def schedule_allowed_def policy_default_def policy_json_from_proto_def
      service_env_example_def expires_at_from_policy_def date_add_def unwrap_or_def)

theorem ingress_update_clears_witness:
  "\<exists>a r. update_session service_env_example 0 None update_example (pubkey_b64_url crypto_sound []) [row_example False] = Some (Inr (a, [r])) \<and>
     gr_ingress_protocol (row_example False) = Some 1 \<and> gr_ingress_protocol r = None"
proof -
  have q: "iq_protocol (uq_ingress update_example) = None" "should_update_ingress (uq_ingress update_example)"
    by (simp_all add: update_example_def should_update_ingress_def)
  obtain a r where u: "update_session service_env_example 0 None update_example (pubkey_b64_url crypto_sound []) [row_example False] =
      Some (Inr (a, [r]))" and r: "live_row (uq_session_id update_example) (pubkey_b64_url crypto_sound []) r"
    by (auto simp: update_session_def Let_def and_then_def unwrap_or_def default_policy_columns validate_ingress_update_def
        update_grpc_proxy_session_policy_def sql_update_def live_row_def row_example_def update_example_def
        should_update_ingress_def set_ingress_def)
  from ingress_update_clears [OF u q _ r] u show ?thesis by (auto simp: row_example_def)
qed

end
