(* ===== verification/Tunnel_Registry.thy ===== *)
theory Tunnel_Registry
  imports Rust_Text
begin

text \<open>
  The Redis registry of online tunnels (\<^verbatim>\<open>server/src/tunnel_registry.rs\<close>). The Redis server is a parameter: a
  command may fail, and what a successful command does to the stored hashes, sets and sorted sets is the
  documented behaviour stated by \<open>redis_ok\<close>. Every operation issues the commands of the code in order and
  stops at the first failing one; the Lua script that admits a tunnel to its session is translated from its
  text. Identifiers are the text form of the UUIDs. The theory shows that a session never exceeds its limit,
  that a refused registration leaves no trace and that unregistering undoes a registration.
\<close>

section \<open>The Redis server\<close>

datatype redis_cmd =
    HSET string string string | HGET string string | DEL string
  | SADD string string | SREM string string | SCARD string
  | ZADD string string int | ZREM string string | INCR string int

datatype redis_reply = RNil | RText string | RInt int

record redis_view =
  rv_hash :: "string \<Rightarrow> string \<rightharpoonup> string"
  rv_set :: "string \<Rightarrow> string set"
  rv_zset :: "string \<Rightarrow> string \<rightharpoonup> int"

record 's redis_server =
  rd_connect :: "'s \<Rightarrow> (string + unit) \<times> 's"
  rd_run :: "redis_cmd \<Rightarrow> 's \<Rightarrow> (string + redis_reply) \<times> 's"
  rd_view :: "'s \<Rightarrow> redis_view"

fun view_step :: "redis_cmd \<Rightarrow> redis_view \<Rightarrow> redis_view" where
  "view_step (HSET k f v) s = s\<lparr>rv_hash := (rv_hash s)(k := (rv_hash s k)(f \<mapsto> v))\<rparr>"
| "view_step (DEL k) s = s\<lparr>rv_hash := (rv_hash s)(k := Map.empty), rv_set := (rv_set s)(k := {}), rv_zset := (rv_zset s)(k := Map.empty)\<rparr>"
| "view_step (SADD k x) s = s\<lparr>rv_set := (rv_set s)(k := insert x (rv_set s k))\<rparr>"
| "view_step (SREM k x) s = s\<lparr>rv_set := (rv_set s)(k := rv_set s k - {x})\<rparr>"
| "view_step (ZADD k x p) s = s\<lparr>rv_zset := (rv_zset s)(k := (rv_zset s k)(x \<mapsto> p))\<rparr>"
| "view_step (ZREM k x) s = s\<lparr>rv_zset := (rv_zset s)(k := (rv_zset s k)(x := None))\<rparr>"
| "view_step (HGET k f) s = s"
| "view_step (SCARD k) s = s"
| "view_step (INCR k n) s = s"

fun reply_ok :: "redis_cmd \<Rightarrow> redis_view \<Rightarrow> redis_reply \<Rightarrow> bool" where
  "reply_ok (HGET k f) s r = (r = (case rv_hash s k f of None \<Rightarrow> RNil | Some v \<Rightarrow> RText v))"
| "reply_ok (SCARD k) s r = (r = RInt (int (card (rv_set s k))))"
| "reply_ok c s r = True"

definition redis_ok :: "'s redis_server \<Rightarrow> bool" where
  "redis_ok S \<longleftrightarrow>
     (\<forall>s r s'. rd_connect S s = (r, s') \<longrightarrow> rd_view S s' = rd_view S s) \<and>
     (\<forall>c s r s'. rd_run S c s = (Inr r, s') \<longrightarrow> rd_view S s' = view_step c (rd_view S s) \<and> reply_ok c (rd_view S s) r)"

section \<open>Sequences of commands\<close>

definition redis_bind :: "('s \<Rightarrow> (string + 'a) \<times> 's) \<Rightarrow> ('a \<Rightarrow> 's \<Rightarrow> (string + 'b) \<times> 's) \<Rightarrow> 's \<Rightarrow> (string + 'b) \<times> 's" where
  "redis_bind m f s = (case m s of (Inl e, s') \<Rightarrow> (Inl e, s') | (Inr x, s') \<Rightarrow> f x s')"

definition redis_pure :: "'a \<Rightarrow> 's \<Rightarrow> (string + 'a) \<times> 's" where
  "redis_pure x s = (Inr x, s)"

primrec redis_hset_all :: "'s redis_server \<Rightarrow> string \<Rightarrow> (string \<times> string) list \<Rightarrow> 's \<Rightarrow> (string + unit) \<times> 's" where
  "redis_hset_all S key [] = redis_pure ()"
| "redis_hset_all S key (x # xs) =
     redis_bind (rd_run S (HSET key (fst x) (snd x))) (\<lambda>_. redis_hset_all S key xs)"

section \<open>Operations\<close>

definition KEY_ONLINE_SET :: string where "KEY_ONLINE_SET = ''proxy:tunnels:online''"

definition KEY_WAIT_ZSET :: string where "KEY_WAIT_ZSET = ''proxy:tunnel:wait''"

definition tunnel_hash_key :: "string \<Rightarrow> string" where
  "tunnel_hash_key tid = ''proxy:tunnel:'' @ tid"

definition session_online_key :: "string \<Rightarrow> string" where
  "session_online_key sid = ''proxy:session:'' @ sid @ '':tunnels_online''"

definition session_total_key :: "string \<Rightarrow> string" where
  "session_total_key sid = ''proxy:session:'' @ sid @ '':tunnels_total''"

text \<open>The Lua script: a check of the cardinality, then the addition, in one atomic call.\<close>

definition SESSION_SADD_LIMIT :: "'s redis_server \<Rightarrow> string \<Rightarrow> int \<Rightarrow> string \<Rightarrow> 's \<Rightarrow> (string + int) \<times> 's" where
  "SESSION_SADD_LIMIT S key mx tid =
    (let add = redis_bind (rd_run S (SADD key tid)) (\<lambda>_. redis_pure 1) in
     if 0 < mx
     then redis_bind (rd_run S (SCARD key)) (\<lambda>n. if (case n of RInt c \<Rightarrow> mx \<le> c | _ \<Rightarrow> False) then redis_pure 0 else add)
     else add)"

datatype RegisterOnlineError = SessionDeviceLimit | RedisErr string

definition map_redis_err :: "(string + bool) \<times> 's \<Rightarrow> (RegisterOnlineError + unit) \<times> 's" where
  "map_redis_err r = (case r of (Inl e, s) \<Rightarrow> (Inl (RedisErr e), s)
     | (Inr admitted, s) \<Rightarrow> (if admitted then Inr () else Inl SessionDeviceLimit, s))"

definition session_field :: "(string \<times> string) list \<Rightarrow> string option" where
  "session_field fs = map_option snd (find (\<lambda>(k, v). k = ''session_id'') fs)"

definition register_session :: "'s redis_server \<Rightarrow> string \<Rightarrow> string \<Rightarrow> u32 \<Rightarrow> 's \<Rightarrow> (string + bool) \<times> 's" where
  "register_session S tid sid session_max_concurrent =
     redis_bind (SESSION_SADD_LIMIT S (session_online_key sid) (int (unat session_max_concurrent)) tid) (\<lambda>r.
     if r = 0
     then redis_bind (rd_run S (DEL (tunnel_hash_key tid))) (\<lambda>_.
          redis_bind (rd_run S (SREM KEY_ONLINE_SET tid)) (\<lambda>_. redis_pure False))
     else redis_bind (rd_run S (INCR (session_total_key sid) 1)) (\<lambda>_. redis_pure True))"

definition register_online ::
    "'s redis_server \<Rightarrow> string \<Rightarrow> (string \<times> string) list \<Rightarrow> u32 \<Rightarrow> 's \<Rightarrow> (RegisterOnlineError + unit) \<times> 's" where
  "register_online S tid fs session_max_concurrent s = map_redis_err
     (redis_bind (rd_connect S) (\<lambda>_.
      redis_bind (redis_hset_all S (tunnel_hash_key tid) fs) (\<lambda>_.
      redis_bind (rd_run S (SADD KEY_ONLINE_SET tid)) (\<lambda>_.
      case session_field fs of
        None \<Rightarrow> redis_pure True
      | Some sid \<Rightarrow> if sid = [] then redis_pure True else register_session S tid sid session_max_concurrent))) s)"

definition update_fields :: "'s redis_server \<Rightarrow> string \<Rightarrow> (string \<times> string) list \<Rightarrow> 's \<Rightarrow> (string + unit) \<times> 's" where
  "update_fields S tid fs = redis_bind (rd_connect S) (\<lambda>_. redis_hset_all S (tunnel_hash_key tid) fs)"

definition unregister :: "'s redis_server \<Rightarrow> string \<Rightarrow> 's \<Rightarrow> (string + unit) \<times> 's" where
  "unregister S tid =
     redis_bind (rd_connect S) (\<lambda>_.
     redis_bind (rd_run S (HGET (tunnel_hash_key tid) ''session_id'')) (\<lambda>sid.
     redis_bind (rd_run S (DEL (tunnel_hash_key tid))) (\<lambda>_.
     redis_bind (rd_run S (SREM KEY_ONLINE_SET tid)) (\<lambda>_.
     redis_bind (rd_run S (ZREM KEY_WAIT_ZSET tid)) (\<lambda>_.
     case sid of
       RText s \<Rightarrow> if s = [] then redis_pure ()
                   else redis_bind (rd_run S (SREM (session_online_key s) tid)) (\<lambda>_. redis_pure ())
     | _ \<Rightarrow> redis_pure ())))))"

definition wait_zadd :: "'s redis_server \<Rightarrow> string \<Rightarrow> int \<Rightarrow> 's \<Rightarrow> (string + unit) \<times> 's" where
  "wait_zadd S tid priority = redis_bind (rd_connect S) (\<lambda>_.
     redis_bind (rd_run S (ZADD KEY_WAIT_ZSET tid priority)) (\<lambda>_. redis_pure ()))"

definition wait_zrem :: "'s redis_server \<Rightarrow> string \<Rightarrow> 's \<Rightarrow> (string + unit) \<times> 's" where
  "wait_zrem S tid = redis_bind (rd_connect S) (\<lambda>_.
     redis_bind (rd_run S (ZREM KEY_WAIT_ZSET tid)) (\<lambda>_. redis_pure ()))"

text \<open>The drop guard ignores the outcome of the unregistration; without a registry it does nothing.\<close>

definition RedisTunnelDropGuard_drop :: "'s redis_server option \<Rightarrow> string \<Rightarrow> 's \<Rightarrow> 's" where
  "RedisTunnelDropGuard_drop S tid s = (case S of None \<Rightarrow> s | Some srv \<Rightarrow> snd (unregister srv tid s))"

text \<open>The fields of a snapshot; the RFC 3339 time stamp is an argument.\<close>

definition redis_fields_snapshot ::
    "string \<Rightarrow> string \<Rightarrow> string option \<Rightarrow> string option \<Rightarrow> string \<Rightarrow> int \<Rightarrow> int \<Rightarrow> u64 \<Rightarrow> u64 \<Rightarrow> u64 \<Rightarrow> u64 \<Rightarrow> (string \<times> string) list" where
  "redis_fields_snapshot now tid sid pubkey corr wire_mode priority accum bi bo cp =
     [(''tunnel_id'', tid), (''updated_at'', now), (''stream_correlation_id'', corr), (''wire_mode'', show_int wire_mode),
      (''priority'', show_int priority), (''accum_active_ms'', show_nat (unat accum)), (''bytes_in'', show_nat (unat bi)),
      (''bytes_out'', show_nat (unat bo)), (''last_checkpoint_active_ms'', show_nat (unat cp))]
     @ (case sid of None \<Rightarrow> [] | Some s \<Rightarrow> [(''session_id'', s)])
     @ (case pubkey of None \<Rightarrow> [] | Some p \<Rightarrow> [(''client_pubkey_b64'', p)])"


section \<open>What the commands of an operation do\<close>

lemma bind_Inr: "redis_bind m f s = (Inr y, t) \<longleftrightarrow> (\<exists>x u. m s = (Inr x, u) \<and> f x u = (Inr y, t))"
  by (auto simp: redis_bind_def split: sum.split prod.split)

lemma pure_Inr [simp]: "redis_pure x s = (Inr y, t) \<longleftrightarrow> y = x \<and> t = s"
  by (auto simp: redis_pure_def)

lemma run_view:
  "redis_ok S \<Longrightarrow> rd_run S c s = (Inr r, t) \<Longrightarrow> rd_view S t = view_step c (rd_view S s) \<and> reply_ok c (rd_view S s) r"
  by (simp add: redis_ok_def)

lemma connect_view: "redis_ok S \<Longrightarrow> rd_connect S s = (r, t) \<Longrightarrow> rd_view S t = rd_view S s"
  by (simp add: redis_ok_def)

definition hset_view :: "string \<Rightarrow> (string \<times> string) list \<Rightarrow> redis_view \<Rightarrow> redis_view" where
  "hset_view key fs v = fold (\<lambda>x. view_step (HSET key (fst x) (snd x))) fs v"

lemma hset_all_view:
  "redis_ok S \<Longrightarrow> redis_hset_all S key fs s = (Inr (), t) \<Longrightarrow> rd_view S t = hset_view key fs (rd_view S s)"
proof (induction fs arbitrary: s)
  case (Cons x fs)
  from Cons.prems(2) obtain r u where "rd_run S (HSET key (fst x) (snd x)) s = (Inr r, u)" "redis_hset_all S key fs u = (Inr (), t)"
    by (auto simp: bind_Inr)
  with run_view [OF Cons.prems(1)] Cons.IH [OF Cons.prems(1)] show ?case by (simp add: hset_view_def)
qed (simp add: hset_view_def)

lemma hset_view_hash: "rv_hash (hset_view key fs v) = (rv_hash v)(key := rv_hash v key ++ map_of (rev fs))"
proof (induction fs arbitrary: v)
  case (Cons x fs)
  have "hset_view key (x # fs) v = hset_view key fs (view_step (HSET key (fst x) (snd x)) v)" by (simp add: hset_view_def)
  then show ?case using Cons by (cases x) (simp add: map_add_assoc [symmetric] fun_upd_def fun_eq_iff map_add_def split: option.split)
qed (simp add: hset_view_def)

lemma hset_view_others [simp]: "rv_set (hset_view key fs v) = rv_set v" "rv_zset (hset_view key fs v) = rv_zset v"
  by (induction fs arbitrary: v) (simp_all add: hset_view_def)

lemma script_view:
  assumes "redis_ok S" "SESSION_SADD_LIMIT S key mx tid s = (Inr r, t)"
  shows "if r = 0 then 0 < mx \<and> mx \<le> int (card (rv_set (rd_view S s) key)) \<and> rd_view S t = rd_view S s
         else (0 < mx \<longrightarrow> int (card (rv_set (rd_view S s) key)) < mx) \<and> rd_view S t = view_step (SADD key tid) (rd_view S s)"
proof -
  have add: "r = 1 \<and> rd_view S t = view_step (SADD key tid) (rd_view S u)"
    if "redis_bind (rd_run S (SADD key tid)) (\<lambda>_. redis_pure 1) u = (Inr r, t)" for u
  proof -
    from that obtain x where "r = 1" "rd_run S (SADD key tid) u = (Inr x, t)" by (auto simp: bind_Inr)
    with run_view [OF assms(1) this(2)] show ?thesis by simp
  qed
  show ?thesis
  proof (cases "0 < mx")
    case True
    from assms(2) True obtain n u where n: "rd_run S (SCARD key) s = (Inr n, u)"
      and rest: "(if case n of RInt c \<Rightarrow> mx \<le> c | _ \<Rightarrow> False then redis_pure 0
          else redis_bind (rd_run S (SADD key tid)) (\<lambda>_. redis_pure 1)) u = (Inr r, t)"
      by (auto simp: SESSION_SADD_LIMIT_def Let_def bind_Inr)
    from run_view [OF assms(1) n] have "n = RInt (int (card (rv_set (rd_view S s) key)))" "rd_view S u = rd_view S s"
      by simp_all
    with rest True add [of u] show ?thesis
      by (cases "mx \<le> int (card (rv_set (rd_view S s) key))") simp_all
  next
    case False
    with assms(2) add [of s] show ?thesis by (simp add: SESSION_SADD_LIMIT_def Let_def)
  qed
qed

text \<open>The store after the fields are written and the tunnel is in the online set.\<close>

definition online_view :: "string \<Rightarrow> (string \<times> string) list \<Rightarrow> redis_view \<Rightarrow> redis_view" where
  "online_view tid fs v = view_step (SADD KEY_ONLINE_SET tid) (hset_view (tunnel_hash_key tid) fs v)"

definition live_session :: "(string \<times> string) list \<Rightarrow> string option" where
  "live_session fs = (case session_field fs of None \<Rightarrow> None | Some sid \<Rightarrow> if sid = [] then None else Some sid)"

lemma register_online_stages:
  assumes "redis_ok S" "register_online S tid fs mx s = (r, t)" "r = Inr () \<or> r = Inl SessionDeviceLimit"
  obtains u where "rd_view S u = online_view tid fs (rd_view S s)"
    "(case live_session fs of None \<Rightarrow> redis_pure True | Some sid \<Rightarrow> register_session S tid sid mx) u = (Inr (r = Inr ()), t)"
proof -
  from assms(2,3) have "redis_bind (rd_connect S) (\<lambda>_. redis_bind (redis_hset_all S (tunnel_hash_key tid) fs) (\<lambda>_.
      redis_bind (rd_run S (SADD KEY_ONLINE_SET tid)) (\<lambda>_.
      case live_session fs of None \<Rightarrow> redis_pure True | Some sid \<Rightarrow> register_session S tid sid mx))) s = (Inr (r = Inr ()), t)"
    by (auto simp: register_online_def map_redis_err_def live_session_def split: sum.split_asm prod.split_asm if_split_asm option.split_asm)
  then obtain a b c u where st: "rd_connect S s = (Inr (), a)" "redis_hset_all S (tunnel_hash_key tid) fs a = (Inr (), b)"
      "rd_run S (SADD KEY_ONLINE_SET tid) b = (Inr c, u)"
      "(case live_session fs of None \<Rightarrow> redis_pure True | Some sid \<Rightarrow> register_session S tid sid mx) u = (Inr (r = Inr ()), t)"
    by (auto simp: bind_Inr)
  have "rd_view S u = online_view tid fs (rd_view S s)"
    using connect_view [OF assms(1) st(1)] hset_all_view [OF assms(1) st(2)] run_view [OF assms(1) st(3)]
    by (simp add: online_view_def)
  then show ?thesis using st(4) by (rule that)
qed

lemma register_session_view:
  assumes "redis_ok S" "register_session S tid sid mx s = (Inr b, t)"
  shows "if b then (0 < mx \<longrightarrow> card (rv_set (rd_view S s) (session_online_key sid)) < unat mx) \<and>
             rd_view S t = view_step (SADD (session_online_key sid) tid) (rd_view S s)
         else rd_view S t = view_step (SREM KEY_ONLINE_SET tid) (view_step (DEL (tunnel_hash_key tid)) (rd_view S s))"
proof -
  have mx: "0 < mx \<longleftrightarrow> 0 < int (unat mx)" by (simp only: word_less_nat_alt unat_0 of_nat_0_less_iff)
  from assms(2) obtain r u where u: "SESSION_SADD_LIMIT S (session_online_key sid) (int (unat mx)) tid s = (Inr r, u)"
    and rest: "(if r = 0 then redis_bind (rd_run S (DEL (tunnel_hash_key tid))) (\<lambda>_.
          redis_bind (rd_run S (SREM KEY_ONLINE_SET tid)) (\<lambda>_. redis_pure False))
        else redis_bind (rd_run S (INCR (session_total_key sid) 1)) (\<lambda>_. redis_pure True)) u = (Inr b, t)"
    by (auto simp: register_session_def bind_Inr simp del: of_nat_unat)
  note script = script_view [OF assms(1) u]
  show ?thesis
  proof (cases "r = 0")
    case True
    from rest True obtain x y c where "\<not> b" "rd_run S (DEL (tunnel_hash_key tid)) u = (Inr x, c)"
        "rd_run S (SREM KEY_ONLINE_SET tid) c = (Inr y, t)"
      by (auto simp: bind_Inr)
    with run_view [OF assms(1)] script True show ?thesis by simp
  next
    case False
    from rest False obtain x where "b" "rd_run S (INCR (session_total_key sid) 1) u = (Inr x, t)"
      by (auto simp: bind_Inr)
    with run_view [OF assms(1)] script False mx show ?thesis by (simp del: of_nat_unat)
  qed
qed

section \<open>What a client of the registry sees\<close>

text \<open>A server that never fails, for the witnesses.\<close>

definition plain_redis :: "redis_view redis_server" where
  "plain_redis = \<lparr>rd_connect = (\<lambda>s. (Inr (), s)),
     rd_run = (\<lambda>c s. (Inr (case c of
          HGET k f \<Rightarrow> (case rv_hash s k f of None \<Rightarrow> RNil | Some v \<Rightarrow> RText v)
        | SCARD k \<Rightarrow> RInt (int (card (rv_set s k)))
        | _ \<Rightarrow> RNil), view_step c s)),
     rd_view = id\<rparr>"

definition empty_view :: redis_view where
  "empty_view = \<lparr>rv_hash = (\<lambda>_. Map.empty), rv_set = (\<lambda>_. {}), rv_zset = (\<lambda>_. Map.empty)\<rparr>"

lemma plain_redis_ok: "redis_ok plain_redis"
proof -
  have "reply_ok c s (fst (projr (fst (rd_run plain_redis c s)), ()))" for c s
    by (cases c) (simp_all add: plain_redis_def)
  then show ?thesis by (auto simp: redis_ok_def plain_redis_def)
qed

lemma plain_hset_all: "redis_hset_all plain_redis key fs s = (Inr (), hset_view key fs s)"
  by (induction fs arbitrary: s) (simp_all add: redis_pure_def redis_bind_def hset_view_def plain_redis_def)

lemma plain_run: "rd_connect plain_redis s = (Inr (), s)" "\<exists>r. rd_run plain_redis c s = (Inr r, view_step c s)"
  by (simp_all add: plain_redis_def)

lemma plain_bind: "\<exists>r. redis_bind (rd_run plain_redis c) f s = f r (view_step c s)"
  using plain_run(2) [of c s] by (auto simp: redis_bind_def)

lemma plain_register_session:
  assumes "rv_set s (session_online_key sid) = {}"
  shows "\<exists>t. register_session plain_redis tid sid mx s = (Inr True, t)"
proof -
  have "\<exists>t. SESSION_SADD_LIMIT plain_redis (session_online_key sid) (int (unat mx)) tid s = (Inr 1, t)"
    using assms by (simp add: SESSION_SADD_LIMIT_def plain_redis_def redis_bind_def redis_pure_def Let_def del: of_nat_unat)
  then obtain t where "SESSION_SADD_LIMIT plain_redis (session_online_key sid) (int (unat mx)) tid s = (Inr 1, t)" by blast
  then show ?thesis
    using plain_bind [of "INCR (session_total_key sid) 1" "\<lambda>_. redis_pure True" t]
    by (auto simp: register_session_def redis_bind_def [of "SESSION_SADD_LIMIT a b c d" for a b c d] redis_pure_def simp del: of_nat_unat)
qed

lemma plain_register_empty: "\<exists>t. register_online plain_redis tid fs mx empty_view = (Inr (), t)"
proof -
  let ?v = "view_step (SADD KEY_ONLINE_SET tid) (hset_view (tunnel_hash_key tid) fs empty_view)"
  let ?rest = "case session_field fs of None \<Rightarrow> redis_pure True
      | Some sid \<Rightarrow> if sid = [] then redis_pure True else register_session plain_redis tid sid mx"
  have "rv_set ?v (session_online_key sid) = {}" for sid
    by (simp add: empty_view_def KEY_ONLINE_SET_def session_online_key_def)
  then have reg: "\<exists>t. register_session plain_redis tid sid mx ?v = (Inr True, t)" for sid by (rule plain_register_session)
  have "\<exists>t. ?rest ?v = (Inr True, t)"
  proof (cases "session_field fs")
    case (Some sid)
    with reg [of sid] show ?thesis by (cases "sid = []") (simp_all add: redis_pure_def)
  qed (simp add: redis_pure_def)
  then obtain t where t: "?rest ?v = (Inr True, t)" by blast
  have "redis_bind (rd_connect plain_redis) (\<lambda>_. redis_bind (redis_hset_all plain_redis (tunnel_hash_key tid) fs) (\<lambda>_.
      redis_bind (rd_run plain_redis (SADD KEY_ONLINE_SET tid)) (\<lambda>_. ?rest))) empty_view = ?rest ?v"
    using plain_bind [of "SADD KEY_ONLINE_SET tid" "\<lambda>_. ?rest" "hset_view (tunnel_hash_key tid) fs empty_view"]
    by (simp only: redis_bind_def [of "rd_connect plain_redis"] redis_bind_def [of "redis_hset_all a b c" for a b c]
        plain_run plain_hset_all prod.case sum.case simp_thms)
  with t show ?thesis by (simp add: register_online_def map_redis_err_def)
qed

lemma keys_differ [simp]:
  "session_online_key sid \<noteq> KEY_ONLINE_SET" "KEY_ONLINE_SET \<noteq> session_online_key sid"
  "tunnel_hash_key tid \<noteq> KEY_ONLINE_SET" "KEY_ONLINE_SET \<noteq> tunnel_hash_key tid"
  "tunnel_hash_key tid \<noteq> session_online_key sid" "session_online_key sid \<noteq> tunnel_hash_key tid"
  by (simp_all add: session_online_key_def KEY_ONLINE_SET_def tunnel_hash_key_def)

definition not_registered :: "string \<Rightarrow> redis_view \<Rightarrow> bool" where
  "not_registered tid v \<longleftrightarrow>
     rv_hash v (tunnel_hash_key tid) = Map.empty \<and> rv_set v (tunnel_hash_key tid) = {} \<and>
     rv_zset v (tunnel_hash_key tid) = Map.empty \<and> rv_zset v KEY_WAIT_ZSET tid = None \<and> (\<forall>k. tid \<notin> rv_set v k)"

lemma live_session_iff: "live_session fs = Some sid \<longleftrightarrow> session_field fs = Some sid \<and> sid \<noteq> []"
  by (auto simp: live_session_def split: option.split)

lemma registered_within_limit:
  assumes "redis_ok S" "register_online S tid fs mx s = (Inr (), t)"
    and "session_field fs = Some sid" "sid \<noteq> []" "0 < mx"
  shows "card (rv_set (rd_view S s) (session_online_key sid)) < unat mx \<and>
         card (rv_set (rd_view S t) (session_online_key sid)) \<le> unat mx \<and>
         tid \<in> rv_set (rd_view S t) (session_online_key sid)"
proof -
  obtain u where u: "rd_view S u = online_view tid fs (rd_view S s)"
      "(case live_session fs of None \<Rightarrow> redis_pure True | Some sid \<Rightarrow> register_session S tid sid mx) u = (Inr True, t)"
    using register_online_stages [OF assms(1,2)] by auto
  have "live_session fs = Some sid" using assms(3,4) by (simp add: live_session_iff)
  with u(2) have "register_session S tid sid mx u = (Inr True, t)" by simp
  from register_session_view [OF assms(1) this] assms(5) u(1)
  have t: "card (rv_set (rd_view S s) (session_online_key sid)) < unat mx"
      "rd_view S t = view_step (SADD (session_online_key sid) tid) (online_view tid fs (rd_view S s))"
    by (simp_all add: online_view_def)
  have "card (insert tid (rv_set (rd_view S s) (session_online_key sid))) \<le> Suc (card (rv_set (rd_view S s) (session_online_key sid)))"
    by (rule card_insert_le_m1) simp_all
  with t show ?thesis by (simp add: online_view_def)
qed

text \<open>
  Session device limit. A registration that succeeds for a session with a positive limit found fewer
  tunnels than the limit in the session, and leaves at most that many online; this tunnel is one of them.
\<close>
theorem registry_session_limit:
  assumes "redis_ok S" "register_online S tid fs mx s = (Inr (), t)"
    and "session_field fs = Some sid" "sid \<noteq> []" "0 < mx"
  shows "card (rv_set (rd_view S s) (session_online_key sid)) < unat mx \<and>
         card (rv_set (rd_view S t) (session_online_key sid)) \<le> unat mx \<and>
         tid \<in> rv_set (rd_view S t) (session_online_key sid)"
  by (rule registered_within_limit [OF assms])

theorem registry_session_limit_witness:
  "\<exists>t. register_online plain_redis ''t1'' [(''session_id'', ''s'')] 1 empty_view = (Inr (), t) \<and>
     card (rv_set t (session_online_key ''s'')) \<le> 1"
proof -
  obtain t where t: "register_online plain_redis ''t1'' [(''session_id'', ''s'')] 1 empty_view = (Inr (), t)"
    by (simp add: register_online_def plain_redis_def redis_bind_def redis_pure_def session_field_def register_session_def
        SESSION_SADD_LIMIT_def map_redis_err_def empty_view_def)
  have "card (rv_set (rd_view plain_redis t) (session_online_key ''s'')) \<le> unat (1 :: u32)"
    using registry_session_limit [OF plain_redis_ok t, of "''s''"] by (simp add: session_field_def)
  with t show ?thesis by (auto simp: plain_redis_def)
qed

text \<open>
  A refused registration leaves no trace. When a new tunnel is refused because its session is full, every
  hash, set and sorted set is as before.
\<close>
theorem registry_refusal_clean:
  assumes "redis_ok S" "register_online S tid fs mx s = (Inl SessionDeviceLimit, t)" "not_registered tid (rd_view S s)"
  shows "rd_view S t = rd_view S s"
proof -
  obtain u where u: "rd_view S u = online_view tid fs (rd_view S s)"
      "(case live_session fs of None \<Rightarrow> redis_pure True | Some sid \<Rightarrow> register_session S tid sid mx) u = (Inr False, t)"
    using register_online_stages [OF assms(1,2)] by auto
  then obtain sid where "register_session S tid sid mx u = (Inr False, t)" by (cases "live_session fs") auto
  from register_session_view [OF assms(1) this] u(1) have
    "rd_view S t = view_step (SREM KEY_ONLINE_SET tid) (view_step (DEL (tunnel_hash_key tid)) (online_view tid fs (rd_view S s)))"
    by simp
  with assms(3) show ?thesis
    by (intro redis_view.equality) (auto simp: not_registered_def online_view_def hset_view_hash fun_eq_iff)
qed

theorem registry_refusal_clean_witness:
  "\<exists>v t. register_online plain_redis ''t2'' [(''session_id'', ''s'')] 1 v = (Inl SessionDeviceLimit, t) \<and> t = v"
proof -
  define v where "v = view_step (SADD (session_online_key ''s'') ''t1'') empty_view"
  obtain t where t: "register_online plain_redis ''t2'' [(''session_id'', ''s'')] 1 v = (Inl SessionDeviceLimit, t)"
    by (simp add: register_online_def plain_redis_def redis_bind_def redis_pure_def session_field_def register_session_def
        SESSION_SADD_LIMIT_def map_redis_err_def empty_view_def v_def)
  have "not_registered ''t2'' (rd_view plain_redis v)"
    by (simp add: not_registered_def v_def empty_view_def plain_redis_def)
  from registry_refusal_clean [OF plain_redis_ok t this] t show ?thesis by (auto simp: plain_redis_def)
qed

lemma session_field_map_of: "session_field fs = map_of fs ''session_id''"
  by (induction fs) (auto simp: session_field_def)

lemma map_of_rev_distinct: "distinct (map fst xs) \<Longrightarrow> map_of (rev xs) = map_of xs"
  by (rule map_of_inject_set [THEN iffD2]) (auto simp: rev_map [symmetric])

lemma unregister_view:
  assumes "redis_ok S" "unregister S tid s = (Inr (), t)"
  shows "rd_view S t = (let v = rd_view S s;
       w = view_step (ZREM KEY_WAIT_ZSET tid) (view_step (SREM KEY_ONLINE_SET tid) (view_step (DEL (tunnel_hash_key tid)) v)) in
     case rv_hash v (tunnel_hash_key tid) ''session_id'' of
       None \<Rightarrow> w
     | Some sid \<Rightarrow> if sid = [] then w else view_step (SREM (session_online_key sid) tid) w)"
proof -
  from assms(2) obtain q a sid b c d e x y z where st:
      "rd_connect S s = (Inr q, a)" "rd_run S (HGET (tunnel_hash_key tid) ''session_id'') a = (Inr sid, b)"
      "rd_run S (DEL (tunnel_hash_key tid)) b = (Inr x, c)" "rd_run S (SREM KEY_ONLINE_SET tid) c = (Inr y, d)"
      "rd_run S (ZREM KEY_WAIT_ZSET tid) d = (Inr z, e)"
    and fin: "(case sid of RText s \<Rightarrow> if s = [] then redis_pure ()
                   else redis_bind (rd_run S (SREM (session_online_key s) tid)) (\<lambda>_. redis_pure ())
        | _ \<Rightarrow> redis_pure ()) e = (Inr (), t)"
    unfolding unregister_def bind_Inr by blast
  note views = connect_view [OF assms(1) st(1)] st(2-5) [THEN run_view [OF assms(1)]]
  show ?thesis
  proof (cases "rv_hash (rd_view S s) (tunnel_hash_key tid) ''session_id''")
    case None
    with views have "sid = RNil" by simp
    with fin views None show ?thesis by (simp add: Let_def)
  next
    case (Some u)
    with views have sid: "sid = RText u" by simp
    show ?thesis
    proof (cases "u = []")
      case True
      with fin views Some sid show ?thesis by (simp add: Let_def)
    next
      case False
      with fin sid obtain w where "rd_run S (SREM (session_online_key u) tid) e = (Inr w, t)" by (auto simp: bind_Inr)
      from run_view [OF assms(1) this] views Some False show ?thesis by (simp add: Let_def)
    qed
  qed
qed

text \<open>
  Unregistering undoes a registration. For a new tunnel with distinct field names, registering and then
  unregistering restores every hash, set and sorted set; in particular the slot of the session is free again.
\<close>
theorem registry_unregister_undoes:
  assumes "redis_ok S" "register_online S tid fs mx s = (Inr (), t)" "unregister S tid t = (Inr (), u)"
    and "not_registered tid (rd_view S s)" "distinct (map fst fs)"
  shows "rd_view S u = rd_view S s"
proof -
  obtain a where a: "rd_view S a = online_view tid fs (rd_view S s)"
      "(case live_session fs of None \<Rightarrow> redis_pure True | Some sid \<Rightarrow> register_session S tid sid mx) a = (Inr True, t)"
    using register_online_stages [OF assms(1,2)] by auto
  have hash: "rv_hash (online_view tid fs (rd_view S s)) (tunnel_hash_key tid) ''session_id'' = session_field fs"
    using assms(4,5) by (simp add: online_view_def hset_view_hash not_registered_def map_of_rev_distinct session_field_map_of)
  note n = assms(4) [unfolded not_registered_def]
  show ?thesis
  proof (cases "live_session fs")
    case None
    with a have t: "rd_view S t = online_view tid fs (rd_view S s)" by simp
    from None have "session_field fs = None \<or> session_field fs = Some []"
      by (auto simp: live_session_def split: option.split_asm if_split_asm)
    with unregister_view [OF assms(1,3)] hash t have
      "rd_view S u = view_step (ZREM KEY_WAIT_ZSET tid) (view_step (SREM KEY_ONLINE_SET tid)
         (view_step (DEL (tunnel_hash_key tid)) (online_view tid fs (rd_view S s))))" by (auto simp: Let_def)
    with n show ?thesis
      by (intro redis_view.equality) (auto simp: online_view_def hset_view_hash fun_eq_iff)
  next
    case (Some sid)
    with a(2) register_session_view [OF assms(1), of tid sid mx a True t] a(1)
    have t: "rd_view S t = view_step (SADD (session_online_key sid) tid) (online_view tid fs (rd_view S s))" by simp
    from Some have "session_field fs = Some sid" "sid \<noteq> []" by (simp_all add: live_session_iff)
    with unregister_view [OF assms(1,3)] hash t have
      "rd_view S u = view_step (SREM (session_online_key sid) tid) (view_step (ZREM KEY_WAIT_ZSET tid)
         (view_step (SREM KEY_ONLINE_SET tid) (view_step (DEL (tunnel_hash_key tid)) (rd_view S t))))"
      by (simp add: Let_def)
    with n t show ?thesis
      by (intro redis_view.equality) (auto simp: online_view_def hset_view_hash fun_eq_iff)
  qed
qed

theorem registry_unregister_undoes_witness:
  "\<exists>t u. register_online plain_redis ''t1'' [(''session_id'', ''s'')] 1 empty_view = (Inr (), t) \<and>
     unregister plain_redis ''t1'' t = (Inr (), u) \<and> u = empty_view"
proof -
  obtain t where t: "register_online plain_redis ''t1'' [(''session_id'', ''s'')] 1 empty_view = (Inr (), t)"
    by (simp add: register_online_def plain_redis_def redis_bind_def redis_pure_def session_field_def register_session_def
        SESSION_SADD_LIMIT_def map_redis_err_def empty_view_def)
  obtain u where u: "unregister plain_redis ''t1'' t = (Inr (), u)"
    by (cases "rv_hash t (tunnel_hash_key ''t1'') ''session_id'' \<in> {None, Some []}")
       (auto simp: unregister_def plain_redis_def redis_bind_def redis_pure_def)
  have "not_registered ''t1'' (rd_view plain_redis empty_view)"
    by (simp add: not_registered_def empty_view_def plain_redis_def)
  from registry_unregister_undoes [OF plain_redis_ok t u this] t u show ?thesis by (auto simp: plain_redis_def)
qed

end
