(* ===== verification/Tunnel_Flush.thy ===== *)
theory Tunnel_Flush
  imports Session_Db Tunnel_Registry
begin

text \<open>
  Usage accounting of managed tunnels (\<^verbatim>\<open>server/src/tunnel_flush.rs\<close>): counters of what was flushed,
  the delta flush into the session row, the checkpoint loop and the final flush. A flush reads the tunnel's
  byte and activity counters; the loop is the sequence of its readings, each mirrored to Redis when the tunnel
  has a registry. The theory shows that without
  database failures the flushes of a tunnel add exactly its totals to the session row, however often it
  checkpoints, and that otherwise the row lacks exactly what the failed flushes had to add.
\<close>

section \<open>Operations\<close>

record TunnelFlushCounters =
  tf_bi :: u64
  tf_bo :: u64
  tf_active_ms :: u64

definition flush_counters_default :: TunnelFlushCounters where
  "flush_counters_default = \<lparr>tf_bi = 0, tf_bo = 0, tf_active_ms = 0\<rparr>"

definition i64_clamp :: "int \<Rightarrow> int" where
  "i64_clamp x = max i64_min (min x i64_max)"

definition take_deltas :: "TunnelFlushCounters \<Rightarrow> u64 \<Rightarrow> u64 \<Rightarrow> u64 \<Rightarrow> (u64 \<times> u64 \<times> int) \<times> TunnelFlushCounters" where
  "take_deltas c bi bo active_ms =
    ((u64_saturating_sub bi (tf_bi c), u64_saturating_sub bo (tf_bo c),
      i64_clamp (uint active_ms - uint (tf_active_ms c))),
     c\<lparr>tf_bi := bi, tf_bo := bo, tf_active_ms := active_ms\<rparr>)"

text \<open>A flush may fail in the database (\<open>fault\<close>); the counters have advanced by then.\<close>

datatype flush_error = DbFault | DbRefused DbError

definition flush_managed_session_deltas ::
    "bool \<Rightarrow> string \<Rightarrow> string \<Rightarrow> u64 \<Rightarrow> u64 \<Rightarrow> u64 \<Rightarrow> int \<Rightarrow> int option \<Rightarrow> TunnelFlushCounters \<Rightarrow> session_table
       \<Rightarrow> (flush_error + unit) \<times> TunnelFlushCounters \<times> session_table" where
  "flush_managed_session_deltas fault sid pubkey bi bo active_ms last_activity_at first_open counters tbl =
    (case take_deltas counters bi bo active_ms of
       ((dbi, dbo, da), counters') \<Rightarrow>
         if dbi = 0 \<and> dbo = 0 \<and> da = 0 then (Inr (), counters', tbl)
         else if fault then (Inl DbFault, counters', tbl)
         else case increment_grpc_proxy_session_traffic sid pubkey dbi dbo da last_activity_at first_open tbl of
             Inl e \<Rightarrow> (Inl (DbRefused e), counters', tbl)
           | Inr tbl' \<Rightarrow> (Inr (), counters', tbl'))"

definition flush_managed_tunnel_end ::
    "bool \<Rightarrow> string \<Rightarrow> string \<Rightarrow> u64 \<Rightarrow> u64 \<Rightarrow> u64 \<Rightarrow> int \<Rightarrow> TunnelFlushCounters \<Rightarrow> session_table
       \<Rightarrow> (flush_error + unit) \<times> TunnelFlushCounters \<times> session_table" where
  "flush_managed_tunnel_end fault sid pubkey bi bo active_ms now counters tbl =
     flush_managed_session_deltas fault sid pubkey bi bo active_ms now (Some now) counters tbl"

text \<open>
  One tick of the checkpoint loop reads the counters and the clock (as milliseconds and as the RFC 3339 text
  of the snapshot); its error is only logged.
\<close>

record reading =
  rd_bi :: u64
  rd_bo :: u64
  rd_active_ms :: u64
  rd_now :: int
  rd_stamp :: string
  rd_fault :: bool

record 's ManagedTunnelCheckpoint =
  cp_session_id :: string
  cp_client_pubkey :: string
  cp_redis :: "'s redis_server option"
  cp_tunnel_id :: string
  cp_wire_mode :: int
  cp_priority :: int
  cp_stream_correlation_id :: string

definition checkpoint_flush ::
    "string \<Rightarrow> string \<Rightarrow> reading \<Rightarrow> TunnelFlushCounters \<times> session_table \<Rightarrow> TunnelFlushCounters \<times> session_table" where
  "checkpoint_flush sid pubkey rd st =
     snd (flush_managed_session_deltas (rd_fault rd) sid pubkey (rd_bi rd) (rd_bo rd) (rd_active_ms rd)
            (rd_now rd) (Some (rd_now rd)) (fst st) (snd st))"

definition checkpoint_mirror :: "'s ManagedTunnelCheckpoint \<Rightarrow> reading \<Rightarrow> TunnelFlushCounters \<Rightarrow> 's \<Rightarrow> 's" where
  "checkpoint_mirror cp rd c rs = (case cp_redis cp of
       None \<Rightarrow> rs
     | Some S \<Rightarrow> snd (update_fields S (cp_tunnel_id cp)
         (redis_fields_snapshot (rd_stamp rd) (cp_tunnel_id cp) (Some (cp_session_id cp)) (Some (cp_client_pubkey cp))
            (cp_stream_correlation_id cp) (cp_wire_mode cp) (cp_priority cp) (rd_active_ms rd) (rd_bi rd) (rd_bo rd)
            (tf_active_ms c)) rs))"

definition checkpoint_tick ::
    "'s ManagedTunnelCheckpoint \<Rightarrow> reading \<Rightarrow> (TunnelFlushCounters \<times> session_table) \<times> 's
       \<Rightarrow> (TunnelFlushCounters \<times> session_table) \<times> 's" where
  "checkpoint_tick cp rd st =
    (let flushed = checkpoint_flush (cp_session_id cp) (cp_client_pubkey cp) rd (fst st) in
     (flushed, checkpoint_mirror cp rd (fst flushed) (snd st)))"

text \<open>The ticks until shutdown; the whole tunnel adds the final flush.\<close>

definition run_checkpoint_loop ::
    "'s ManagedTunnelCheckpoint \<Rightarrow> reading list \<Rightarrow> (TunnelFlushCounters \<times> session_table) \<times> 's
       \<Rightarrow> (TunnelFlushCounters \<times> session_table) \<times> 's" where
  "run_checkpoint_loop cp ticks st = fold (checkpoint_tick cp) ticks st"

definition tunnel_accounting :: "'s ManagedTunnelCheckpoint \<Rightarrow> reading list \<Rightarrow> reading \<Rightarrow> 's \<Rightarrow> session_table \<Rightarrow> session_table" where
  "tunnel_accounting cp ticks final rs tbl =
    (let ((c, tbl'), _) = run_checkpoint_loop cp ticks ((flush_counters_default, tbl), rs) in
     snd (snd (flush_managed_tunnel_end (rd_fault final) (cp_session_id cp) (cp_client_pubkey cp) (rd_bi final) (rd_bo final)
       (rd_active_ms final) (rd_now final) c tbl')))"

lemma run_checkpoint_flushes:
  "fst (run_checkpoint_loop cp ticks st) = fold (checkpoint_flush (cp_session_id cp) (cp_client_pubkey cp)) ticks (fst st)"
  by (induction ticks arbitrary: st) (simp_all add: run_checkpoint_loop_def checkpoint_tick_def Let_def)

section \<open>Accounting\<close>

text \<open>Readings of counters that only grow and stay below $2^{63}$, as byte counters do.\<close>

definition reading_ge :: "TunnelFlushCounters \<Rightarrow> reading \<Rightarrow> bool" where
  "reading_ge c rd \<longleftrightarrow> tf_bi c \<le> rd_bi rd \<and> tf_bo c \<le> rd_bo rd \<and> tf_active_ms c \<le> rd_active_ms rd \<and>
     unat (rd_bi rd) < 2 ^ 63 \<and> unat (rd_bo rd) < 2 ^ 63 \<and> unat (rd_active_ms rd) < 2 ^ 63"

definition counters_at :: "reading \<Rightarrow> TunnelFlushCounters" where
  "counters_at rd = \<lparr>tf_bi = rd_bi rd, tf_bo = rd_bo rd, tf_active_ms = rd_active_ms rd\<rparr>"

fun growing :: "TunnelFlushCounters \<Rightarrow> reading list \<Rightarrow> bool" where
  "growing c [] = True"
| "growing c (rd # rds) = (reading_ge c rd \<and> growing (counters_at rd) rds)"

lemma take_deltas_exact:
  assumes "reading_ge c rd"
  shows "take_deltas c (rd_bi rd) (rd_bo rd) (rd_active_ms rd) = ((dbi, dbo, da), c') \<Longrightarrow>
    u64_as_i64 dbi = int (unat (rd_bi rd)) - int (unat (tf_bi c)) \<and>
    u64_as_i64 dbo = int (unat (rd_bo rd)) - int (unat (tf_bo c)) \<and>
    da = int (unat (rd_active_ms rd)) - int (unat (tf_active_ms c)) \<and> c' = counters_at rd"
proof -
  assume t: "take_deltas c (rd_bi rd) (rd_bo rd) (rd_active_ms rd) = ((dbi, dbo, da), c')"
  have d: "dbi = u64_saturating_sub (rd_bi rd) (tf_bi c)" "dbo = u64_saturating_sub (rd_bo rd) (tf_bo c)"
    and da: "da = i64_clamp (uint (rd_active_ms rd) - uint (tf_active_ms c))" and c': "c' = counters_at rd"
    using t by (auto simp: take_deltas_def counters_at_def)
  have le: "unat (tf_bi c) \<le> unat (rd_bi rd)" "unat (tf_bo c) \<le> unat (rd_bo rd)"
    "unat (tf_active_ms c) \<le> unat (rd_active_ms rd)" "unat (rd_bi rd) < 2 ^ 63" "unat (rd_bo rd) < 2 ^ 63"
    "unat (rd_active_ms rd) < 2 ^ 63"
    using assms by (simp_all add: reading_ge_def word_le_nat_alt)
  have u: "unat dbi = unat (rd_bi rd) - unat (tf_bi c)" "unat dbo = unat (rd_bo rd) - unat (tf_bo c)"
    by (simp_all only: d unat_u64_saturating_sub)
  have "unat dbi < 2 ^ 63" "unat dbo < 2 ^ 63" using u le by linarith+
  then have "u64_as_i64 dbi = int (unat dbi)" "u64_as_i64 dbo = int (unat dbo)" by (simp_all only: u64_as_i64_small)
  moreover have "da = int (unat (rd_active_ms rd)) - int (unat (tf_active_ms c))"
  proof -
    define m n where "m = unat (rd_active_ms rd)" and "n = unat (tf_active_ms c)"
    have mn: "uint (rd_active_ms rd) = int m" "uint (tf_active_ms c) = int n" by (simp_all add: m_def n_def)
    have "n \<le> m" "m < 2 ^ 63" using le by (simp_all add: m_def n_def)
    then show ?thesis
      unfolding da mn m_def [symmetric] n_def [symmetric] by (auto simp: i64_clamp_def i64_min_def i64_max_def)
  qed
  ultimately show ?thesis using u le c' by (simp add: of_nat_diff)
qed

text \<open>The row \<open>r\<close> has taken in everything up to \<open>c\<close>; \<open>fits\<close> keeps the totals in \<open>BIGINT\<close>.\<close>

definition fits :: "GrpcProxySessionRow \<Rightarrow> TunnelFlushCounters \<Rightarrow> reading \<Rightarrow> bool" where
  "fits r c rd \<longleftrightarrow>
     gr_bytes_in r - int (unat (tf_bi c)) + int (unat (rd_bi rd)) \<le> i64_max \<and>
     gr_bytes_out r - int (unat (tf_bo c)) + int (unat (rd_bo rd)) \<le> i64_max \<and>
     gr_active_ms r - int (unat (tf_active_ms c)) + int (unat (rd_active_ms rd)) \<le> i64_max"

definition advanced :: "GrpcProxySessionRow \<Rightarrow> TunnelFlushCounters \<Rightarrow> reading \<Rightarrow> GrpcProxySessionRow \<Rightarrow> bool" where
  "advanced r c rd r' \<longleftrightarrow>
     gr_bytes_in r' = gr_bytes_in r - int (unat (tf_bi c)) + int (unat (rd_bi rd)) \<and>
     gr_bytes_out r' = gr_bytes_out r - int (unat (tf_bo c)) + int (unat (rd_bo rd)) \<and>
     gr_active_ms r' = gr_active_ms r - int (unat (tf_active_ms c)) + int (unat (rd_active_ms rd))"

text \<open>The session is live in a table with unique ids.\<close>

definition live_in :: "string \<Rightarrow> string \<Rightarrow> session_table \<Rightarrow> GrpcProxySessionRow \<Rightarrow> bool" where
  "live_in sid pubkey tbl r \<longleftrightarrow> session_keys_ok tbl \<and> r \<in> set tbl \<and> live_row sid pubkey r \<and> row_in_range r"

lemma live_in_unique: "live_in sid pubkey tbl r \<Longrightarrow> x \<in> set tbl \<Longrightarrow> gr_session_id x = sid \<Longrightarrow> x = r"
  by (auto simp: live_in_def session_keys_ok_def distinct_map live_row_def dest: inj_onD)

lemma add_traffic_range:
  assumes "row_in_range r" "0 \<le> u64_as_i64 a" "0 \<le> u64_as_i64 b" "0 \<le> d"
    and "gr_bytes_in r + u64_as_i64 a \<le> i64_max" "gr_bytes_out r + u64_as_i64 b \<le> i64_max" "gr_active_ms r + d \<le> i64_max"
  shows "row_in_range (add_traffic a b d la fo r)"
  using assms by (auto simp: row_in_range_def i64_range_def add_traffic_def)

lemma increment_live:
  assumes "live_in sid pubkey tbl r" "row_in_range (add_traffic a b d la fo r)"
  shows "\<exists>tbl'. increment_grpc_proxy_session_traffic sid pubkey a b d la fo tbl = Inr tbl' \<and>
    live_in sid pubkey tbl' (add_traffic a b d la fo r)"
proof -
  let ?f = "add_traffic a b d la fo"
  let ?t = "snd (sql_update (live_row sid pubkey) ?f tbl)"
  have "\<not> list_ex (\<lambda>x. live_row sid pubkey x \<and> \<not> row_in_range (?f x)) tbl"
    using assms live_in_unique [OF assms(1)] by (auto simp: list_ex_iff live_row_def)
  then have i: "increment_grpc_proxy_session_traffic sid pubkey a b d la fo tbl = Inr ?t"
    by (simp add: increment_grpc_proxy_session_traffic_def Let_def)
  have r: "r \<in> set tbl" "live_row sid pubkey r" "session_keys_ok tbl" using assms(1) by (simp_all add: live_in_def)
  have "?f r \<in> set ?t" using r(1,2) by (force simp: sql_update_def)
  moreover have "live_row sid pubkey (?f r)" using r(2) by (simp add: live_row_def add_traffic_def)
  moreover have "session_keys_ok ?t" using r(3) safe_update_keys [OF safe_ops(1)] by simp
  ultimately show ?thesis using i assms(2) by (auto simp: live_in_def)
qed

lemma flush_step:
  assumes l: "live_in sid pubkey tbl r" and ge: "reading_ge c rd" and fit: "fits r c rd"
  shows "\<exists>tbl' r'. flush_managed_session_deltas False sid pubkey (rd_bi rd) (rd_bo rd) (rd_active_ms rd) la fo c tbl
      = (Inr (), counters_at rd, tbl') \<and> live_in sid pubkey tbl' r' \<and> advanced r c rd r'"
proof -
  obtain dbi dbo da c' where t: "take_deltas c (rd_bi rd) (rd_bo rd) (rd_active_ms rd) = ((dbi, dbo, da), c')"
    by (metis prod.exhaust)
  from take_deltas_exact [OF ge t] have e: "u64_as_i64 dbi = int (unat (rd_bi rd)) - int (unat (tf_bi c))"
    "u64_as_i64 dbo = int (unat (rd_bo rd)) - int (unat (tf_bo c))"
    "da = int (unat (rd_active_ms rd)) - int (unat (tf_active_ms c))" "c' = counters_at rd" by blast+
  have nn: "0 \<le> u64_as_i64 dbi" "0 \<le> u64_as_i64 dbo" "0 \<le> da"
    using ge unfolding e by (simp_all add: reading_ge_def word_le_def)
  have row: "row_in_range r" using l by (simp add: live_in_def)
  have rng: "row_in_range (add_traffic dbi dbo da la fo r)"
    by (rule add_traffic_range [OF row nn]) (use fit in \<open>simp_all add: e fits_def\<close>)
  have adv: "advanced r c rd (add_traffic dbi dbo da la fo r)" by (simp add: advanced_def add_traffic_def e)
  show ?thesis
  proof (cases "dbi = 0 \<and> dbo = 0 \<and> da = 0")
    case True
    then have "advanced r c rd r" using adv by (simp add: advanced_def add_traffic_def u64_as_i64_def i64_wrap_def)
    with True l show ?thesis by (auto simp: flush_managed_session_deltas_def t e(4))
  next
    case False
    from increment_live [OF l rng] obtain tbl' where
      "increment_grpc_proxy_session_traffic sid pubkey dbi dbo da la fo tbl = Inr tbl'"
      "live_in sid pubkey tbl' (add_traffic dbi dbo da la fo r)" by blast
    with False adv show ?thesis by (auto simp: flush_managed_session_deltas_def t e(4))
  qed
qed

text \<open>What a counter gained between the readings whose flush the database accepted and the readings before them.\<close>

fun accepted_gain :: "(reading \<Rightarrow> u64) \<Rightarrow> u64 \<Rightarrow> reading list \<Rightarrow> int" where
  "accepted_gain f prev [] = 0"
| "accepted_gain f prev (rd # rds) =
    (if rd_fault rd then 0 else int (unat (f rd)) - int (unat prev)) + accepted_gain f (f rd) rds"

lemma accepted_gain_all:
  "\<forall>rd \<in> set rds. \<not> rd_fault rd \<Longrightarrow> accepted_gain f prev rds = (if rds = [] then 0 else int (unat (f (last rds))) - int (unat prev))"
  by (induction rds arbitrary: prev) auto

definition gained :: "GrpcProxySessionRow \<Rightarrow> TunnelFlushCounters \<Rightarrow> reading list \<Rightarrow> GrpcProxySessionRow \<Rightarrow> bool" where
  "gained r c rds r' \<longleftrightarrow>
     gr_bytes_in r' = gr_bytes_in r + accepted_gain rd_bi (tf_bi c) rds \<and>
     gr_bytes_out r' = gr_bytes_out r + accepted_gain rd_bo (tf_bo c) rds \<and>
     gr_active_ms r' = gr_active_ms r + accepted_gain rd_active_ms (tf_active_ms c) rds"

lemma flush_fault:
  "reading_ge c rd \<Longrightarrow> snd (flush_managed_session_deltas True sid pubkey (rd_bi rd) (rd_bo rd) (rd_active_ms rd) la fo c tbl) = (counters_at rd, tbl)"
  by (simp add: flush_managed_session_deltas_def take_deltas_def counters_at_def)

text \<open>One checkpoint keeps the session live and what still fits.\<close>

lemma checkpoint_step:
  assumes l: "live_in sid pubkey tbl r" and ge: "reading_ge c rd" and fit: "fits r c rd"
  shows "\<exists>tbl' r'. checkpoint_flush sid pubkey rd (c, tbl) = (counters_at rd, tbl') \<and> live_in sid pubkey tbl' r' \<and>
    gained r c [rd] r' \<and> (\<forall>x. fits r c x \<longrightarrow> fits r' (counters_at rd) x)"
proof (cases "rd_fault rd")
  case True
  have le: "unat (tf_bi c) \<le> unat (rd_bi rd)" "unat (tf_bo c) \<le> unat (rd_bo rd)" "unat (tf_active_ms c) \<le> unat (rd_active_ms rd)"
    using ge by (simp_all add: reading_ge_def word_le_nat_alt)
  have "fits r (counters_at rd) x" if "fits r c x" for x
    using that le unfolding fits_def counters_at_def TunnelFlushCounters.simps by linarith
  moreover have "checkpoint_flush sid pubkey rd (c, tbl) = (counters_at rd, tbl)" using flush_fault [OF ge] True by (simp add: checkpoint_flush_def)
  ultimately show ?thesis using l True by (auto simp: gained_def)
next
  case False
  from flush_step [OF l ge fit, of "rd_now rd" "Some (rd_now rd)"] obtain tbl1 r1 where
    "flush_managed_session_deltas False sid pubkey (rd_bi rd) (rd_bo rd) (rd_active_ms rd) (rd_now rd) (Some (rd_now rd)) c tbl
      = (Inr (), counters_at rd, tbl1)" "live_in sid pubkey tbl1 r1" "advanced r c rd r1" by blast
  then show ?thesis using False
    by (intro exI [of _ tbl1] exI [of _ r1]) (auto simp: checkpoint_flush_def gained_def advanced_def fits_def counters_at_def)
qed

lemma checkpoint_run:
  "live_in sid pubkey tbl r \<Longrightarrow> growing c rds \<Longrightarrow> \<forall>rd \<in> set rds. fits r c rd \<Longrightarrow>
    \<exists>tbl' r'. snd (fold (checkpoint_flush sid pubkey) rds (c, tbl)) = tbl' \<and> live_in sid pubkey tbl' r' \<and> gained r c rds r'"
proof (induction rds arbitrary: c tbl r)
  case Nil
  then show ?case by (auto simp: gained_def)
next
  case (Cons rd rds)
  from Cons.prems have ge: "reading_ge c rd" and fit: "fits r c rd" and g: "growing (counters_at rd) rds" by simp_all
  obtain tbl1 r1 where s: "checkpoint_flush sid pubkey rd (c, tbl) = (counters_at rd, tbl1)" "live_in sid pubkey tbl1 r1"
    "gained r c [rd] r1" "\<forall>x. fits r c x \<longrightarrow> fits r1 (counters_at rd) x" using checkpoint_step [OF Cons.prems(1) ge fit] by blast
  have "\<forall>x \<in> set rds. fits r1 (counters_at rd) x" using s(4) Cons.prems(3) by simp
  from Cons.IH [OF s(2) g this] obtain r2 where
    "live_in sid pubkey (snd (fold (checkpoint_flush sid pubkey) rds (counters_at rd, tbl1))) r2" "gained r1 (counters_at rd) rds r2" by blast
  moreover from this(2) s(3) have "gained r c (rd # rds) r2" by (simp add: gained_def counters_at_def)
  ultimately show ?case using s(1) by auto
qed

section \<open>Properties\<close>

lemma live_in_fetch: "live_in sid pubkey tbl r \<Longrightarrow> fetch_by_id tbl sid pubkey = Some r"
proof -
  assume l: "live_in sid pubkey tbl r"
  then obtain x where x: "find (\<lambda>r. gr_session_id r = sid \<and> gr_client_pubkey_b64 r = pubkey) tbl = Some x"
    by (cases "find (\<lambda>r. gr_session_id r = sid \<and> gr_client_pubkey_b64 r = pubkey) tbl")
      (auto simp: find_None_iff live_in_def live_row_def)
  then have "x \<in> set tbl" "gr_session_id x = sid" by (auto simp: find_Some_iff)
  with live_in_unique [OF l] x show ?thesis by (auto simp: fetch_by_id_def)
qed

text \<open>
  C5: Usage accounting. For a session that is live in the table and whose totals fit the integers of the database, any
  number of checkpoints of growing counters followed by the final flush adds to the session row exactly what the
  counters gained up to each flush the database accepted since the reading before it. When no flush fails these are
  the tunnel's final byte counts and active time; the gain of a flush that fails is never added.
\<close>
theorem tunnel_accounting_exact:
  assumes "live_in (cp_session_id cp) (cp_client_pubkey cp) tbl r" "growing flush_counters_default (ticks @ [final])"
    and "\<forall>rd \<in> set (ticks @ [final]). fits r flush_counters_default rd"
  shows "\<exists>r'. fetch_by_id (tunnel_accounting cp ticks final rs tbl) (cp_session_id cp) (cp_client_pubkey cp) = Some r' \<and>
    gr_bytes_in r' = gr_bytes_in r + accepted_gain rd_bi 0 (ticks @ [final]) \<and>
    gr_bytes_out r' = gr_bytes_out r + accepted_gain rd_bo 0 (ticks @ [final]) \<and>
    gr_active_ms r' = gr_active_ms r + accepted_gain rd_active_ms 0 (ticks @ [final]) \<and>
    ((\<forall>rd \<in> set (ticks @ [final]). \<not> rd_fault rd) \<longrightarrow>
       gr_bytes_in r' = gr_bytes_in r + int (unat (rd_bi final)) \<and>
       gr_bytes_out r' = gr_bytes_out r + int (unat (rd_bo final)) \<and>
       gr_active_ms r' = gr_active_ms r + int (unat (rd_active_ms final)))"
proof -
  let ?sid = "cp_session_id cp" and ?pk = "cp_client_pubkey cp"
  have "tunnel_accounting cp ticks final rs tbl =
      snd (fold (checkpoint_flush ?sid ?pk) (ticks @ [final]) (flush_counters_default, tbl))"
    using run_checkpoint_flushes [of cp ticks "((flush_counters_default, tbl), rs)"]
    by (simp add: tunnel_accounting_def checkpoint_flush_def flush_managed_tunnel_end_def split_beta)
  with checkpoint_run [OF assms] obtain r' where
    r': "live_in ?sid ?pk (tunnel_accounting cp ticks final rs tbl) r'" "gained r flush_counters_default (ticks @ [final]) r'"
    by auto
  have "accepted_gain f 0 (ticks @ [final]) = int (unat (f final))" if "\<forall>rd \<in> set (ticks @ [final]). \<not> rd_fault rd" for f
    using accepted_gain_all [OF that, of f 0] by simp
  with live_in_fetch [OF r'(1)] r'(2) show ?thesis by (simp add: gained_def flush_counters_default_def)
qed

definition live_example :: GrpcProxySessionRow where
  "live_example = revoked_row\<lparr>gr_revoked := False\<rparr>"

definition cp_example :: "redis_view ManagedTunnelCheckpoint" where
  "cp_example = \<lparr>cp_session_id = ''s1'', cp_client_pubkey = ''pk'', cp_redis = Some plain_redis, cp_tunnel_id = ''t1'',
     cp_wire_mode = 1, cp_priority = 0, cp_stream_correlation_id = ''c''\<rparr>"

definition reading_example :: "u64 \<Rightarrow> u64 \<Rightarrow> u64 \<Rightarrow> reading" where
  "reading_example bi bo am = \<lparr>rd_bi = bi, rd_bo = bo, rd_active_ms = am, rd_now = 1, rd_stamp = ''now'', rd_fault = False\<rparr>"

text \<open>The database fails at the second of three flushes.\<close>

theorem tunnel_accounting_exact_witness:
  "\<exists>r'. fetch_by_id (tunnel_accounting cp_example [reading_example 10 20 5, (reading_example 18 22 6)\<lparr>rd_fault := True\<rparr>]
        (reading_example 30 25 9) empty_view [live_example]) ''s1'' ''pk'' = Some r' \<and>
    gr_bytes_in r' = gr_bytes_in live_example + 22 \<and> gr_bytes_out r' = gr_bytes_out live_example + 23 \<and>
    gr_active_ms r' = gr_active_ms live_example + 8"
proof -
  have "live_in (cp_session_id cp_example) (cp_client_pubkey cp_example) [live_example] live_example"
    by (simp add: live_in_def session_keys_ok_def live_row_def row_in_range_def live_example_def revoked_row_def cp_example_def
        List.map_filter_simps i64_range_def i64_min_def i64_max_def)
  from tunnel_accounting_exact [OF this, of "[reading_example 10 20 5, (reading_example 18 22 6)\<lparr>rd_fault := True\<rparr>]" "reading_example 30 25 9" empty_view]
  show ?thesis
    by (simp add: reading_ge_def counters_at_def flush_counters_default_def fits_def i64_max_def live_example_def revoked_row_def
        cp_example_def reading_example_def)
qed

lemma take_deltas_again:
  "take_deltas (snd (take_deltas c bi bo am)) bi bo am = ((0, 0, 0), snd (take_deltas c bi bo am))"
  by (simp add: take_deltas_def u64_saturating_sub_def i64_clamp_def i64_min_def i64_max_def)

text \<open>
  A failed flush loses usage. When the database fails during a flush, the session row stays as it was
  but the counters advance, so the next flush with the same readings writes nothing: the bytes of the failed
  flush are never charged.
\<close>
theorem failed_flush_lost:
  assumes "flush_managed_session_deltas True sid pubkey bi bo am la fo c tbl = (res, c', tbl')"
  shows "tbl' = tbl \<and>
    flush_managed_session_deltas False sid pubkey bi bo am la' fo' c' tbl' = (Inr (), c', tbl)"
proof -
  from assms have "tbl' = tbl" "c' = snd (take_deltas c bi bo am)"
    by (auto simp: flush_managed_session_deltas_def split: prod.split_asm if_split_asm)
  then show ?thesis by (simp add: flush_managed_session_deltas_def take_deltas_again)
qed

theorem failed_flush_lost_witness:
  "[live_example] = [live_example] \<and>
    flush_managed_session_deltas False ''s1'' ''pk'' 10 20 5 0 None \<lparr>tf_bi = 10, tf_bo = 20, tf_active_ms = 5\<rparr> [live_example]
      = (Inr (), \<lparr>tf_bi = 10, tf_bo = 20, tf_active_ms = 5\<rparr>, [live_example])"
proof (rule failed_flush_lost)
  show "flush_managed_session_deltas True ''s1'' ''pk'' 10 20 5 0 None flush_counters_default [live_example] =
      (Inl DbFault, \<lparr>tf_bi = 10, tf_bo = 20, tf_active_ms = 5\<rparr>, [live_example])"
    by (simp add: flush_managed_session_deltas_def take_deltas_def flush_counters_default_def u64_saturating_sub_def)
qed

end
