(* ===== verification/Raw_Bridge.thy ===== *)
theory Raw_Bridge
  imports Wire_Relay Tunnel_Flush
begin

text \<open>
  The raw bridge (\<open>run_raw_bridge\<close> of \<^verbatim>\<open>server/src/wire_relay.rs\<close>): after the handshake one task moves client
  messages to the TCP connection and another moves what the target sends back, both under the limits of a
  managed session, until each has ended; then the usage is flushed. The two tasks interleave: a run is a
  sequence of events, each one turn of one task with the clock, the arriving item and the outcome of its
  write or send. The theory shows that the target receives the client's bytes in order and without gaps,
  that forwarding stops at the traffic limits, that the download direction ignores them, and that the
  active time charged never exceeds the time passed.
\<close>

section \<open>Active time\<close>

record ActiveTracker =
  at_last :: "nat option"
  at_idle :: nat
  at_accum_ms :: u64

definition tracker_new :: "u64 \<Rightarrow> ActiveTracker" where
  "tracker_new idle_secs = \<lparr>at_last = None, at_idle = max (unat idle_secs) 1 * NS_PER_SEC, at_accum_ms = 0\<rparr>"

definition tracker_bump :: "nat \<Rightarrow> ActiveTracker \<Rightarrow> ActiveTracker" where
  "tracker_bump now a =
    a\<lparr>at_last := Some now,
      at_accum_ms := (case at_last a of
          None \<Rightarrow> at_accum_ms a
        | Some prev \<Rightarrow>
           (let g = now - prev in
            if g \<le> at_idle a then at_accum_ms a + word_of_nat (g div 10 ^ 6) else at_accum_ms a))\<rparr>"

section \<open>The two tasks\<close>

text \<open>What the bridge knows of a managed session: its policy and the usage stored so far.\<close>

record bridge_cfg =
  bc_policy :: "StoredPolicy option"
  bc_base_in :: u64
  bc_base_out :: u64
  bc_base_active_ms :: u64

definition bridge_cfg_of :: "(GrpcProxySessionRow \<times> StoredPolicy) option \<Rightarrow> bridge_cfg" where
  "bridge_cfg_of managed = (case managed of
      None \<Rightarrow> \<lparr>bc_policy = None, bc_base_in = 0, bc_base_out = 0, bc_base_active_ms = 0\<rparr>
    | Some (r, p) \<Rightarrow> \<lparr>bc_policy = Some p, bc_base_in = word_of_int (max (gr_bytes_in r) 0),
        bc_base_out = word_of_int (max (gr_bytes_out r) 0), bc_base_active_ms = word_of_int (max (gr_active_ms r) 0)\<rparr>)"

datatype in_task = InRunning | InDone "status option"

datatype bridge_msg = MsgEof | MsgError string | MsgData bytes

record bridge =
  br_bytes_in :: u64
  br_bytes_out :: u64
  br_active :: ActiveTracker
  br_upstream :: bytes
  br_shutdown :: bool
  br_client :: "bridge_msg list"
  br_in :: in_task
  br_out_running :: bool

definition bridge_init :: "(GrpcProxySessionRow \<times> StoredPolicy) option \<Rightarrow> u64 \<Rightarrow> u64 \<Rightarrow> bytes \<Rightarrow> bridge" where
  "bridge_init managed bytes_in bytes_out early =
    \<lparr>br_bytes_in = bytes_in, br_bytes_out = bytes_out,
     br_active = tracker_new (case managed of None \<Rightarrow> 60 | Some (_, p) \<Rightarrow> idle_timeout_sec p),
     br_upstream = early, br_shutdown = False, br_client = [], br_in = InRunning, br_out_running = True\<rparr>"

text \<open>The bytes behind the header are counted and written first; a failing write ends the bridge without a flush.\<close>

definition bridge_pending :: "bytes \<Rightarrow> bool \<Rightarrow> bridge \<Rightarrow> bridge option" where
  "bridge_pending pending write_ok st =
    (if pending = [] then Some st
     else if \<not> write_ok then None
     else Some (st\<lparr>br_bytes_in := br_bytes_in st + word_of_nat (length pending), br_upstream := br_upstream st @ pending\<rparr>))"

definition in_end :: "status option \<Rightarrow> bridge \<Rightarrow> bridge" where
  "in_end res st = st\<lparr>br_shutdown := True, br_in := InDone res\<rparr>"

text \<open>A write takes all bytes, or fails when some of them have gone out.\<close>

datatype write_result = WriteOk | WriteErr nat

definition in_data :: "bridge_cfg \<Rightarrow> nat \<Rightarrow> write_result \<Rightarrow> bytes \<Rightarrow> bridge \<Rightarrow> bridge" where
  "in_data cfg now w d st =
    (if MAX_PROXY_CHUNK < length d then in_end (Some (InvalidArgument ''proxy chunk too large'')) st
     else let bi = br_bytes_in st + word_of_nat (length d);
              a = tracker_bump now (br_active st);
              st' = st\<lparr>br_bytes_in := bi, br_active := a\<rparr>;
              traffic_exceeded = (case bc_policy cfg of None \<Rightarrow> False
                | Some pol \<Rightarrow> check_traffic_limits pol (bc_base_in cfg + bi) (bc_base_out cfg + br_bytes_out st) \<noteq> Inr ());
              budget_exceeded = (case bc_policy cfg of None \<Rightarrow> False
                | Some pol \<Rightarrow> \<not> traffic_exceeded \<and> active_time_budget_exceeded pol (bc_base_active_ms cfg) (at_accum_ms a)) in
       if traffic_exceeded then in_end (Some (ResourceExhausted ''proxy session traffic limit'')) st'
       else if budget_exceeded then in_end (Some (ResourceExhausted ''proxy session active time budget exhausted'')) st'
       else case w of
           WriteErr n \<Rightarrow> in_end (Some (Internal ''tcp write'')) (st'\<lparr>br_upstream := br_upstream st' @ take n d\<rparr>)
         | WriteOk \<Rightarrow> st'\<lparr>br_upstream := br_upstream st' @ d\<rparr>)"

fun in_step :: "bridge_cfg \<Rightarrow> nat \<Rightarrow> write_result \<Rightarrow> client_item option \<Rightarrow> bridge \<Rightarrow> bridge" where
  "in_step cfg now w None st = in_end None st"
| "in_step cfg now w (Some (ItemErr e)) st = in_end (Some (Internal e)) st"
| "in_step cfg now w (Some ItemOpen) st = in_end (Some (InvalidArgument ''duplicate Open'')) st"
| "in_step cfg now w (Some (ItemData d)) st = in_data cfg now w d st"
| "in_step cfg now w (Some ItemFin) st = in_end None st"
| "in_step cfg now w (Some ItemEmpty) st = st"

text \<open>A read fills at most the buffer of \<^const>\<open>MAX_PROXY_CHUNK\<close> bytes; no bytes mean the end.\<close>

datatype read_result = ReadOk bytes | ReadErr string

definition out_msg :: "bool \<Rightarrow> bridge_msg \<Rightarrow> bridge \<Rightarrow> bridge" where
  "out_msg send_ok m st = (if send_ok then st\<lparr>br_client := br_client st @ [m]\<rparr> else st)"

definition out_step :: "bridge_cfg \<Rightarrow> nat \<Rightarrow> bool \<Rightarrow> read_result \<Rightarrow> bridge \<Rightarrow> bridge" where
  "out_step cfg now send_ok rd st = (case rd of
      ReadErr e \<Rightarrow> (out_msg send_ok (MsgError e) st)\<lparr>br_out_running := False\<rparr>
    | ReadOk bs \<Rightarrow>
       if bs = [] then (out_msg send_ok MsgEof st)\<lparr>br_out_running := False\<rparr>
       else let a = tracker_bump now (br_active st);
                st' = st\<lparr>br_bytes_out := br_bytes_out st + word_of_nat (length bs), br_active := a\<rparr>;
                budget_exceeded = (case bc_policy cfg of None \<Rightarrow> False
                  | Some pol \<Rightarrow> active_time_budget_exceeded pol (bc_base_active_ms cfg) (at_accum_ms a)) in
         if budget_exceeded
         then (out_msg send_ok (MsgError ''proxy session active time budget exhausted'') st')\<lparr>br_out_running := False\<rparr>
         else if send_ok then out_msg True (MsgData bs) st'
         else st'\<lparr>br_out_running := False\<rparr>)"

section \<open>Interleaving and end\<close>

datatype bridge_event =
    EvIn nat write_result "client_item option"
  | EvOut nat bool read_result

fun bridge_apply :: "bridge_cfg \<Rightarrow> bridge_event \<Rightarrow> bridge \<Rightarrow> bridge" where
  "bridge_apply cfg (EvIn now w item) st = (if br_in st = InRunning then in_step cfg now w item st else st)"
| "bridge_apply cfg (EvOut now send_ok rd) st = (if br_out_running st then out_step cfg now send_ok rd st else st)"

definition bridge_run :: "bridge_cfg \<Rightarrow> bridge_event list \<Rightarrow> bridge \<Rightarrow> bridge" where
  "bridge_run cfg evs st = fold (bridge_apply cfg) evs st"

definition floor_to_utc_hour :: "int \<Rightarrow> int" where
  "floor_to_utc_hour ms = (let ts = ms div 1000 in (ts - ts mod 3600) * 1000)"

text \<open>
  After both tasks: the final flush (of the checkpointed tunnel, or in one increment), the totals of the
  process and the hourly bucket of the client. Database errors are logged and change nothing.
\<close>

record bridge_books =
  bb_sessions :: session_table
  bb_hourly :: hourly_table
  bb_metrics_in :: u64
  bb_metrics_out :: u64

definition bridge_finish ::
    "'s ManagedTunnelCheckpoint option \<Rightarrow> TunnelFlushCounters \<Rightarrow> (GrpcProxySessionRow \<times> StoredPolicy) option \<Rightarrow> bool \<Rightarrow> bool
       \<Rightarrow> string option \<Rightarrow> int \<Rightarrow> bridge \<Rightarrow> bridge_books \<Rightarrow> bridge_books" where
  "bridge_finish checkpoint counters managed has_db fault pubkey now st bk =
    (let bi = br_bytes_in st; bo = br_bytes_out st; am = at_accum_ms (br_active st);
         sessions = (case checkpoint of
             Some cp \<Rightarrow> snd (snd (flush_managed_tunnel_end fault (cp_session_id cp) (cp_client_pubkey cp) bi bo am now counters (bb_sessions bk)))
           | None \<Rightarrow>
              (case managed of
                 Some (r, _) \<Rightarrow>
                   if \<not> has_db \<or> fault then bb_sessions bk
                   else (case increment_grpc_proxy_session_traffic (gr_session_id r) (gr_client_pubkey_b64 r) bi bo
                                (u64_as_i64 am) now (Some now) (bb_sessions bk) of
                           Inl _ \<Rightarrow> bb_sessions bk | Inr t \<Rightarrow> t)
               | None \<Rightarrow> bb_sessions bk));
         hourly = (case pubkey of
             Some pk \<Rightarrow> if has_db \<and> (0 < bi \<or> 0 < bo) \<and> \<not> fault
                       then add_grpc_proxy_traffic_hourly pk (floor_to_utc_hour now) bi bo (bb_hourly bk) else bb_hourly bk
           | None \<Rightarrow> bb_hourly bk) in
     bk\<lparr>bb_sessions := sessions, bb_hourly := hourly,
        bb_metrics_in := bb_metrics_in bk + bi, bb_metrics_out := bb_metrics_out bk + bo\<rparr>)"

section \<open>Upload: order and limits\<close>

fun event_chunks :: "bridge_event \<Rightarrow> bytes list" where
  "event_chunks (EvIn now ok (Some (ItemData d))) = [d]"
| "event_chunks _ = []"

definition in_chunks :: "bridge_event list \<Rightarrow> bytes list" where
  "in_chunks evs = concat (map event_chunks evs)"

lemma bridge_run_snoc: "bridge_run cfg (evs @ [ev]) st = bridge_apply cfg ev (bridge_run cfg evs st)"
  by (simp add: bridge_run_def)

lemma out_step_keeps:
  "br_upstream (out_step cfg now ok rd st) = br_upstream st" "br_in (out_step cfg now ok rd st) = br_in st"
  "br_bytes_in (out_step cfg now ok rd st) = br_bytes_in st"
  by (simp_all add: out_step_def out_msg_def Let_def split: read_result.split)

lemma u64_add_nat: "unat (a :: u64) + n < 2 ^ 64 \<Longrightarrow> unat (a + word_of_nat n) = unat a + n"
  by (simp add: unat_word_ariths(1) unat_of_nat)

text \<open>
  One turn forwards its chunk, which passed every check; or ends having forwarded nothing, or the beginning of a chunk that passed
  every check when its write fails.
\<close>

definition chunk_allowed :: "bridge_cfg \<Rightarrow> bridge \<Rightarrow> bytes \<Rightarrow> bool" where
  "chunk_allowed cfg st d \<longleftrightarrow> (\<forall>pol. bc_policy cfg = Some pol \<longrightarrow>
     check_traffic_limits pol (bc_base_in cfg + (br_bytes_in st + word_of_nat (length d))) (bc_base_out cfg + br_bytes_out st) = Inr ())"

lemma in_data_cases:
  assumes "br_in st = InRunning"
  shows "(br_in (in_data cfg now w d st) = InRunning \<and> br_upstream (in_data cfg now w d st) = br_upstream st @ d \<and>
      br_bytes_in (in_data cfg now w d st) = br_bytes_in st + word_of_nat (length d) \<and> chunk_allowed cfg st d) \<or>
    (br_in (in_data cfg now w d st) \<noteq> InRunning \<and>
      (\<exists>n. br_upstream (in_data cfg now w d st) = br_upstream st @ take n d \<and> (n = 0 \<or> w \<noteq> WriteOk \<and> chunk_allowed cfg st d)))"
proof (cases w)
  case WriteOk
  then show ?thesis using assms by (auto simp: in_data_def in_end_def Let_def chunk_allowed_def split: option.split)
next
  case (WriteErr n)
  then have "br_in (in_data cfg now w d st) \<noteq> InRunning" by (auto simp: in_data_def in_end_def Let_def)
  moreover have "br_upstream (in_data cfg now w d st) = br_upstream st @ take 0 d \<or>
      br_upstream (in_data cfg now w d st) = br_upstream st @ take n d \<and> chunk_allowed cfg st d"
    using WriteErr by (auto simp: in_data_def in_end_def Let_def chunk_allowed_def split: option.split)
  ultimately show ?thesis using WriteErr by blast
qed

lemma in_data_allowed:
  "br_in st = InRunning \<Longrightarrow> br_upstream (in_data cfg now w d st) \<noteq> br_upstream st \<Longrightarrow> chunk_allowed cfg st d"
  using in_data_cases [of st cfg now w d] by auto

fun write_fails :: "bridge_event \<Rightarrow> bool" where
  "write_fails (EvIn now w item) = (w \<noteq> WriteOk)"
| "write_fails (EvOut now ok rd) = False"

lemma apply_cases:
  assumes "br_in st = InRunning"
  shows "(br_in (bridge_apply cfg ev st) = InRunning \<and>
      br_upstream (bridge_apply cfg ev st) = br_upstream st @ concat (event_chunks ev)) \<or>
    (br_in (bridge_apply cfg ev st) \<noteq> InRunning \<and>
      (\<exists>n. br_upstream (bridge_apply cfg ev st) = br_upstream st @ take n (concat (event_chunks ev)) \<and> (n = 0 \<or> write_fails ev)))"
proof (cases ev)
  case (EvIn now w item)
  show ?thesis
  proof (cases item)
    case (Some x)
    with EvIn assms in_data_cases [OF assms, of cfg now w] show ?thesis by (cases x) (auto simp: in_end_def)
  qed (use EvIn assms in \<open>simp add: in_end_def\<close>)
qed (use assms out_step_keeps in auto)

lemma event_chunks_one: "take 1 (event_chunks ev) = event_chunks ev"
  by (cases ev rule: event_chunks.cases) simp_all

lemma apply_done: "br_in st \<noteq> InRunning \<Longrightarrow>
    br_in (bridge_apply cfg ev st) = br_in st \<and> br_upstream (bridge_apply cfg ev st) = br_upstream st"
  by (cases ev) (simp_all add: out_step_keeps)

text \<open>
  C33: The target sees the client's bytes in order and without gaps. In every interleaving of the two tasks,
  what has been written upstream is what was written at the start followed by the first \<open>k\<close> data messages
  of the client, by all of them as long as the upload task has not ended, and, only when a write has failed, by the
  beginning of the message after them.
\<close>
theorem bridge_upload_prefix:
  "br_in st = InRunning \<Longrightarrow>
     \<exists>k n. br_upstream (bridge_run cfg evs st) = br_upstream st @ concat (take k (in_chunks evs)) @ take n (concat (take 1 (drop k (in_chunks evs)))) \<and>
       (br_in (bridge_run cfg evs st) = InRunning \<longrightarrow> length (in_chunks evs) \<le> k) \<and> (n = 0 \<or> list_ex write_fails evs)"
proof (induction evs rule: rev_induct)
  case Nil
  then show ?case by (auto simp: bridge_run_def in_chunks_def)
next
  case (snoc ev evs)
  let ?s = "bridge_run cfg evs st" and ?cs = "in_chunks evs"
  from snoc obtain k n where k: "br_upstream ?s = br_upstream st @ concat (take k ?cs) @ take n (concat (take 1 (drop k ?cs)))"
    "br_in ?s = InRunning \<longrightarrow> length ?cs \<le> k" "n = 0 \<or> list_ex write_fails evs" by blast
  have ch: "in_chunks (evs @ [ev]) = ?cs @ event_chunks ev" by (simp add: in_chunks_def)
  show ?case
  proof (cases "br_in ?s = InRunning")
    case True
    with k have up: "br_upstream ?s = br_upstream st @ concat ?cs" by simp
    from apply_cases [OF True, of cfg ev] show ?thesis
    proof
      assume "br_in (bridge_apply cfg ev ?s) = InRunning \<and> br_upstream (bridge_apply cfg ev ?s) = br_upstream ?s @ concat (event_chunks ev)"
      with up show ?thesis by (intro exI [of _ "length ?cs + length (event_chunks ev)"] exI [of _ 0]) (simp add: bridge_run_snoc ch)
    next
      assume a: "br_in (bridge_apply cfg ev ?s) \<noteq> InRunning \<and>
        (\<exists>n. br_upstream (bridge_apply cfg ev ?s) = br_upstream ?s @ take n (concat (event_chunks ev)) \<and> (n = 0 \<or> write_fails ev))"
      then obtain n where "br_upstream (bridge_apply cfg ev ?s) = br_upstream ?s @ take n (concat (event_chunks ev))" "n = 0 \<or> write_fails ev" by blast
      with a up event_chunks_one [of ev] show ?thesis by (intro exI [of _ "length ?cs"] exI [of _ n]) (auto simp: bridge_run_snoc ch)
    qed
  next
    case False
    note same = apply_done [OF False, of cfg ev]
    show ?thesis
    proof (cases "k < length ?cs")
      case True
      then have "take 1 (drop k (?cs @ event_chunks ev)) = take 1 (drop k ?cs)" by (cases "drop k ?cs") auto
      with True same False k(1,3) show ?thesis by (intro exI [of _ k] exI [of _ n]) (auto simp: bridge_run_snoc ch)
    next
      case over: False
      with same False k(1) show ?thesis by (intro exI [of _ "length ?cs"] exI [of _ 0]) (simp add: bridge_run_snoc ch)
    qed
  qed
qed

definition bridge_example :: bridge where
  "bridge_example = bridge_init None 0 0 []"

theorem bridge_upload_prefix_witness:
  "\<exists>k n. br_upstream (bridge_run (bridge_cfg_of None) [EvIn 1 WriteOk (Some (ItemData [1, 2])), EvIn 2 (WriteErr 1) (Some (ItemData [3, 4]))] bridge_example) =
     concat (take k [[1, 2], [3, 4]]) @ take n (concat (take 1 (drop k [[1, 2], [3, 4]])))"
proof -
  have r: "br_in bridge_example = InRunning" and u: "br_upstream bridge_example = []"
    by (simp_all add: bridge_example_def bridge_init_def)
  from bridge_upload_prefix [OF r, of "bridge_cfg_of None" "[EvIn 1 WriteOk (Some (ItemData [1, 2])), EvIn 2 (WriteErr 1) (Some (ItemData [3, 4]))]"]
  show ?thesis unfolding u by (simp add: in_chunks_def) blast
qed

lemma apply_bytes_in:
  assumes "br_in st = InRunning" "br_in (bridge_apply cfg ev st) = InRunning"
  shows "br_bytes_in (bridge_apply cfg ev st) = br_bytes_in st + word_of_nat (length (concat (event_chunks ev)))"
proof (cases ev)
  case (EvIn now ok item)
  show ?thesis
  proof (cases item)
    case (Some x)
    with EvIn assms in_data_cases [OF assms(1), of cfg now ok] show ?thesis by (cases x) (auto simp: in_end_def)
  qed (use EvIn assms in \<open>simp add: in_end_def\<close>)
qed (use assms out_step_keeps in auto)

lemma apply_checked:
  assumes "br_in st = InRunning" "br_upstream (bridge_apply cfg ev st) \<noteq> br_upstream st" "bc_policy cfg = Some pol"
  shows "check_traffic_limits pol (bc_base_in cfg + (br_bytes_in st + word_of_nat (length (concat (event_chunks ev)))))
    (bc_base_out cfg + br_bytes_out st) = Inr ()"
proof (cases ev)
  case (EvIn now w item)
  show ?thesis
  proof (cases item)
    case (Some x)
    with EvIn assms show ?thesis by (cases x) (auto simp: in_end_def chunk_allowed_def dest: in_data_allowed)
  qed (use EvIn assms in \<open>simp add: in_end_def\<close>)
qed (use assms in \<open>auto simp: out_step_keeps split: if_split_asm\<close>)

lemma run_bytes_in:
  assumes "br_in st = InRunning" "unat (br_bytes_in st) + length (concat (in_chunks evs)) < 2 ^ 64"
  shows "br_in (bridge_run cfg evs st) = InRunning \<Longrightarrow>
    unat (br_bytes_in (bridge_run cfg evs st)) = unat (br_bytes_in st) + length (concat (in_chunks evs)) \<and>
    br_upstream (bridge_run cfg evs st) = br_upstream st @ concat (in_chunks evs)"
  using assms(2)
proof (induction evs rule: rev_induct)
  case (snoc ev evs)
  let ?s = "bridge_run cfg evs st"
  have ch: "in_chunks (evs @ [ev]) = in_chunks evs @ event_chunks ev" by (simp add: in_chunks_def)
  from snoc.prems(1) have r': "br_in (bridge_apply cfg ev ?s) = InRunning" by (simp add: bridge_run_snoc)
  with apply_done have r: "br_in ?s = InRunning" by metis
  from snoc.IH [OF r] snoc.prems(2) ch have ih: "unat (br_bytes_in ?s) = unat (br_bytes_in st) + length (concat (in_chunks evs))"
    "br_upstream ?s = br_upstream st @ concat (in_chunks evs)" by simp_all
  have "unat (br_bytes_in ?s) + length (concat (event_chunks ev)) < 2 ^ 64" using snoc.prems(2) ch ih by simp
  from u64_add_nat [OF this] apply_bytes_in [OF r r'] apply_cases [OF r, of cfg ev] r' ih ch
  show ?case by (simp add: bridge_run_snoc)
qed (simp add: bridge_run_def in_chunks_def)

text \<open>
  Upload stops at the limit. For a managed session with an upload limit, whenever the bridge has forwarded
  anything after its start, the stored usage together with everything counted so far and forwarded stays
  within the limit: the chunk that would exceed it, and all later ones, are not forwarded.
\<close>
theorem bridge_upload_limit:
  assumes "br_in st = InRunning" "bc_policy cfg = Some pol"
    and "unat (bc_base_in cfg) + unat (br_bytes_in st) + length (concat (in_chunks evs)) < 2 ^ 64"
    and "br_upstream (bridge_run cfg evs st) \<noteq> br_upstream st"
  shows "within (sp_traffic_bytes_in_limit pol)
    (unat (bc_base_in cfg) + unat (br_bytes_in st) +
      (length (br_upstream (bridge_run cfg evs st)) - length (br_upstream st)))"
  using assms(3,4)
proof (induction evs rule: rev_induct)
  case (snoc ev evs)
  let ?s = "bridge_run cfg evs st"
  have ch: "in_chunks (evs @ [ev]) = in_chunks evs @ event_chunks ev" by (simp add: in_chunks_def)
  show ?case
  proof (cases "br_upstream (bridge_apply cfg ev ?s) = br_upstream ?s")
    case True
    with snoc ch show ?thesis by (simp add: bridge_run_snoc)
  next
    case False
    with apply_done have r: "br_in ?s = InRunning" by metis
    have sm: "unat (br_bytes_in st) + length (concat (in_chunks evs)) < 2 ^ 64" using snoc.prems(1) ch by simp
    note b = run_bytes_in [OF assms(1) sm r]
    have sum1: "unat (br_bytes_in ?s) + length (concat (event_chunks ev)) < 2 ^ 64" using snoc.prems(1) ch b by simp
    note u1 = u64_add_nat [OF this]
    have u2: "unat (bc_base_in cfg + (br_bytes_in ?s + word_of_nat (length (concat (event_chunks ev))))) =
        unat (bc_base_in cfg) + unat (br_bytes_in ?s + word_of_nat (length (concat (event_chunks ev))))"
      by (rule unat_add_lem [THEN iffD1]) (use snoc.prems(1) ch b u1 in simp)
    from apply_checked [OF r False assms(2)] have
      "within (sp_traffic_bytes_in_limit pol) (unat (bc_base_in cfg + (br_bytes_in ?s + word_of_nat (length (concat (event_chunks ev))))))"
      by (simp add: check_traffic_ok_iff)
    moreover from apply_cases [OF r, of cfg ev] b have
      "length (br_upstream (bridge_apply cfg ev ?s)) \<le> length (br_upstream st) + length (concat (in_chunks evs)) + length (concat (event_chunks ev))"
      by auto
    ultimately show ?thesis using u1 u2 b by (auto simp: bridge_run_snoc within_def)
  qed
qed (simp add: bridge_run_def)

definition limited_cfg :: bridge_cfg where
  "limited_cfg = \<lparr>bc_policy = Some (policy_none\<lparr>sp_traffic_bytes_in_limit := Some 3, sp_traffic_bytes_out_limit := Some 1\<rparr>),
     bc_base_in = 0, bc_base_out = 0, bc_base_active_ms = 0\<rparr>"

theorem bridge_upload_limit_witness:
  "br_upstream (bridge_run limited_cfg [EvIn 1 WriteOk (Some (ItemData [1, 2])), EvIn 2 WriteOk (Some (ItemData [3, 4]))] bridge_example) = [1, 2] \<and>
   within (Some 3) (0 + 0 + (length [1, 2 :: u8] - 0))"
proof -
  let ?evs = "[EvIn 1 WriteOk (Some (ItemData [1, 2])), EvIn 2 WriteOk (Some (ItemData [3, 4]))]"
  have r: "br_in bridge_example = InRunning" and z: "br_upstream bridge_example = []" "br_bytes_in bridge_example = 0"
    by (simp_all add: bridge_example_def bridge_init_def)
  have u: "br_upstream (bridge_run limited_cfg ?evs bridge_example) = [1, 2]"
    by (simp add: bridge_run_def bridge_example_def bridge_init_def in_data_def in_end_def limited_cfg_def policy_none_def
        MAX_PROXY_CHUNK_def check_traffic_limits_def limit_hit_def active_time_budget_exceeded_def active_time_budget_ms_max_def)
  from bridge_upload_limit [OF r, of limited_cfg _ ?evs] u z show ?thesis
    by (simp add: limited_cfg_def in_chunks_def)
qed

section \<open>Download\<close>

lemma budget_off: "\<not> sp_limit_duration_by_active_time pol \<Longrightarrow> \<not> active_time_budget_exceeded pol a i"
  by (simp add: active_time_budget_exceeded_def active_time_budget_ms_max_def)

text \<open>
  Download ignores the traffic limits. The download task computes the limit check and drops its result:
  for a session whose duration is not counted in active time, whatever limits its policy sets and however
  much has been transferred, everything the target sends is delivered as long as the client sends nothing.
\<close>
theorem download_unlimited:
  assumes "bc_policy cfg = Some pol" "\<not> sp_limit_duration_by_active_time pol" "br_out_running st"
  shows "\<forall>(t, bs) \<in> set reads. bs \<noteq> [] \<Longrightarrow>
    br_client (bridge_run cfg (map (\<lambda>(t, bs). EvOut t True (ReadOk bs)) reads) st) = br_client st @ map (\<lambda>(t, bs). MsgData bs) reads \<and>
    br_out_running (bridge_run cfg (map (\<lambda>(t, bs). EvOut t True (ReadOk bs)) reads) st)"
proof (induction reads rule: rev_induct)
  case (snoc x reads)
  obtain t bs where x: "x = (t, bs)" by (cases x)
  from snoc x show ?case
    by (simp add: bridge_run_snoc out_step_def out_msg_def Let_def assms(1) budget_off [OF assms(2)])
qed (use assms in \<open>simp add: bridge_run_def\<close>)

theorem download_unlimited_witness:
  "br_client (bridge_run limited_cfg (map (\<lambda>(t, bs). EvOut t True (ReadOk bs)) [(1, [1, 2]), (2, [3, 4])]) bridge_example) =
     br_client bridge_example @ map (\<lambda>(t, bs). MsgData bs) [(1 :: nat, [1, 2]), (2, [3, 4])] \<and>
   check_traffic_limits (the (bc_policy limited_cfg)) 0 4 \<noteq> Inr ()"
proof -
  have "bc_policy limited_cfg = Some (policy_none\<lparr>sp_traffic_bytes_in_limit := Some 3, sp_traffic_bytes_out_limit := Some 1\<rparr>)"
    by (simp add: limited_cfg_def)
  note d = download_unlimited [OF this, of bridge_example "[(1, [1, 2]), (2, [3, 4])]"]
  have "check_traffic_limits (the (bc_policy limited_cfg)) 0 4 \<noteq> Inr ()"
    by (simp add: limited_cfg_def policy_none_def check_traffic_limits_def limit_hit_def)
  with d show ?thesis by (simp add: policy_none_def bridge_example_def bridge_init_def)
qed

section \<open>Active time\<close>

fun event_time :: "bridge_event \<Rightarrow> nat" where
  "event_time (EvIn now ok item) = now"
| "event_time (EvOut now ok rd) = now"

text \<open>At most the time between the first and the last activity has been counted.\<close>

definition tracker_ok :: "nat \<Rightarrow> nat \<Rightarrow> ActiveTracker \<Rightarrow> bool" where
  "tracker_ok t0 t a = (case at_last a of
      None \<Rightarrow> at_accum_ms a = 0
    | Some l \<Rightarrow> t0 \<le> l \<and> l \<le> t \<and> unat (at_accum_ms a) * 10 ^ 6 \<le> l - t0)"

lemma u64_add_le: "unat ((a :: u64) + word_of_nat n) \<le> unat a + n"
  by (simp add: unat_word_ariths(1) unat_of_nat)

lemma tracker_bump_ok:
  assumes "tracker_ok t0 t a" "t0 \<le> now" "t \<le> now"
  shows "tracker_ok t0 now (tracker_bump now a)"
proof (cases "at_last a")
  case (Some l)
  with assms have l: "t0 \<le> l" "l \<le> now" "unat (at_accum_ms a) * 10 ^ 6 \<le> l - t0" by (auto simp: tracker_ok_def)
  have "unat (at_accum_ms a + word_of_nat ((now - l) div 10 ^ 6)) \<le> unat (at_accum_ms a) + (now - l) div 10 ^ 6" by (rule u64_add_le)
  then have "unat (at_accum_ms a + word_of_nat ((now - l) div 10 ^ 6)) * 10 ^ 6 \<le> (unat (at_accum_ms a) + (now - l) div 10 ^ 6) * 10 ^ 6"
    by (rule mult_le_mono1)
  also have "\<dots> \<le> (l - t0) + (now - l)"
    using l(3) by (simp only: add_mult_distrib) (rule add_mono, simp, rule div_times_less_eq_dividend)
  finally show ?thesis using Some l by (auto simp: tracker_bump_def tracker_ok_def Let_def)
qed (use assms in \<open>simp add: tracker_bump_def tracker_ok_def\<close>)

lemma tracker_ok_later: "tracker_ok t0 t a \<Longrightarrow> t \<le> t' \<Longrightarrow> tracker_ok t0 t' a"
  by (auto simp: tracker_ok_def split: option.splits)


lemma in_step_tracker:
  "br_active (in_step cfg now ok item st) = br_active st \<or> br_active (in_step cfg now ok item st) = tracker_bump now (br_active st)"
  by (cases "(cfg, now, ok, item, st)" rule: in_step.cases) (auto simp: in_end_def in_data_def Let_def split: write_result.split)

lemma apply_tracker:
  "br_active (bridge_apply cfg ev st) = br_active st \<or>
   br_active (bridge_apply cfg ev st) = tracker_bump (event_time ev) (br_active st)"
proof (cases ev)
  case (EvIn now ok item)
  with in_step_tracker [of cfg now ok item st] show ?thesis by auto
qed (auto simp: out_step_def out_msg_def Let_def split: read_result.split)

text \<open>
  Active time is bounded by time. In every run whose events happen between \<open>t0\<close> and \<open>t1\<close> in the order of
  their times, the active milliseconds charged to the session are at most the milliseconds between them.
\<close>
theorem active_time_bounded:
  assumes "sorted (map event_time evs)" "\<forall>ev \<in> set evs. t0 \<le> event_time ev \<and> event_time ev \<le> t1"
  shows "unat (at_accum_ms (br_active (bridge_run cfg evs (bridge_init managed bi bo early)))) * 10 ^ 6 \<le> t1 - t0"
proof -
  let ?st = "bridge_init managed bi bo early"
  have "tracker_ok t0 (if evs = [] then t0 else event_time (last evs)) (br_active (bridge_run cfg evs ?st))"
    using assms
  proof (induction evs rule: rev_induct)
    case (snoc ev evs)
    let ?t = "if evs = [] then t0 else event_time (last evs)"
    have le: "?t \<le> event_time ev" using snoc.prems by (cases evs rule: rev_cases) (auto simp: sorted_append)
    have ih: "tracker_ok t0 ?t (br_active (bridge_run cfg evs ?st))"
      by (rule snoc.IH) (use snoc.prems in \<open>auto simp: sorted_append\<close>)
    from apply_tracker [of cfg ev "bridge_run cfg evs ?st"] tracker_ok_later [OF ih le] tracker_bump_ok [OF ih _ le] snoc.prems(2)
    show ?case by (auto simp: bridge_run_snoc)
  qed (simp add: bridge_run_def bridge_init_def tracker_new_def tracker_ok_def)
  then have "tracker_ok t0 (max t0 t1) (br_active (bridge_run cfg evs ?st))"
    by (rule tracker_ok_later) (use assms(2) in \<open>auto simp: le_max_iff_disj\<close>)
  then show ?thesis using assms(2) by (auto simp: tracker_ok_def max_def split: option.split_asm if_split_asm)
qed

theorem active_time_bounded_witness:
  "unat (at_accum_ms (br_active (bridge_run (bridge_cfg_of None)
      [EvIn 1000000 WriteOk (Some (ItemData [1])), EvOut 6000000 True (ReadOk [2])] (bridge_init None 0 0 [])))) * 10 ^ 6 \<le> 6000000 - 1000000"
  by (rule active_time_bounded) simp_all

end
