(* ===== verification/Tunnel_Admission.thy ===== *)
theory Tunnel_Admission
  imports Rust_Text
begin

text \<open>
  Admission of tunnels (\<^verbatim>\<open>server/src/tunnel_admission.rs\<close>): a counter of active tunnels with an
  optional maximum and a list of waiting tasks that \<open>release_slot\<close> wakes by priority. Tasks interleave;
  each step below is one atomic action of \<open>acquire\<close> or of the guard's drop, so the windows between taking
  a slot, queueing, timing out and waking are visible. A \<open>Notify\<close> object is a number, its stored permit
  membership in \<open>ad_permits\<close>. The Redis mirror of the queue is not modelled. The theory shows that the
  maximum is never exceeded, which waiter is woken, and that a wake-up can be lost.
\<close>

section \<open>Operations\<close>

record Waiter =
  wt_priority :: int
  wt_enqueue_ms :: nat
  wt_id :: nat
  wt_notify :: nat

datatype phase =
    Trying
  | Queueing
  | Waiting nat
  | TimedOut nat
  | Holding
  | Releasing
  | Finished bool

record TunnelAdmission =
  ad_max :: "nat option"
  ad_active :: nat
  ad_waiters :: "Waiter list"
  ad_permits :: "nat set"
  ad_next_notify :: nat
  ad_phase :: "nat \<Rightarrow> phase option"
  ad_waiters_current :: int
  ad_enqueue_total :: nat
  ad_timeout_total :: nat

definition admission_new :: "nat option \<Rightarrow> TunnelAdmission" where
  "admission_new mx = \<lparr>ad_max = mx, ad_active = 0, ad_waiters = [], ad_permits = {}, ad_next_notify = 0,
     ad_phase = (\<lambda>_. None), ad_waiters_current = 0, ad_enqueue_total = 0, ad_timeout_total = 0\<rparr>"

definition set_phase :: "nat \<Rightarrow> phase \<Rightarrow> TunnelAdmission \<Rightarrow> TunnelAdmission" where
  "set_phase t p st = st\<lparr>ad_phase := (ad_phase st)(t \<mapsto> p)\<rparr>"

definition try_take_slot :: "TunnelAdmission \<Rightarrow> bool \<times> TunnelAdmission" where
  "try_take_slot st = (case ad_max st of
      None \<Rightarrow> (True, st\<lparr>ad_active := ad_active st + 1\<rparr>)
    | Some mx \<Rightarrow> if mx \<le> ad_active st then (False, st) else (True, st\<lparr>ad_active := ad_active st + 1\<rparr>))"

text \<open>A failed attempt counts as waiting from then on; the waiter is pushed in a later step.\<close>

definition acquire_try :: "nat \<Rightarrow> TunnelAdmission \<Rightarrow> TunnelAdmission" where
  "acquire_try t st = (case try_take_slot st of
      (True, st') \<Rightarrow> set_phase t Holding st'
    | (False, st') \<Rightarrow> set_phase t Queueing
        (st'\<lparr>ad_waiters_current := ad_waiters_current st' + 1, ad_enqueue_total := ad_enqueue_total st' + 1\<rparr>))"

definition acquire_push :: "nat \<Rightarrow> int \<Rightarrow> nat \<Rightarrow> TunnelAdmission \<Rightarrow> TunnelAdmission" where
  "acquire_push t priority elapsed_ms st =
     set_phase t (Waiting (ad_next_notify st))
       (st\<lparr>ad_waiters := ad_waiters st @ [\<lparr>wt_priority = priority, wt_enqueue_ms = elapsed_ms, wt_id = t,
                                          wt_notify = ad_next_notify st\<rparr>],
          ad_next_notify := ad_next_notify st + 1\<rparr>)"

definition acquire_woken :: "nat \<Rightarrow> nat \<Rightarrow> TunnelAdmission \<Rightarrow> TunnelAdmission" where
  "acquire_woken t n st = set_phase t Trying
     (st\<lparr>ad_permits := ad_permits st - {n}, ad_waiters_current := ad_waiters_current st - 1\<rparr>)"

definition acquire_timed_out :: "nat \<Rightarrow> TunnelAdmission \<Rightarrow> TunnelAdmission" where
  "acquire_timed_out t st = set_phase t (Finished False)
     (st\<lparr>ad_waiters := filter (\<lambda>w. wt_id w \<noteq> t) (ad_waiters st),
        ad_waiters_current := ad_waiters_current st - 1, ad_timeout_total := ad_timeout_total st + 1\<rparr>)"

definition release_decrement :: "nat \<Rightarrow> TunnelAdmission \<Rightarrow> TunnelAdmission" where
  "release_decrement t st = set_phase t Releasing (st\<lparr>ad_active := ad_active st - 1\<rparr>)"

text \<open>
  The comparison of two waiters and the choice of \<open>Iterator::max_by\<close>, which keeps the later of two
  elements unless the earlier one is greater.
\<close>

definition waiter_greater :: "Waiter \<Rightarrow> Waiter \<Rightarrow> bool" where
  "waiter_greater a b \<longleftrightarrow> wt_priority b < wt_priority a \<or>
     (wt_priority a = wt_priority b \<and> wt_enqueue_ms a < wt_enqueue_ms b)"

fun best_from :: "nat \<Rightarrow> nat \<Rightarrow> Waiter \<Rightarrow> Waiter list \<Rightarrow> nat" where
  "best_from i b bw [] = b"
| "best_from i b bw (w # ws) = (if waiter_greater bw w then best_from (i + 1) b bw ws else best_from (i + 1) i w ws)"

definition best_waiter :: "Waiter list \<Rightarrow> nat option" where
  "best_waiter q = (case q of [] \<Rightarrow> None | w # ws \<Rightarrow> Some (best_from 1 0 w ws))"

definition remove_at :: "nat \<Rightarrow> 'a list \<Rightarrow> 'a list" where
  "remove_at i xs = take i xs @ drop (Suc i) xs"

definition release_notify :: "nat \<Rightarrow> TunnelAdmission \<Rightarrow> TunnelAdmission" where
  "release_notify t st = set_phase t (Finished True) (case best_waiter (ad_waiters st) of
      None \<Rightarrow> st
    | Some i \<Rightarrow> st\<lparr>ad_waiters := remove_at i (ad_waiters st),
                   ad_permits := insert (wt_notify (ad_waiters st ! i)) (ad_permits st)\<rparr>)"

section \<open>Interleaving\<close>

inductive adm_step :: "TunnelAdmission \<Rightarrow> TunnelAdmission \<Rightarrow> bool" where
  adm_arrive: "ad_phase st t = None \<Longrightarrow> adm_step st (set_phase t Trying st)"
| adm_try: "ad_phase st t = Some Trying \<Longrightarrow> adm_step st (acquire_try t st)"
| adm_push: "ad_phase st t = Some Queueing \<Longrightarrow> adm_step st (acquire_push t priority elapsed_ms st)"
| adm_woken: "ad_phase st t = Some (Waiting n) \<Longrightarrow> n \<in> ad_permits st \<Longrightarrow> adm_step st (acquire_woken t n st)"
| adm_timeout: "ad_phase st t = Some (Waiting n) \<Longrightarrow> n \<notin> ad_permits st \<Longrightarrow> adm_step st (set_phase t (TimedOut n) st)"
| adm_timed_out: "ad_phase st t = Some (TimedOut n) \<Longrightarrow> adm_step st (acquire_timed_out t st)"
| adm_release: "ad_phase st t = Some Holding \<Longrightarrow> adm_step st (release_decrement t st)"
| adm_notify: "ad_phase st t = Some Releasing \<Longrightarrow> adm_step st (release_notify t st)"

section \<open>Environment\<close>

definition parse_u64 :: "string \<Rightarrow> nat option" where
  "parse_u64 s = parse_unsigned (2 ^ 64 - 1) s"

definition positive_env :: "string option \<Rightarrow> nat option" where
  "positive_env env = (case env of
      None \<Rightarrow> None
    | Some v \<Rightarrow> let t = trim v in
        if t = [] then None
        else case parse_u64 t of None \<Rightarrow> None | Some n \<Rightarrow> if n = 0 then None else Some n)"

definition max_concurrent_from_env :: "string option \<Rightarrow> nat option" where
  "max_concurrent_from_env env = positive_env env"

definition wait_timeout_from_env :: "string option \<Rightarrow> nat option" where
  "wait_timeout_from_env env = positive_env env"

definition checkpoint_interval_from_env :: "string option \<Rightarrow> nat" where
  "checkpoint_interval_from_env env =
     max (case Option.bind env (\<lambda>s. parse_u64 (trim s)) of None \<Rightarrow> 1800 | Some n \<Rightarrow> n) 60"

section \<open>The maximum is respected\<close>

definition holders :: "TunnelAdmission \<Rightarrow> nat set" where
  "holders st = {t. ad_phase st t = Some Holding}"

definition adm_inv :: "TunnelAdmission \<Rightarrow> bool" where
  "adm_inv st \<longleftrightarrow> finite (holders st) \<and> ad_active st = card (holders st) \<and>
     (\<forall>mx. ad_max st = Some mx \<longrightarrow> ad_active st \<le> mx)"

lemma holders_set_phase:
  "holders (set_phase t p st) = (if p = Holding then insert t (holders st) else holders st - {t})"
  by (auto simp: holders_def set_phase_def)

lemma set_phase_fields [simp]:
  "ad_active (set_phase t p st) = ad_active st" "ad_max (set_phase t p st) = ad_max st"
  "ad_waiters (set_phase t p st) = ad_waiters st" "ad_permits (set_phase t p st) = ad_permits st"
  by (simp_all add: set_phase_def)

lemma holders_same: "ad_phase st' = ad_phase st \<Longrightarrow> holders st' = holders st"
  by (simp add: holders_def)

lemma holders_active [simp]: "holders (st\<lparr>ad_active := n\<rparr>) = holders st"
  by (simp add: holders_def)

text \<open>A step of a task that holds no slot and takes none.\<close>

lemma adm_inv_other:
  assumes "adm_inv st" "t \<notin> holders st" "p \<noteq> Holding" "ad_active st' = ad_active st" "ad_max st' = ad_max st" "ad_phase st' = ad_phase st"
  shows "adm_inv (set_phase t p st')"
  using assms holders_same [OF assms(6)] by (auto simp: adm_inv_def holders_set_phase)

lemma acquire_try_inv:
  assumes "adm_inv st" "ad_phase st t = Some Trying"
  shows "adm_inv (acquire_try t st)"
proof (cases "fst (try_take_slot st)")
  case True
  then have s: "try_take_slot st = (True, st\<lparr>ad_active := ad_active st + 1\<rparr>)"
    and m: "\<And>mx. ad_max st = Some mx \<Longrightarrow> ad_active st < mx"
    by (auto simp: try_take_slot_def split: option.splits if_splits)
  have "t \<notin> holders st" using assms(2) by (simp add: holders_def)
  then show ?thesis
    using assms(1) m by (auto simp: acquire_try_def s adm_inv_def holders_set_phase Suc_le_eq)
next
  case False
  then have s: "try_take_slot st = (False, st)" by (auto simp: try_take_slot_def split: option.splits if_splits)
  have "t \<notin> holders st" using assms(2) by (simp add: holders_def)
  with assms(1) show ?thesis by (auto simp: acquire_try_def s intro!: adm_inv_other)
qed

lemma release_inv:
  assumes "adm_inv st" "ad_phase st t = Some Holding"
  shows "adm_inv (release_decrement t st)"
proof -
  have t: "t \<in> holders st" using assms(2) by (simp add: holders_def)
  show ?thesis
    using assms(1) t by (auto simp: release_decrement_def adm_inv_def holders_set_phase card_Diff_singleton)
qed

lemma adm_step_inv: "adm_step st st' \<Longrightarrow> adm_inv st \<Longrightarrow> adm_inv st'"
proof (induction rule: adm_step.induct)
  case (adm_try st t)
  then show ?case by (simp add: acquire_try_inv)
next
  case (adm_release st t)
  then show ?case by (simp add: release_inv)
next
  case (adm_notify st t)
  then show ?case
    by (auto simp: release_notify_def holders_def split: option.split intro!: adm_inv_other)
qed (auto simp: acquire_push_def acquire_woken_def acquire_timed_out_def holders_def intro!: adm_inv_other)

text \<open>
  C7: Tunnel limit. Whatever the interleaving of arrivals, timeouts, wake-ups and releases, the number of
  tasks that hold an admission slot never exceeds the configured maximum, and the counter is exactly that
  number.
\<close>
theorem admission_limit:
  assumes "adm_step\<^sup>*\<^sup>* (admission_new (Some mx)) st"
  shows "card {t. ad_phase st t = Some Holding} \<le> mx \<and> ad_active st = card {t. ad_phase st t = Some Holding}"
proof -
  from assms have "adm_inv st \<and> ad_max st = Some mx"
  proof (induction rule: rtranclp_induct)
    case base
    then show ?case by (simp add: adm_inv_def admission_new_def holders_def)
  next
    case (step y z)
    have "ad_max z = ad_max y" using step(2)
      by (induction rule: adm_step.induct)
        (auto simp: acquire_try_def try_take_slot_def acquire_push_def acquire_woken_def acquire_timed_out_def
          release_decrement_def release_notify_def split: option.split)
    with step adm_step_inv show ?case by simp
  qed
  then show ?thesis by (auto simp: adm_inv_def holders_def)
qed

theorem admission_limit_witness:
  "card {t. ad_phase (acquire_try 7 (set_phase 7 Trying (admission_new (Some 1)))) t = Some Holding} \<le> 1 \<and>
   ad_active (acquire_try 7 (set_phase 7 Trying (admission_new (Some 1)))) =
     card {t. ad_phase (acquire_try 7 (set_phase 7 Trying (admission_new (Some 1)))) t = Some Holding}"
proof (rule admission_limit)
  have "adm_step (admission_new (Some 1)) (set_phase 7 Trying (admission_new (Some 1)))"
    by (rule adm_arrive) (simp add: admission_new_def)
  moreover have "adm_step (set_phase 7 Trying (admission_new (Some 1))) (acquire_try 7 (set_phase 7 Trying (admission_new (Some 1))))"
    by (rule adm_try) (simp add: set_phase_def)
  ultimately show "adm_step\<^sup>*\<^sup>* (admission_new (Some 1)) (acquire_try 7 (set_phase 7 Trying (admission_new (Some 1))))"
    by (meson rtranclp.rtrancl_into_rtrancl rtranclp.rtrancl_refl)
qed

section \<open>Which waiter is woken\<close>

lemma waiter_not_greater_trans:
  "\<not> waiter_greater a b \<Longrightarrow> \<not> waiter_greater b c \<Longrightarrow> \<not> waiter_greater a c"
  by (auto simp: waiter_greater_def)

lemma waiter_greater_trans2: "\<not> waiter_greater b a \<Longrightarrow> waiter_greater b c \<Longrightarrow> waiter_greater a c"
  by (auto simp: waiter_greater_def)

text \<open>The position found so far is a maximum of the scanned prefix and beats all later ones in it.\<close>

definition best_so_far :: "Waiter list \<Rightarrow> nat \<Rightarrow> bool" where
  "best_so_far q b \<longleftrightarrow> b < length q \<and> (\<forall>j < length q. \<not> waiter_greater (q ! j) (q ! b)) \<and>
     (\<forall>j. b < j \<and> j < length q \<longrightarrow> waiter_greater (q ! b) (q ! j))"

lemma best_so_far_snoc:
  assumes "best_so_far q b"
  shows "best_so_far (q @ [w]) (if waiter_greater (q ! b) w then b else length q)"
proof -
  have b: "b < length q" and mx: "\<And>j. j < length q \<Longrightarrow> \<not> waiter_greater (q ! j) (q ! b)"
    and later: "\<And>j. b < j \<Longrightarrow> j < length q \<Longrightarrow> waiter_greater (q ! b) (q ! j)"
    using assms by (simp_all add: best_so_far_def)
  have nth: "(q @ [w]) ! j = (if j < length q then q ! j else w)" if "j < length (q @ [w])" for j
    using that by (auto simp: nth_append less_Suc_eq)
  show ?thesis
  proof (cases "waiter_greater (q ! b) w")
    case True
    have "\<not> waiter_greater w (q ! b)" using True by (auto simp: waiter_greater_def)
    with True b mx later nth show ?thesis by (simp add: best_so_far_def)
  next
    case False
    have "\<not> waiter_greater (q ! j) w" if "j < length q" for j
      using waiter_not_greater_trans [OF mx [OF that] False] .
    moreover have "\<not> waiter_greater w w" by (simp add: waiter_greater_def)
    ultimately have "\<forall>j < length (q @ [w]). \<not> waiter_greater ((q @ [w]) ! j) w" using nth by simp
    with False show ?thesis unfolding best_so_far_def by (simp add: not_less_eq [symmetric])
  qed
qed

lemma best_from_spec:
  "best_so_far q b \<Longrightarrow> best_so_far (q @ ws) (best_from (length q) b (q ! b) ws)"
proof (induction ws arbitrary: q b)
  case (Cons w ws)
  let ?b = "if waiter_greater (q ! b) w then b else length q"
  have "best_from (length q) b (q ! b) (w # ws) = best_from (length (q @ [w])) ?b ((q @ [w]) ! ?b) ws"
    using Cons.prems by (auto simp: best_so_far_def nth_append)
  with Cons.IH [OF best_so_far_snoc [OF Cons.prems]] show ?case by simp
qed simp

lemma best_waiter_spec: "best_waiter q = Some i \<Longrightarrow> best_so_far q i"
proof (cases q)
  case (Cons w ws)
  assume "best_waiter q = Some i"
  then have "i = best_from (length [w]) 0 ([w] ! 0) ws" by (simp add: best_waiter_def Cons)
  moreover have "best_so_far [w] 0" by (auto simp: best_so_far_def waiter_greater_def)
  ultimately show ?thesis using best_from_spec [of "[w]" 0 ws] by (simp add: Cons)
qed (simp add: best_waiter_def)

text \<open>
  Wake-up order. A release wakes a waiter of the highest priority. The enqueue times recorded by the
  code are the time since an instant taken in the same expression, so they are all equal; then the most
  recently queued of the highest-priority waiters is chosen, and earlier ones of that priority wait longer.
\<close>
theorem release_wakes_newest:
  assumes "best_waiter q = Some i" "\<forall>w \<in> set q. wt_enqueue_ms w = e"
  shows "i < length q \<and> (\<forall>j < length q. wt_priority (q ! j) \<le> wt_priority (q ! i)) \<and>
    (\<forall>j. i < j \<and> j < length q \<longrightarrow> wt_priority (q ! j) < wt_priority (q ! i))"
proof -
  from best_waiter_spec [OF assms(1)] have b: "best_so_far q i" .
  then have i: "i < length q" by (simp add: best_so_far_def)
  have e: "wt_enqueue_ms (q ! j) = wt_enqueue_ms (q ! i)" if "j < length q" for j
    using that i assms(2) by (metis nth_mem)
  have "wt_priority (q ! j) \<le> wt_priority (q ! i)" if "j < length q" for j
    using b that by (simp add: best_so_far_def waiter_greater_def linorder_not_less)
  moreover have "wt_priority (q ! j) < wt_priority (q ! i)" if "i < j" "j < length q" for j
  proof -
    have "waiter_greater (q ! i) (q ! j)" using b that by (simp add: best_so_far_def)
    with e [OF that(2)] show ?thesis by (simp add: waiter_greater_def)
  qed
  ultimately show ?thesis using i by blast
qed

definition three_waiters :: "Waiter list" where
  "three_waiters = [\<lparr>wt_priority = 1, wt_enqueue_ms = 0, wt_id = 4, wt_notify = 0\<rparr>,
     \<lparr>wt_priority = 5, wt_enqueue_ms = 0, wt_id = 5, wt_notify = 1\<rparr>, \<lparr>wt_priority = 5, wt_enqueue_ms = 0, wt_id = 6, wt_notify = 2\<rparr>]"

theorem release_wakes_newest_witness:
  "best_waiter three_waiters = Some 2 \<and> wt_priority (three_waiters ! 0) \<le> wt_priority (three_waiters ! 2) \<and>
     wt_priority (three_waiters ! 1) \<le> wt_priority (three_waiters ! 2)"
proof -
  have b: "best_waiter three_waiters = Some 2" "length three_waiters = 3"
    by (simp_all add: three_waiters_def best_waiter_def waiter_greater_def)
  have "\<forall>w \<in> set three_waiters. wt_enqueue_ms w = 0" by (simp add: three_waiters_def)
  from release_wakes_newest [OF b(1) this] b show ?thesis by simp
qed

section \<open>A lost wake-up\<close>

text \<open>The trace: task 0 holds the only slot, task 1 finds it taken, task 0 leaves, then task 1 queues.\<close>

definition lost_wakeup_state :: TunnelAdmission where
  "lost_wakeup_state =
     acquire_push 1 0 0 (release_notify 0 (release_decrement 0
       (acquire_try 1 (set_phase 1 Trying (acquire_try 0 (set_phase 0 Trying (admission_new (Some 1))))))))"

lemma lost_wakeup_reachable: "adm_step\<^sup>*\<^sup>* (admission_new (Some 1)) lost_wakeup_state"
proof -
  define s0 where "s0 = admission_new (Some 1)"
  define s1 where "s1 = set_phase 0 Trying s0"
  define s2 where "s2 = acquire_try 0 s1"
  define s3 where "s3 = set_phase 1 Trying s2"
  define s4 where "s4 = acquire_try 1 s3"
  define s5 where "s5 = release_decrement 0 s4"
  define s6 where "s6 = release_notify 0 s5"
  note d = s6_def s5_def s4_def s3_def s2_def s1_def s0_def
  note ev = d admission_new_def set_phase_def acquire_try_def try_take_slot_def release_decrement_def release_notify_def best_waiter_def
  note step = rtranclp.rtrancl_into_rtrancl [of adm_step]
  have "adm_step s0 s1" unfolding s1_def by (rule adm_arrive) (simp add: s0_def admission_new_def)
  note r1 = step [OF rtranclp.rtrancl_refl this]
  have "adm_step s1 s2" unfolding s2_def by (rule adm_try) (simp add: ev)
  note r2 = step [OF r1 this]
  have "adm_step s2 s3" unfolding s3_def by (rule adm_arrive) (simp add: ev)
  note r3 = step [OF r2 this]
  have "adm_step s3 s4" unfolding s4_def by (rule adm_try) (simp add: ev)
  note r4 = step [OF r3 this]
  have "adm_step s4 s5" unfolding s5_def by (rule adm_release) (simp add: ev)
  note r5 = step [OF r4 this]
  have "adm_step s5 s6" unfolding s6_def by (rule adm_notify) (simp add: ev)
  note r6 = step [OF r5 this]
  have "adm_step s6 (acquire_push 1 0 0 s6)" by (rule adm_push) (simp add: ev)
  note r7 = step [OF r6 this]
  have "lost_wakeup_state = acquire_push 1 0 0 s6" by (simp add: lost_wakeup_state_def d)
  with r7 show ?thesis by (simp add: s0_def)
qed

text \<open>
  Lost wake-up. With one slot there is a reachable state in which the slot is free, every other task has
  finished, and the remaining task waits for a notification nobody is left to send: the release happened
  between its failed attempt and its entry into the queue. Only a new arrival or the optional timeout ends
  the wait.
\<close>
theorem admission_lost_wakeup:
  "\<exists>st n. adm_step\<^sup>*\<^sup>* (admission_new (Some 1)) st \<and> ad_active st = 0 \<and> ad_phase st 1 = Some (Waiting n) \<and>
     n \<notin> ad_permits st \<and> (\<forall>t p. ad_phase st t = Some p \<longrightarrow> t = 1 \<or> p = Finished True)"
proof (intro exI conjI)
  show "adm_step\<^sup>*\<^sup>* (admission_new (Some 1)) lost_wakeup_state" by (rule lost_wakeup_reachable)
  note ev = lost_wakeup_state_def admission_new_def set_phase_def acquire_try_def try_take_slot_def release_decrement_def
    release_notify_def best_waiter_def acquire_push_def
  show "ad_active lost_wakeup_state = 0" "ad_phase lost_wakeup_state 1 = Some (Waiting 0)" "0 \<notin> ad_permits lost_wakeup_state"
    "\<forall>t p. ad_phase lost_wakeup_state t = Some p \<longrightarrow> t = 1 \<or> p = Finished True"
    by (simp_all add: ev)
qed

theorem admission_lost_wakeup_witness:
  "\<exists>st n. adm_step\<^sup>*\<^sup>* (admission_new (Some 1)) st \<and> ad_active st = 0 \<and> ad_phase st 1 = Some (Waiting n)"
  using admission_lost_wakeup by blast

end
