(* ===== verification/Proxy_Open.thy ===== *)
theory Proxy_Open
  imports Connection_Api Raw_Bridge Tunnel_Admission
begin

text \<open>
  Opening a tunnel (\<open>proxy_tunnel\<close> of \<^verbatim>\<open>server/src/deploy_service.rs\<close> up to the point where it serves the
  stream): authentication, the first message, the target or the wire settings, the session token with every
  limit of its session, the secrets of a managed session, the admission slot, the checkpoint and the
  registration in Redis. The outcome of waiting for a slot is an argument, its state machine is
  \<open>Tunnel_Admission\<close>. The theory shows which tunnels open: that a token opens one exactly under the conditions
  of its session, that the token of a created session opens one for its recipient and stops to when the
  session is closed, and that the device limit holds for what is registered.
\<close>

section \<open>Messages and environment\<close>

record ProxyOpen =
  po_host :: string
  po_port :: u32
  po_session_token :: string
  po_stream_correlation_id :: string
  po_wire_mode :: "int option"
  po_wire_config_json :: "string option"
  po_tunnel_priority :: "int option"
  po_prefer_quic_data_plane :: "bool option"

datatype first_msg = FirstErr string | FirstNone | FirstOther | FirstOpen ProxyOpen

record open_env =
  oe_allowlist :: "string option"
  oe_require_token :: "string option"
  oe_default_devices :: "string option"
  oe_device_cap :: "string option"

type_synonym managed_session = "(GrpcProxySessionRow \<times> StoredPolicy) option"

definition proxy_allowlist_check :: "string option \<Rightarrow> string \<Rightarrow> status + unit" where
  "proxy_allowlist_check env host = (case allowlist env host of Inl m \<Rightarrow> Inl (PermissionDenied m) | Inr _ \<Rightarrow> Inr ())"

section \<open>The session of a token\<close>

definition managed_check :: "'tz service_env \<Rightarrow> int \<Rightarrow> string \<Rightarrow> GrpcProxySessionRow \<Rightarrow> status + StoredPolicy" where
  "managed_check E now pk row =
    (if gr_revoked row then Inl (PermissionDenied ''session revoked'')
     else if gr_client_pubkey_b64 row \<noteq> pk then Inl (PermissionDenied ''session token not for this client key'')
     else if gr_expires_at row < now then Inl (PermissionDenied ''session expired'')
     else case parse_policy_json E (gr_policy_json row) of
         Inl e \<Rightarrow> Inl e
       | Inr policy \<Rightarrow>
          (case is_schedule_allowed_stored (se_tz_parse E) (se_utc E) (se_to_local E) policy now of
             Inl e \<Rightarrow> Inl e
           | Inr ok \<Rightarrow>
              if \<not> ok then Inl (PermissionDenied ''outside access schedule'')
              else if active_time_budget_exceeded policy (nonneg_u64 (gr_active_ms row)) 0
              then Inl (PermissionDenied ''session active time budget exhausted'')
              else if max_duration_exceeded policy (gr_first_open_at row) now
              then Inl (PermissionDenied ''session max duration exceeded'')
              else case check_traffic_limits policy (nonneg_u64 (gr_bytes_in row)) (nonneg_u64 (gr_bytes_out row)) of
                  Inl e \<Rightarrow> Inl e
                | Inr _ \<Rightarrow> Inr policy))"

definition require_session_token :: "string option \<Rightarrow> bool" where
  "require_session_token env = (case env of None \<Rightarrow> False | Some v \<Rightarrow> v = ''1'' \<or> eq_ignore_ascii_case v ''true'')"

definition managed_session_of ::
    "'tz service_env \<Rightarrow> open_env \<Rightarrow> int \<Rightarrow> string option \<Rightarrow> string option \<Rightarrow> session_table option \<Rightarrow> string \<Rightarrow> status + managed_session" where
  "managed_session_of E V now fault pubkey db session_token =
    (let token_s = trim session_token in
     if token_s = [] then
       (if require_session_token (oe_require_token V)
        then Inl (FailedPrecondition ''DEPLOY_PROXY_REQUIRE_SESSION_TOKEN requires session token; use CreateConnection'')
        else Inr None)
     else case db of
         None \<Rightarrow> Inl (FailedPrecondition ''metadata database required for session token'')
       | Some tbl \<Rightarrow>
          (case pubkey of
             None \<Rightarrow> Inl (Unauthenticated ''missing pubkey metadata for session token'')
           | Some pk \<Rightarrow>
              (case fault of
                 Some e \<Rightarrow> Inl (Internal e)
               | None \<Rightarrow>
                  (case fetch_by_token_sha256 tbl (hash_session_token_hex E token_s) of
                     None \<Rightarrow> Inl (PermissionDenied ''invalid session token'')
                   | Some row \<Rightarrow>
                      (case managed_check E now pk row of Inl e \<Rightarrow> Inl e | Inr policy \<Rightarrow> Inr (Some (row, policy)))))))"

text \<open>The stored secrets of a session replace those of the request, per wire mode.\<close>

definition nonempty_trim :: "string option \<Rightarrow> string option" where
  "nonempty_trim s = (case s of None \<Rightarrow> None | Some t \<Rightarrow> if trim t = [] then None else Some (trim t))"

definition nonempty :: "string option \<Rightarrow> string option" where
  "nonempty s = (case s of None \<Rightarrow> None | Some t \<Rightarrow> if t = [] then None else Some t)"

definition or_else :: "'a option \<Rightarrow> 'a option \<Rightarrow> 'a option" where
  "or_else a b = (case a of None \<Rightarrow> b | Some x \<Rightarrow> Some x)"

definition session_secrets :: "int \<Rightarrow> WireParams \<Rightarrow> WireParams \<Rightarrow> WireParams" where
  "session_secrets wire_mode session p =
    (if wire_mode = 1 \<or> wire_mode = 3 then p\<lparr>wp_uuid := or_else (nonempty_trim (wp_uuid session)) (wp_uuid p)\<rparr>
     else if wire_mode = 2 then p\<lparr>wp_password := or_else (nonempty (wp_password session)) (wp_password p)\<rparr>
     else if wire_mode = 4 then
       p\<lparr>wp_password := or_else (nonempty (wp_password session)) (wp_password p),
         wp_method := or_else (nonempty_trim (wp_method session)) (wp_method p)\<rparr>
     else if wire_mode = 5 then
       p\<lparr>wp_username := or_else (nonempty_trim (wp_username session)) (wp_username p),
         wp_password := or_else (nonempty (wp_password session)) (wp_password p)\<rparr>
     else p)"

definition apply_managed_wire_secrets ::
    "'tz service_env \<Rightarrow> WireParams option \<Rightarrow> int \<Rightarrow> managed_session \<Rightarrow> WireParams option" where
  "apply_managed_wire_secrets E params wire_mode managed = (case params of
      None \<Rightarrow> None
    | Some p \<Rightarrow>
       (case managed of
          None \<Rightarrow> Some p
        | Some (row, _) \<Rightarrow>
           (case gr_wire_config_json row of
              None \<Rightarrow> Some p
            | Some json \<Rightarrow>
               if trim json = [] then Some p
               else case wire_params_from_json (se_wire_decode E) (trim json) of
                   Inl _ \<Rightarrow> Some p
                 | Inr session \<Rightarrow> Some (session_secrets wire_mode session p))))"

section \<open>The handler\<close>

text \<open>What the handler hands to the task that serves the tunnel.\<close>

record 's tunnel_start =
  ts_wire_mode :: int
  ts_params :: "WireParams option"
  ts_addr :: string
  ts_managed :: managed_session
  ts_pubkey :: "string option"
  ts_checkpoint :: "'s ManagedTunnelCheckpoint option"
  ts_prefer_quic :: bool

definition open_target :: "'tz service_env \<Rightarrow> open_env \<Rightarrow> ProxyOpen \<Rightarrow> status + WireParams option" where
  "open_target E V opn =
    (let wire_json = unwrap_or (po_wire_config_json opn) []; host = trim (po_host opn) in
     if unwrap_or (po_wire_mode opn) 0 = 0 then
       (if host = [] then Inl (InvalidArgument ''proxy host is empty'')
        else if po_port opn = 0 \<or> 65535 < po_port opn then Inl (InvalidArgument ''invalid proxy port'')
        else case proxy_allowlist_check (oe_allowlist V) host of Inl e \<Rightarrow> Inl e | Inr _ \<Rightarrow> Inr None)
     else if trim wire_json = []
     then Inl (InvalidArgument ''wire_config_json is required when wire_mode is not RAW_TCP_RELAY'')
     else case wire_params_from_json (se_wire_decode E) (trim wire_json) of
         Inl e \<Rightarrow> Inl (InvalidArgument (''wire_config_json: '' @ wire_error_string e))
       | Inr p \<Rightarrow> Inr (Some p))"

definition open_checkpoint ::
    "'s redis_server option \<Rightarrow> string \<Rightarrow> session_table option \<Rightarrow> managed_session \<Rightarrow> ProxyOpen \<Rightarrow> 's ManagedTunnelCheckpoint option" where
  "open_checkpoint R tid db managed opn = (case (db, managed) of
      (Some _, Some (row, _)) \<Rightarrow> Some
        \<lparr>cp_session_id = gr_session_id row, cp_client_pubkey = gr_client_pubkey_b64 row, cp_redis = R, cp_tunnel_id = tid,
         cp_wire_mode = unwrap_or (po_wire_mode opn) 0, cp_priority = unwrap_or (po_tunnel_priority opn) 0,
         cp_stream_correlation_id = po_stream_correlation_id opn\<rparr>
    | _ \<Rightarrow> None)"

definition session_max :: "open_env \<Rightarrow> managed_session \<Rightarrow> u32" where
  "session_max V managed = (case managed of
      None \<Rightarrow> 0
    | Some (_, p) \<Rightarrow> effective_max_concurrent_devices_per_session (oe_default_devices V) (oe_device_cap V) p)"

definition open_fields :: "string \<Rightarrow> string \<Rightarrow> managed_session \<Rightarrow> string option \<Rightarrow> ProxyOpen \<Rightarrow> (string \<times> string) list" where
  "open_fields stamp tid managed pubkey opn =
     redis_fields_snapshot stamp tid (map_option (\<lambda>(r, _). gr_session_id r) managed) pubkey (po_stream_correlation_id opn)
       (unwrap_or (po_wire_mode opn) 0) (unwrap_or (po_tunnel_priority opn) 0) 0 0 0 0"

text \<open>Registration: only the device limit refuses the tunnel; a failing Redis is logged and ignored.\<close>

definition open_register ::
    "open_env \<Rightarrow> 's redis_server option \<Rightarrow> string \<Rightarrow> string \<Rightarrow> managed_session \<Rightarrow> string option \<Rightarrow> ProxyOpen \<Rightarrow> 's
       \<Rightarrow> (status + unit) \<times> 's" where
  "open_register V R stamp tid managed pubkey opn rs = (case R of
      None \<Rightarrow> (Inr (), rs)
    | Some srv \<Rightarrow>
       (case register_online srv tid (open_fields stamp tid managed pubkey opn) (session_max V managed) rs of
          (Inl SessionDeviceLimit, rs') \<Rightarrow>
            (Inl (ResourceExhausted ''max concurrent proxy tunnels per session (device limit)''), rs')
        | (Inl (RedisErr _), rs') \<Rightarrow> (Inr (), rs')
        | (Inr _, rs') \<Rightarrow> (Inr (), rs')))"

definition open_tunnel ::
    "'tz service_env \<Rightarrow> open_env \<Rightarrow> int \<Rightarrow> string option \<Rightarrow> status + unit \<Rightarrow> 's redis_server option \<Rightarrow> string \<Rightarrow> string
       \<Rightarrow> string option \<Rightarrow> session_table option \<Rightarrow> ProxyOpen \<Rightarrow> 's \<Rightarrow> (status + 's tunnel_start) \<times> 's" where
  "open_tunnel E V now fault slot R stamp tid pubkey db opn rs =
    (let wire_mode = unwrap_or (po_wire_mode opn) 0 in
     case open_target E V opn of Inl e \<Rightarrow> (Inl e, rs) | Inr params \<Rightarrow>
     (case managed_session_of E V now fault pubkey db (po_session_token opn) of Inl e \<Rightarrow> (Inl e, rs) | Inr managed \<Rightarrow>
     (case slot of Inl e \<Rightarrow> (Inl e, rs) | Inr _ \<Rightarrow>
     (case open_register V R stamp tid managed pubkey opn rs of
        (Inl e, rs') \<Rightarrow> (Inl e, rs')
      | (Inr _, rs') \<Rightarrow>
         (Inr \<lparr>ts_wire_mode = wire_mode, ts_params = apply_managed_wire_secrets E params wire_mode managed,
               ts_addr = trim (po_host opn) @ '':'' @ show_nat (unat (po_port opn)), ts_managed = managed, ts_pubkey = pubkey,
               ts_checkpoint = open_checkpoint R tid db managed opn,
               ts_prefer_quic = unwrap_or (po_prefer_quic_data_plane opn) False\<rparr>, rs')))))"

definition proxy_tunnel ::
    "'tz service_env \<Rightarrow> open_env \<Rightarrow> int \<Rightarrow> int \<Rightarrow> string option \<Rightarrow> status + unit \<Rightarrow> 's redis_server option \<Rightarrow> string \<Rightarrow> string
       \<Rightarrow> metadata \<Rightarrow> first_msg \<Rightarrow> service \<Rightarrow> 's \<Rightarrow> (status + 's tunnel_start) \<times> service \<times> 's" where
  "proxy_tunnel E V now_ms now fault slot R stamp tid m first S rs = (case sv_auth S of
      None \<Rightarrow> (Inl (FailedPrecondition ''authentication disabled; ProxyTunnel unavailable''), S, rs)
    | Some a \<Rightarrow>
       (case server_verify (se_crypto E) now_ms m ''ProxyTunnel'' (signing_payload ''ProxyTunnel'' ''default'' []) a of
          (Inl e, a') \<Rightarrow> (Inl (Unauthenticated (auth_error_string e)), S\<lparr>sv_auth := Some a'\<rparr>, rs)
        | (Inr _, a') \<Rightarrow>
           (let S' = S\<lparr>sv_auth := Some a'\<rparr> in
            case first of
              FirstErr e \<Rightarrow> (Inl (Internal e), S', rs)
            | FirstNone \<Rightarrow> (Inl (InvalidArgument ''empty client stream''), S', rs)
            | FirstOther \<Rightarrow> (Inl (InvalidArgument ''first ProxyClientMsg must be Open { host, port }''), S', rs)
            | FirstOpen opn \<Rightarrow>
               (let (r, rs') = open_tunnel E V now fault slot R stamp tid (meta_text (se_crypto E) m META_PUBKEY) (sv_db S) opn rs
                in (r, S', rs')))))"

section \<open>Which tunnels open\<close>

lemma open_tunnel_ok:
  assumes "open_tunnel E V now fault slot R stamp tid pubkey db opn rs = (Inr ts, rs')"
  obtains params where "open_target E V opn = Inr params"
    "managed_session_of E V now fault pubkey db (po_session_token opn) = Inr (ts_managed ts)" "slot = Inr ()"
    "open_register V R stamp tid (ts_managed ts) pubkey opn rs = (Inr (), rs')"
    "ts_params ts = apply_managed_wire_secrets E params (ts_wire_mode ts) (ts_managed ts)" "ts_wire_mode ts = unwrap_or (po_wire_mode opn) 0"
  using assms by (auto simp: open_tunnel_def Let_def split: sum.split_asm prod.split_asm)

lemma managed_session_ok:
  assumes "managed_session_of E V now fault pubkey db token = Inr (Some (row, policy))"
  shows "trim token \<noteq> [] \<and> (\<exists>tbl pk. db = Some tbl \<and> pubkey = Some pk \<and>
    fetch_by_token_sha256 tbl (hash_session_token_hex E (trim token)) = Some row \<and> managed_check E now pk row = Inr policy)"
  using assms by (auto simp: managed_session_of_def Let_def split: option.split_asm sum.split_asm if_split_asm)

lemma managed_check_ok:
  "managed_check E now pk row = Inr policy \<longleftrightarrow>
     \<not> gr_revoked row \<and> gr_client_pubkey_b64 row = pk \<and> now \<le> gr_expires_at row \<and>
     parse_policy_json E (gr_policy_json row) = Inr policy \<and>
     is_schedule_allowed_stored (se_tz_parse E) (se_utc E) (se_to_local E) policy now = Inr True \<and>
     \<not> active_time_budget_exceeded policy (nonneg_u64 (gr_active_ms row)) 0 \<and>
     \<not> max_duration_exceeded policy (gr_first_open_at row) now \<and>
     check_traffic_limits policy (nonneg_u64 (gr_bytes_in row)) (nonneg_u64 (gr_bytes_out row)) = Inr ()"
  by (auto simp: managed_check_def not_less split: sum.split)

lemma proxy_tunnel_ok:
  assumes "proxy_tunnel E V now_ms now fault slot R stamp tid m first S rs = (Inr ts, S', rs')"
  obtains a opn where "sv_auth S = Some a" "first = FirstOpen opn"
    "fst (server_verify (se_crypto E) now_ms m ''ProxyTunnel'' (signing_payload ''ProxyTunnel'' ''default'' []) a) = Inr ()"
    "open_tunnel E V now fault slot R stamp tid (meta_text (se_crypto E) m META_PUBKEY) (sv_db S) opn rs = (Inr ts, rs')"
  using assms
  by (auto simp: proxy_tunnel_def Let_def split: option.split_asm sum.split_asm prod.split_asm first_msg.split_asm)

section \<open>From creation to opening\<close>

lemma hex_encode_solid: "list_all solid_char (hex_encode b)"
proof -
  have "d < 16 \<Longrightarrow> solid_char (hex_digit d)" for d by (simp add: solid_char_def hex_digit_code Let_def)
  moreover have "unat x div 16 < 16" for x :: u8 using u8_less [of x] by (simp add: div_less_iff_less_mult)
  ultimately show ?thesis by (auto simp: hex_encode_def list_all_iff)
qed

lemma with_sessions_answer:
  assumes "with_sessions auth body = (Some (Inr a), S')"
  obtains pk S tbl' where "auth = (Inr pk, S)" "body pk (unwrap_or (sv_db S) []) = Some (Inr (a, tbl'))" "sv_db S' = Some tbl'"
  using assms by (auto simp: with_sessions_def split: prod.split_asm sum.split_asm option.split_asm)

text \<open>A row nobody has used passes every limit.\<close>

lemma fresh_limits:
  "\<not> active_time_budget_exceeded p 0 0" "\<not> max_duration_exceeded p None now" "check_traffic_limits p 0 0 = Inr ()"
proof -
  have "0 < unat (u64_saturating_mul sec 1000)" if "0 < sec" for sec :: u64
    using that by (simp add: unat_u64_saturating_mul word_less_nat_alt)
  then have "u64_saturating_mul sec 1000 \<noteq> 0" if "0 < sec" for sec :: u64 using that by fastforce
  then show "\<not> active_time_budget_exceeded p 0 0"
    by (auto simp: active_time_budget_exceeded_def active_time_budget_ms_max_def positive_duration_def u64_saturating_add_def
        split: option.split)
  show "\<not> max_duration_exceeded p None now" by (simp add: max_duration_exceeded_def split: option.split)
  show "check_traffic_limits p 0 0 = Inr ()"
    by (simp add: check_traffic_limits_def limit_hit_def u64_saturating_add_def split: option.split)
qed

lemma keys_fetch:
  assumes "session_keys_ok tbl" "r \<in> set tbl"
  shows "fetch_by_token_sha256 tbl (gr_token_sha256_hex r) = Some r"
proof -
  have "find (\<lambda>x. gr_token_sha256_hex x = gr_token_sha256_hex r) t = Some r" if "distinct (map gr_token_sha256_hex t)" "r \<in> set t" for t
    using that by (induction t) (auto simp: rev_image_eqI)
  with assms show ?thesis by (simp add: fetch_by_token_sha256_def session_keys_ok_def)
qed

lemma inserted_row:
  assumes "insert_grpc_proxy_session new_id now pk board token sub ex json w g tbl = Inr (sid, tbl')"
  obtains row where "row \<in> set tbl'" "gr_token_sha256_hex row = token" "gr_session_id row = sid" "gr_client_pubkey_b64 row = pk"
    "\<not> gr_revoked row" "gr_expires_at row = ex" "gr_policy_json row = json"
proof -
  obtain row where "tbl' = tbl @ [row] \<and> gr_token_sha256_hex row = token \<and> gr_session_id row = sid \<and> gr_client_pubkey_b64 row = pk \<and>
      \<not> gr_revoked row \<and> gr_expires_at row = ex \<and> gr_policy_json row = json"
    using assms by (auto simp: insert_grpc_proxy_session_def set_wire_def set_ingress_def split: if_split_asm)
  then show thesis using that [of row] by simp
qed

lemma created_row:
  assumes a: "create_session E now raw sub_raw new_id fault host pk q tbl = Some (Inr (a, tbl'))"
    and key: "recipient_key E (cq_recipient_client_pubkey_b64 q) pk = Inr rpk"
    and policy: "policy = unwrap_or (cq_policy q) policy_default" and tbl: "session_keys_ok tbl"
  obtains row pj where "session_keys_ok tbl'" "row \<in> set tbl'" "gr_session_id row = cr_session_id a" "gr_client_pubkey_b64 row = rpk"
    "gr_token_sha256_hex row = hash_session_token_hex E (cr_session_token a)" "\<not> gr_revoked row" "cr_session_token a = hex_encode raw"
    "expires_at_from_policy (se_date_ok E) policy now = Some (gr_expires_at row)"
    "se_policy_print E (policy_from_proto policy) = Inr (gr_policy_json row)"
proof -
  from create_session_ok [OF a] obtain pj x w ing where
    k: "policy_columns E now policy = Some (Inr (pj, x))" "cr_session_token a = hex_encode raw"
    and i: "insert_grpc_proxy_session new_id now rpk (cq_board_label q) (hash_session_token_hex E (hex_encode raw))
       (hex_encode sub_raw) x pj w ing tbl = Inr (cr_session_id a, tbl')"
    using key policy by (metis sum.inject(2))
  have p: "expires_at_from_policy (se_date_ok E) policy now = Some x" "se_policy_print E (policy_from_proto policy) = Inr pj"
    using k(1) by (auto simp: policy_columns_def policy_json_from_proto_def split: sum.split_asm option.split_asm if_split_asm)
  show thesis
    by (rule inserted_row [OF i], rule that) (use k(2) p db_step_keys [OF db_insert [OF i] tbl] in auto)
qed

text \<open>Usage within the limits of the policy; a session nobody has used is.\<close>

definition within_budget :: "StoredPolicy \<Rightarrow> int \<Rightarrow> GrpcProxySessionRow \<Rightarrow> bool" where
  "within_budget policy now row \<longleftrightarrow> \<not> active_time_budget_exceeded policy (nonneg_u64 (gr_active_ms row)) 0 \<and>
     \<not> max_duration_exceeded policy (gr_first_open_at row) now \<and>
     check_traffic_limits policy (nonneg_u64 (gr_bytes_in row)) (nonneg_u64 (gr_bytes_out row)) = Inr ()"

lemma unused_within_budget:
  "gr_active_ms row = 0 \<Longrightarrow> gr_first_open_at row = None \<Longrightarrow> gr_bytes_in row = 0 \<Longrightarrow> gr_bytes_out row = 0 \<Longrightarrow> within_budget policy now row"
  by (simp add: within_budget_def fresh_limits nonneg_u64_def)

lemma open_tunnel_iff:
  assumes "session_keys_ok tbl" "row \<in> set tbl" "gr_token_sha256_hex row = hash_session_token_hex E (trim (po_session_token opn))"
    "trim (po_session_token opn) \<noteq> []"
  shows "(\<exists>t rs'. open_tunnel E V now None slot R stamp tid (Some pk) (Some tbl) opn rs = (Inr t, rs') \<and> ts_managed t = m) \<longleftrightarrow>
    (\<exists>policy. m = Some (row, policy) \<and> managed_check E now pk row = Inr policy) \<and> (\<exists>p. open_target E V opn = Inr p) \<and> slot = Inr () \<and>
    fst (open_register V R stamp tid m (Some pk) opn rs) = Inr ()"
proof -
  have "managed_session_of E V now None (Some pk) (Some tbl) (po_session_token opn) =
      (case managed_check E now pk row of Inl e \<Rightarrow> Inl e | Inr policy \<Rightarrow> Inr (Some (row, policy)))"
    using keys_fetch [OF assms(1,2)] assms(3,4) by (simp add: managed_session_of_def)
  then show ?thesis by (auto simp: open_tunnel_def Let_def split: sum.split prod.split)
qed

lemma proxy_tunnel_attached:
  fixes sk :: bytes
  assumes C: "auth_crypto_ok (se_crypto E)"
    and auth: "sv_auth S = Some au" "server_auth_ok (se_crypto E) au" "ac_public (se_crypto E) sk \<in> sa_peers au"
      "hm_get (sa_nonce_tracker au) (hex16 rnd) = None" and clock: "\<bar>now_ms - ts\<bar> \<le> 300000" "i64_range ts"
  shows "\<exists>S'. proxy_tunnel E V now_ms now fault slot R stamp tid
      (snd (attach_auth_metadata (se_crypto E) ts rnd sk ''ProxyTunnel'' ''default'' [] [])) (FirstOpen opn) S rs =
    (let (r, rs') = open_tunnel E V now fault slot R stamp tid (Some (pubkey_b64_url (se_crypto E) sk)) (sv_db S) opn rs in (r, S', rs'))"
proof -
  let ?A = "se_crypto E" and ?m = "snd (attach_auth_metadata (se_crypto E) ts rnd sk ''ProxyTunnel'' ''default'' [] [])"
  have pr: "printable ''default''" "printable []" by (simp_all add: printable_def)
  have "fst (server_verify ?A now_ms ?m ''ProxyTunnel'' (signing_payload ''ProxyTunnel'' ''default'' []) au) = Inr ()"
    by (rule server_verify_attached [OF C auth(2,3) clock pr(2,1) auth(4)])
  then obtain au' where "server_verify ?A now_ms ?m ''ProxyTunnel'' (signing_payload ''ProxyTunnel'' ''default'' []) au = (Inr (), au')"
    by (metis prod.collapse)
  then show ?thesis using auth(1) attach_fields(2) [OF C pr(2,1), of ts rnd sk "''ProxyTunnel''"]
    by (auto simp: proxy_tunnel_def split_beta)
qed

text \<open>
  C1: When the token of a session opens a tunnel. Let a client create a session for a recipient key, and let the service then run
  in any way in which the recipient does not close or change the session: other calls, pairings, usage of this and other
  sessions. When the recipient is authorised and asks for a tunnel with the returned token, and the database answers, the
  tunnel opens exactly when the session has not expired, its access schedule allows it, the usage recorded for the
  session is within the budgets of its policy, the request's target or wire settings are accepted, a tunnel slot is
  free and the device limit admits it; it then runs under the policy that was asked for. Usage is within the
  budgets in particular when there has been none.
\<close>

theorem created_token_opens:
  fixes sk :: bytes
  assumes C: "auth_crypto_ok (se_crypto E)"
    and json: "\<And>p s. se_policy_print E p = Inr s \<Longrightarrow> se_policy_parse E s = Inr p"
    and db: "sv_db S = Some tbl" "session_keys_ok tbl"
    and created: "create_connection E now_ms now raw sub_raw new_id fault host m q S = (Some (Inr a), S1)" and raw: "raw \<noteq> []"
    and key: "cq_recipient_client_pubkey_b64 q = Some (pubkey_b64_url (se_crypto E) sk)"
    and policy: "policy = unwrap_or (cq_policy q) policy_default"
    and run: "(quiet_step E (pubkey_b64_url (se_crypto E) sk) (cr_session_id a))\<^sup>*\<^sup>* S1 S2"
    and auth: "sv_auth S2 = Some au" "server_auth_ok (se_crypto E) au" "ac_public (se_crypto E) sk \<in> sa_peers au"
      "hm_get (sa_nonce_tracker au) (hex16 rnd) = None" and clock: "\<bar>now_ms' - ts\<bar> \<le> 300000" "i64_range ts"
    and opn: "po_session_token opn = cr_session_token a"
    and result: "result = proxy_tunnel E V now_ms' now' None slot R stamp tid
      (snd (attach_auth_metadata (se_crypto E) ts rnd sk ''ProxyTunnel'' ''default'' [] [])) (FirstOpen opn) S2 rs"
  shows "\<exists>tbl2 row ex. sv_db S2 = Some tbl2 \<and> row \<in> set tbl2 \<and> gr_session_id row = cr_session_id a \<and>
    expires_at_from_policy (se_date_ok E) policy now = Some ex \<and>
    ((\<exists>t. fst result = Inr t) \<longleftrightarrow> now' \<le> ex \<and>
       is_schedule_allowed (se_tz_parse E) (se_utc E) (se_to_local E) policy now' = Inr True \<and>
       within_budget (policy_from_proto policy) now' row \<and> (\<exists>p. open_target E V opn = Inr p) \<and> slot = Inr () \<and>
       fst (open_register V R stamp tid (Some (row, policy_from_proto policy)) (Some (pubkey_b64_url (se_crypto E) sk)) opn rs) = Inr ()) \<and>
    (\<forall>t. fst result = Inr t \<longrightarrow> ts_managed t = Some (row, policy_from_proto policy)) \<and>
    (gr_active_ms row = 0 \<and> gr_first_open_at row = None \<and> gr_bytes_in row = 0 \<and> gr_bytes_out row = 0 \<longrightarrow>
       within_budget (policy_from_proto policy) now' row)"
proof -
  let ?A = "se_crypto E" and ?pk = "pubkey_b64_url (se_crypto E) sk" and ?p = "policy_from_proto policy"
  obtain pk and S0 :: service and tbl' where w: "require_auth E now_ms m ''CreateConnection'' (cq_project_id q) S = (Inr pk, S0)"
      "create_session E now raw sub_raw new_id fault host pk q (unwrap_or (sv_db S0) []) = Some (Inr (a, tbl'))" "sv_db S1 = Some tbl'"
    by (rule with_sessions_answer [OF created [unfolded create_connection_def]]) blast
  have c: "create_session E now raw sub_raw new_id fault host pk q tbl = Some (Inr (a, tbl'))"
    using w(2) require_auth_ok [OF w(1)] db(1) by (simp add: unwrap_or_def)
  have "trim ?pk = ?pk" using crypto_okD(4) [OF C] by (simp add: pubkey_b64_url_def trim_all_solid)
  then have rk: "recipient_key E (cq_recipient_client_pubkey_b64 q) pk = Inr ?pk"
    using sign_nonempty(2) [OF C, of sk] by (simp add: recipient_key_def key sign_verify [OF C]) (simp add: pubkey_b64_url_def)
  obtain r1 where r1: "session_keys_ok tbl'" "r1 \<in> set tbl'" "gr_session_id r1 = cr_session_id a" "gr_client_pubkey_b64 r1 = ?pk"
    "gr_token_sha256_hex r1 = hash_session_token_hex E (cr_session_token a)" "\<not> gr_revoked r1" "cr_session_token a = hex_encode raw"
    "expires_at_from_policy (se_date_ok E) policy now = Some (gr_expires_at r1)"
    "se_policy_print E ?p = Inr (gr_policy_json r1)"
    by (rule created_row [OF c rk policy db(2)])
  obtain tbl2 row where t2: "sv_db S2 = Some tbl2" "row \<in> set tbl2" and same: "same_terms r1 row"
    using quiet_run_terms [of E r1 S1 S2 tbl'] run r1(2-4) w(3) by auto
  have k2: "session_keys_ok tbl2"
    using service_run_db [OF svc_run_any [OF run] w(3)] db_run_keeps [OF _ r1(1)] t2(1) by auto
  have tok: "trim (po_session_token opn) = cr_session_token a" "cr_session_token a \<noteq> []"
    using raw opn r1(7) by (auto simp: trim_all_solid hex_encode_solid) (cases raw; simp add: hex_encode_def)
  have sched: "is_schedule_allowed_stored (se_tz_parse E) (se_utc E) (se_to_local E) ?p now' =
      is_schedule_allowed (se_tz_parse E) (se_utc E) (se_to_local E) policy now'"
    by (simp add: is_schedule_allowed_stored_def is_schedule_allowed_def policy_from_proto_def)
  have chk: "managed_check E now' ?pk row = Inr y \<longleftrightarrow> y = ?p \<and> now' \<le> gr_expires_at r1 \<and>
      is_schedule_allowed (se_tz_parse E) (se_utc E) (se_to_local E) policy now' = Inr True \<and> within_budget ?p now' row" for y
    using same r1(4,6) json [OF r1(9)] sched
    by (auto simp: managed_check_ok same_terms_def parse_policy_json_def within_budget_def)
  obtain S3 where res: "result = (let (r, rs') = open_tunnel E V now' None slot R stamp tid (Some ?pk) (sv_db S2) opn rs in (r, S3, rs'))"
    using proxy_tunnel_attached [OF C auth clock, of V now' None slot R stamp tid opn rs] unfolding result by blast
  have "gr_token_sha256_hex row = hash_session_token_hex E (trim (po_session_token opn))" using same r1(5) tok by (simp add: same_terms_def)
  note iff = open_tunnel_iff [OF k2 t2(2) this, of V now' slot R stamp tid ?pk rs]
  have open_iff: "fst result = Inr t \<and> ts_managed t = y \<longrightarrow>
      y = Some (row, ?p) \<and> managed_check E now' ?pk row = Inr ?p \<and> (\<exists>p. open_target E V opn = Inr p) \<and> slot = Inr () \<and>
      fst (open_register V R stamp tid (Some (row, ?p)) (Some ?pk) opn rs) = Inr ()" for t y
    using iff [of y] tok chk by (auto simp: res t2(1) split_beta Let_def prod_eq_iff)
  have "\<exists>t. fst result = Inr t" if "managed_check E now' ?pk row = Inr ?p" "\<exists>p. open_target E V opn = Inr p" "slot = Inr ()"
      "fst (open_register V R stamp tid (Some (row, ?p)) (Some ?pk) opn rs) = Inr ()"
    using iff [of "Some (row, ?p)"] tok that by (auto simp: res t2(1) split_beta Let_def prod_eq_iff)
  then show ?thesis using open_iff t2 same r1(3,8) chk [of ?p] unused_within_budget [of row ?p now']
    by (intro exI [of _ tbl2] exI [of _ row] exI [of _ "gr_expires_at r1"]) (auto simp: same_terms_def)
qed

section \<open>Closing, devices and secrets\<close>

lemma close_revokes:
  assumes closed: "close_connection E now_ms fault m pid sid S = (Some (Inr msg), S1)" and db: "sv_db S = Some tbl" "session_keys_ok tbl"
    and r: "r \<in> set tbl" "gr_session_id r = sid"
  shows "\<exists>tbl1 r1. sv_db S1 = Some tbl1 \<and> session_keys_ok tbl1 \<and> r1 \<in> set tbl1 \<and> gr_revoked r1 \<and>
    gr_token_sha256_hex r1 = gr_token_sha256_hex r"
proof -
  obtain pk S0 tbl1 where w: "require_auth E now_ms m ''CloseConnection'' pid S = (Inr pk, S0)" "sv_db S1 = Some tbl1"
      and body: "(case fault of Some e \<Rightarrow> Some (Inl (Internal e)) | None \<Rightarrow>
           (let (n, tbl') = revoke_grpc_proxy_session sid pk (unwrap_or (sv_db S0) []) in
            if n = 0 then Some (Inl (NotFound ''session not found or already revoked'')) else Some (Inr (''ok'', tbl'))))
          = Some (Inr (msg, tbl1))"
    using with_sessions_answer [OF closed [unfolded close_connection_def]] by blast
  have "sv_db S0 = Some tbl" using require_auth_ok [OF w(1)] db(1) by simp
  with body obtain n where n: "revoke_grpc_proxy_session sid pk tbl = (n, tbl1)" "n \<noteq> 0"
    by (auto simp: unwrap_or_def split: option.split_asm prod.split_asm if_split_asm)
  then obtain x where x: "x \<in> set tbl" "gr_session_id x = sid" "gr_client_pubkey_b64 x = pk"
    by (auto simp: revoke_grpc_proxy_session_def sql_update_def filter_empty_conv)
  have "inj_on gr_session_id (set tbl)" using db(2) by (simp add: session_keys_ok_def distinct_map)
  with x r have "x = r" by (simp add: inj_on_def)
  with x have "r\<lparr>gr_revoked := True\<rparr> \<in> set tbl1"
    using n(1) by (force simp: revoke_grpc_proxy_session_def sql_update_def)
  moreover have "session_keys_ok tbl1" by (rule db_step_keys [OF db_revoke [OF n(1)] db(2)])
  ultimately show ?thesis using w(2) by (intro exI [of _ tbl1] exI [of _ "r\<lparr>gr_revoked := True\<rparr>"]) simp
qed

text \<open>
  C2: A closed session opens nothing. Once a session has been closed, no tunnel opens with its token, whatever
  calls, pairings and usage the service has seen since.
\<close>

theorem closed_token_refused:
  assumes closed: "close_connection E now_ms fault m pid sid S = (Some (Inr msg), S1)" and db: "sv_db S = Some tbl" "session_keys_ok tbl"
    and r: "r \<in> set tbl" "gr_session_id r = sid" and run: "(svc_step E)\<^sup>*\<^sup>* S1 S2"
    and token: "gr_token_sha256_hex r = hash_session_token_hex E (trim (po_session_token opn))" "trim (po_session_token opn) \<noteq> []"
  shows "fst (proxy_tunnel E V now_ms' now' fault' slot R stamp tid m' (FirstOpen opn) S2 rs) \<noteq> Inr t"
proof
  assume "fst (proxy_tunnel E V now_ms' now' fault' slot R stamp tid m' (FirstOpen opn) S2 rs) = Inr t"
  then obtain S3 rs' where "proxy_tunnel E V now_ms' now' fault' slot R stamp tid m' (FirstOpen opn) S2 rs = (Inr t, S3, rs')"
    by (metis prod.collapse)
  from proxy_tunnel_ok [OF this] obtain rs' where
    o: "open_tunnel E V now' fault' slot R stamp tid (meta_text (se_crypto E) m' META_PUBKEY) (sv_db S2) opn rs = (Inr t, rs')"
    by (metis first_msg.inject(2))
  obtain tbl1 r1 where c: "sv_db S1 = Some tbl1" "session_keys_ok tbl1" "r1 \<in> set tbl1" "gr_revoked r1"
      "gr_token_sha256_hex r1 = gr_token_sha256_hex r"
    using close_revokes [OF closed db r] by blast
  obtain tbl2 where t2: "sv_db S2 = Some tbl2" "db_step\<^sup>*\<^sup>* tbl1 tbl2" using service_run_db [OF run c(1)] by blast
  have k: "session_keys_ok tbl2" "r1 \<in> set tbl2" using db_run_keeps [OF t2(2) c(2)] c(3,4) by auto
  from open_tunnel_ok [OF o]
  have ms: "managed_session_of E V now' fault' (meta_text (se_crypto E) m' META_PUBKEY) (sv_db S2) (po_session_token opn) = Inr (ts_managed t)"
    by blast
  then obtain row policy where "ts_managed t = Some (row, policy)"
    using token(2) t2(1) by (cases "ts_managed t") (auto simp: managed_session_of_def Let_def split: option.split_asm sum.split_asm)
  with managed_session_ok [of E V now' fault' _ "sv_db S2" "po_session_token opn" row policy] ms t2(1) keys_fetch [OF k] c(4,5) token(1)
  show False by (auto simp: managed_check_ok)
qed

text \<open>
  C32: The device limit holds for what Redis records. When a tunnel of a managed session with a positive device
  limit opens and Redis answered, the session had fewer registered tunnels than the limit and has at most that
  many now, this one included. When Redis fails the tunnel opens without being counted.
\<close>

theorem open_device_limit:
  assumes "redis_ok srv" and o: "open_tunnel E V now fault slot (Some srv) stamp tid pubkey db opn rs = (Inr t, rs')"
    and m: "ts_managed t = Some (row, policy)" "gr_session_id row \<noteq> []" "0 < session_max V (ts_managed t)"
  shows "(card (rv_set (rd_view srv rs) (session_online_key (gr_session_id row))) < unat (session_max V (ts_managed t)) \<and>
      card (rv_set (rd_view srv rs') (session_online_key (gr_session_id row))) \<le> unat (session_max V (ts_managed t)) \<and>
      tid \<in> rv_set (rd_view srv rs') (session_online_key (gr_session_id row))) \<or>
    (\<exists>e. register_online srv tid (open_fields stamp tid (ts_managed t) pubkey opn) (session_max V (ts_managed t)) rs = (Inl (RedisErr e), rs'))"
proof -
  let ?fs = "open_fields stamp tid (ts_managed t) pubkey opn" and ?mx = "session_max V (ts_managed t)"
  from open_tunnel_ok [OF o] have "open_register V (Some srv) stamp tid (ts_managed t) pubkey opn rs = (Inr (), rs')" by blast
  then have "register_online srv tid ?fs ?mx rs = (Inr (), rs') \<or> (\<exists>e. register_online srv tid ?fs ?mx rs = (Inl (RedisErr e), rs'))"
    by (auto simp: open_register_def split: sum.split_asm prod.split_asm RegisterOnlineError.split_asm)
  moreover have "session_field ?fs = Some (gr_session_id row)"
    using m(1) by (simp add: open_fields_def redis_fields_snapshot_def session_field_def)
  ultimately show ?thesis using registered_within_limit [OF assms(1) _ _ m(2,3)] by blast
qed

text \<open>
  C40: The secret of the session counts. When the session of an opened VLESS or Trojan tunnel stores a wire secret for the
  mode of the tunnel, then whatever secret the request carries, the relay bridges the tunnel only for a stream with
  the stored one: the identifier in a VLESS header, the password digest at the start of a Trojan stream.
\<close>

theorem session_secret_enforced:
  assumes o: "open_tunnel E V now fault slot R stamp tid pubkey db opn rs = (Inr t, rs')"
    and m: "ts_managed t = Some (row, policy)" "gr_wire_config_json row = Some json" "trim json \<noteq> []"
      "wire_params_from_json (se_wire_decode E) (trim json) = Inr session"
    and p: "ts_params t = Some params" and relay: "run_wire_relay W N (ts_wire_mode t) params cache i u inbound = (RelayBridged up e pe rest, c)"
  shows "(ts_wire_mode t = 1 \<and> wp_uuid session = Some s \<and> trim s \<noteq> [] \<longrightarrow> we_uuid_parse W (trim s) = Inr (slice 1 17 (data_bytes inbound))) \<and>
    (ts_wire_mode t = 2 \<and> wp_password session = Some pw \<and> pw \<noteq> [] \<longrightarrow>
       take 56 (data_bytes inbound) = take 56 (trojan_auth_line (we_sha224 W) pw))"
proof -
  from open_tunnel_ok [OF o] obtain p0 where "ts_params t = apply_managed_wire_secrets E p0 (ts_wire_mode t) (ts_managed t)" by metis
  with m p have params: "\<exists>q. params = session_secrets (ts_wire_mode t) session q"
    by (auto simp: apply_managed_wire_secrets_def split: option.split_asm)
  have "we_uuid_parse W (trim s) = Inr (slice 1 17 (data_bytes inbound))"
    if "ts_wire_mode t = 1" "wp_uuid session = Some s" "trim s \<noteq> []"
  proof -
    from relay that have "run_vless_relay (we_uuid_parse W) N params inbound = RelayBridged up e pe rest" by (simp add: run_wire_relay_def)
    from vless_bridged [OF this] params that show ?thesis by (auto simp: session_secrets_def nonempty_trim_def or_else_def)
  qed
  moreover have "take 56 (data_bytes inbound) = take 56 (trojan_auth_line (we_sha224 W) pw)"
    if "ts_wire_mode t = 2" "wp_password session = Some pw" "pw \<noteq> []"
  proof -
    from relay that have "run_trojan_relay (we_sha224 W) N params inbound = RelayBridged up e pe rest" by (simp add: run_wire_relay_def)
    from trojan_bridged [OF this] params that show ?thesis by (auto simp: session_secrets_def nonempty_def or_else_def)
  qed
  ultimately show ?thesis by blast
qed

text \<open>
  Another wire mode avoids the secret. The mode of a session is not compared with the mode of the request:
  when a session stores only an identifier, a request for a Trojan tunnel with the same token keeps the
  password the client made up.
\<close>

theorem wire_mode_bypass:
  assumes o: "open_tunnel E V now fault slot R stamp tid pubkey db opn rs = (Inr t, rs')"
    and m: "ts_managed t = Some (row, policy)" "gr_wire_mode row = Some 1" "gr_wire_config_json row = Some json"
      "wire_params_from_json (se_wire_decode E) (trim json) = Inr session" "wp_password session = None"
    and q: "po_wire_mode opn = Some 2" "po_wire_config_json opn = Some own" "trim own \<noteq> []"
      "wire_params_from_json (se_wire_decode E) (trim own) = Inr chosen"
  shows "ts_params t = Some chosen"
proof -
  from open_tunnel_ok [OF o] obtain p0 where
    p0: "open_target E V opn = Inr p0" "ts_params t = apply_managed_wire_secrets E p0 (ts_wire_mode t) (ts_managed t)" "ts_wire_mode t = 2"
    using q(1) by (metis option.simps(5) unwrap_or_def)
  have "p0 = Some chosen" using p0(1) q by (simp add: open_target_def unwrap_or_def)
  with p0 m show ?thesis
    by (simp add: apply_managed_wire_secrets_def session_secrets_def nonempty_def or_else_def)
qed

section \<open>Examples\<close>

definition open_env_example :: open_env where
  "open_env_example = \<lparr>oe_allowlist = None, oe_require_token = None, oe_default_devices = None, oe_device_cap = None\<rparr>"

definition open_example :: "string \<Rightarrow> int option \<Rightarrow> string option \<Rightarrow> ProxyOpen" where
  "open_example token mode json = \<lparr>po_host = ''h'', po_port = 80, po_session_token = token, po_stream_correlation_id = [],
     po_wire_mode = mode, po_wire_config_json = json, po_tunnel_priority = None, po_prefer_quic_data_plane = None\<rparr>"

lemma trim_small: "trim ''t1'' = ''t1''" "trim ''h'' = ''h''" "trim ''{}'' = ''{}''" "trim ''{u}'' = ''{u}''"
  by (rule trim_all_solid, simp add: solid_char_def)+

lemma default_policy_stored:
  "is_schedule_allowed_stored a b c (policy_from_proto policy_default) now = Inr True"
  "\<not> active_time_budget_exceeded (policy_from_proto policy_default) x y"
  "\<not> max_duration_exceeded (policy_from_proto policy_default) z now"
  "check_traffic_limits (policy_from_proto policy_default) v w = Inr ()"
  by (simp_all add: is_schedule_allowed_stored_def schedule_allowed_def active_time_budget_exceeded_def active_time_budget_ms_max_def
      max_duration_exceeded_def positive_duration_def check_traffic_limits_def limit_hit_def policy_from_proto_def policy_default_def unwrap_or_def)

lemma example_managed:
  assumes "se_sha256 E = (\<lambda>b. b)" "se_policy_parse E = (\<lambda>_. Inr (policy_from_proto policy_default))"
    and "row = row_example False\<lparr>gr_wire_mode := wm, gr_wire_config_json := wj\<rparr>"
  shows "managed_session_of E V 0 None (Some (pubkey_b64_url crypto_sound [])) (Some [row]) ''t1'' = Inr (Some (row, policy_from_proto policy_default))"
proof -
  have "managed_check E 0 (pubkey_b64_url crypto_sound []) row = Inr (policy_from_proto policy_default)"
    using assms(2,3) by (simp add: managed_check_ok row_example_def parse_policy_json_def default_policy_stored)
  then show ?thesis using assms
    by (simp add: managed_session_of_def trim_small fetch_by_token_sha256_def hash_session_token_hex_def row_example_def)
qed

theorem closed_token_refused_witness:
  "\<exists>S1. close_connection service_env_example 2000 None
      (snd (attach_auth_metadata crypto_sound 1000 7 [] ''CloseConnection'' [] [] [])) [] ''s1'' (service_example False) = (Some (Inr ''ok''), S1) \<and>
    (\<forall>t. fst (proxy_tunnel service_env_example open_env_example 0 0 None (Inr ()) None [] [] [] (FirstOpen (open_example ''t1'' None None)) S1 ()) \<noteq> Inr t)"
proof -
  obtain S1 where c: "close_connection service_env_example 2000 None
      (snd (attach_auth_metadata crypto_sound 1000 7 [] ''CloseConnection'' [] [] [])) [] ''s1'' (service_example False) = (Some (Inr ''ok''), S1)"
    by (rule close_example_answer)
  have k: "sv_db (service_example False) = Some [row_example False]" "session_keys_ok [row_example False]"
    "gr_session_id (row_example False) = ''s1''"
    by (simp_all add: service_example_def session_keys_ok_def row_example_def List.map_filter_def)
  have t: "gr_token_sha256_hex (row_example False) = hash_session_token_hex service_env_example (trim (po_session_token (open_example ''t1'' None None)))"
    "trim (po_session_token (open_example ''t1'' None None)) \<noteq> []"
    by (simp_all add: row_example_def hash_session_token_hex_def service_env_example_def open_example_def trim_small)
  have "row_example False \<in> set [row_example False]" by simp
  note refused = closed_token_refused [OF c k(1,2) this k(3) rtranclp.rtrancl_refl t]
  show ?thesis by (intro exI [of _ S1] conjI allI c refused)
qed

lemma example_opens:
  assumes E: "se_sha256 E = (\<lambda>b. b)" "se_policy_parse E = (\<lambda>_. Inr (policy_from_proto policy_default))"
    and row: "row = row_example False\<lparr>gr_wire_mode := wm, gr_wire_config_json := wj\<rparr>"
    and target: "open_target E open_env_example (open_example ''t1'' mode json) = Inr p"
    and R: "R = None \<or> R = Some plain_redis"
  shows "\<exists>t rs'. open_tunnel E open_env_example 0 None (Inr ()) R [] ''t'' (Some (pubkey_b64_url crypto_sound [])) (Some [row])
      (open_example ''t1'' mode json) empty_view = (Inr t, rs') \<and> ts_managed t = Some (row, policy_from_proto policy_default) \<and>
    ts_wire_mode t = unwrap_or mode 0 \<and> ts_params t = apply_managed_wire_secrets E p (unwrap_or mode 0) (ts_managed t)"
proof -
  have "\<exists>rs'. open_register open_env_example R [] ''t'' (Some (row, policy_from_proto policy_default)) (Some (pubkey_b64_url crypto_sound []))
      (open_example ''t1'' mode json) empty_view = (Inr (), rs')"
  proof (cases R)
    case (Some srv)
    then have "srv = plain_redis" using R by simp
    moreover obtain t where "register_online plain_redis ''t'' (open_fields [] ''t'' (Some (row, policy_from_proto policy_default))
        (Some (pubkey_b64_url crypto_sound [])) (open_example ''t1'' mode json))
        (session_max open_env_example (Some (row, policy_from_proto policy_default))) empty_view = (Inr (), t)"
      using plain_register_empty by blast
    ultimately show ?thesis using Some by (simp add: open_register_def)
  qed (simp add: open_register_def)
  with example_managed [OF E row, of open_env_example] target show ?thesis
    by (auto simp: open_tunnel_def Let_def open_example_def)
qed

definition trojan_env_example :: "unit service_env" where
  "trojan_env_example = service_env_example\<lparr>se_wire_decode := (\<lambda>s. Inr (if s = ''{u}'' then wire_params_default\<lparr>wp_uuid := Some ''u''\<rparr> else trojan_params_example))\<rparr>"

lemma env_facts:
  "se_sha256 service_env_example = (\<lambda>b. b)" "se_policy_parse service_env_example = (\<lambda>_. Inr (policy_from_proto policy_default))"
  "se_sha256 trojan_env_example = (\<lambda>b. b)" "se_policy_parse trojan_env_example = (\<lambda>_. Inr (policy_from_proto policy_default))"
  by (simp_all add: service_env_example_def trojan_env_example_def)

lemma plain_row: "row_example False = row_example False\<lparr>gr_wire_mode := None, gr_wire_config_json := None\<rparr>"
  by (simp add: row_example_def)

theorem open_device_limit_witness:
  "\<exists>t rs'. open_tunnel service_env_example open_env_example 0 None (Inr ()) (Some plain_redis) [] ''t'' (Some (pubkey_b64_url crypto_sound []))
      (Some [row_example False]) (open_example ''t1'' None None) empty_view = (Inr t, rs') \<and>
    card (rv_set rs' (session_online_key ''s1'')) \<le> 10"
proof -
  let ?opn = "open_example ''t1'' None None"
  have "open_target service_env_example open_env_example ?opn = Inr None"
    by (simp add: open_target_def open_example_def unwrap_or_def trim_small proxy_allowlist_check_def allowlist_def open_env_example_def)
  note opens = example_opens [OF env_facts(1,2) plain_row this, of "Some plain_redis"]
  obtain t rs' where o: "open_tunnel service_env_example open_env_example 0 None (Inr ()) (Some plain_redis) [] ''t''
      (Some (pubkey_b64_url crypto_sound [])) (Some [row_example False]) ?opn empty_view = (Inr t, rs')"
    and m: "ts_managed t = Some (row_example False, policy_from_proto policy_default)"
    using opens by blast
  have mx: "session_max open_env_example (ts_managed t) = 10"
    by (simp add: m session_max_def effective_max_concurrent_devices_per_session_def default_max_devices_per_session_from_env_def
        policy_from_proto_def policy_default_def open_env_example_def)
  have "\<not> (\<exists>e. register_online plain_redis ''t'' (open_fields [] ''t'' (ts_managed t) (Some (pubkey_b64_url crypto_sound [])) ?opn)
      (session_max open_env_example (ts_managed t)) empty_view = (Inl (RedisErr e), rs'))"
    using plain_register_empty by (metis Inl_Inr_False Pair_inject)
  with open_device_limit [OF plain_redis_ok o m] have "card (rv_set (rd_view plain_redis rs') (session_online_key ''s1'')) \<le> 10"
    by (auto simp: mx row_example_def)
  with o show ?thesis by (auto simp: plain_redis_def)
qed

lemma trojan_target:
  "open_target trojan_env_example open_env_example (open_example ''t1'' (Some 2) (Some ''{}'')) = Inr (Some trojan_params_example)"
  by (simp add: open_target_def open_example_def unwrap_or_def trim_small wire_params_from_json_def trojan_env_example_def)

theorem session_secret_enforced_witness:
  "\<exists>first t rs' up e pe rest. open_tunnel trojan_env_example open_env_example 0 None (Inr ()) None [] ''t'' (Some (pubkey_b64_url crypto_sound []))
      (Some [row_example False\<lparr>gr_wire_mode := Some 2, gr_wire_config_json := Some ''{}''\<rparr>]) (open_example ''t1'' (Some 2) (Some ''{}''))
      empty_view = (Inr t, rs') \<and>
    run_wire_relay wire_example env_example (ts_wire_mode t) trojan_params_example None 0 0 [ItemData first] = (RelayBridged up e pe rest, None) \<and>
    take 56 first = take 56 (trojan_auth_line (we_sha224 wire_example) ''pw'')"
proof -
  let ?row = "row_example False\<lparr>gr_wire_mode := Some 2, gr_wire_config_json := Some ''{}''\<rparr>"
  obtain t rs' where o: "open_tunnel trojan_env_example open_env_example 0 None (Inr ()) None [] ''t''
      (Some (pubkey_b64_url crypto_sound [])) (Some [?row]) (open_example ''t1'' (Some 2) (Some ''{}'')) empty_view = (Inr t, rs')"
    and m: "ts_managed t = Some (?row, policy_from_proto policy_default)" "ts_wire_mode t = unwrap_or (Some 2) 0"
      "ts_params t = apply_managed_wire_secrets trojan_env_example (Some trojan_params_example) (unwrap_or (Some 2) 0) (ts_managed t)"
    using example_opens [OF env_facts(3,4) refl trojan_target, of None] by blast
  obtain first up e p r where run: "run_wire_relay wire_example env_example 2 trojan_params_example None 0 0 [ItemData first] = (RelayBridged up e p r, None)"
    by (rule trojan_example_runs)
  have w: "ts_wire_mode t = 2" "gr_wire_config_json ?row = Some ''{}''" "trim ''{}'' \<noteq> []"
    "wire_params_from_json (se_wire_decode trojan_env_example) (trim ''{}'') = Inr trojan_params_example"
    "ts_params t = Some trojan_params_example"
    using m by (simp_all add: unwrap_or_def trim_small wire_params_from_json_def trojan_env_example_def apply_managed_wire_secrets_def
        session_secrets_def nonempty_def or_else_def trojan_params_example_def)
  have "take 56 first = take 56 (trojan_auth_line (we_sha224 wire_example) ''pw'')"
    using session_secret_enforced [OF o m(1) w(2-5), of wire_example env_example None 0 0 "[ItemData first]" up e p r None _ "''pw''"] run w(1)
    by (simp add: trojan_params_example_def)
  with o run w(1) show ?thesis by (intro exI [of _ first] exI [of _ t] exI) (auto simp: w(1))
qed

theorem wire_mode_bypass_witness:
  "\<exists>t rs'. open_tunnel trojan_env_example open_env_example 0 None (Inr ()) None [] ''t'' (Some (pubkey_b64_url crypto_sound []))
      (Some [row_example False\<lparr>gr_wire_mode := Some 1, gr_wire_config_json := Some ''{u}''\<rparr>]) (open_example ''t1'' (Some 2) (Some ''{}''))
      empty_view = (Inr t, rs') \<and> ts_params t = Some trojan_params_example"
proof -
  let ?row = "row_example False\<lparr>gr_wire_mode := Some 1, gr_wire_config_json := Some ''{u}''\<rparr>"
  obtain t rs' where o: "open_tunnel trojan_env_example open_env_example 0 None (Inr ()) None [] ''t''
      (Some (pubkey_b64_url crypto_sound [])) (Some [?row]) (open_example ''t1'' (Some 2) (Some ''{}'')) empty_view = (Inr t, rs')"
    and m: "ts_managed t = Some (?row, policy_from_proto policy_default)"
    using example_opens [OF env_facts(3,4) refl trojan_target, of None] by blast
  have "ts_params t = Some trojan_params_example"
    by (rule wire_mode_bypass [OF o m, of "''{u}''" "wire_params_default\<lparr>wp_uuid := Some ''u''\<rparr>" "''{}''"])
       (simp_all add: open_example_def trim_small wire_params_from_json_def trojan_env_example_def wire_params_default_def)
  with o show ?thesis by auto
qed

definition create_example :: CreateConnectionRequest where
  "create_example = \<lparr>cq_project_id = [], cq_board_label = [], cq_policy = None,
     cq_recipient_client_pubkey_b64 = Some (pubkey_b64_url crypto_sound []), cq_wire_mode = None, cq_wire_config_json = None,
     cq_ingress = \<lparr>iq_protocol = None, iq_listen_port = None, iq_listen_udp_port = None, iq_config_json = None, iq_tls_json = None,
       iq_template_version = None\<rparr>\<rparr>"

definition service_empty :: service where
  "service_empty = \<lparr>sv_auth = Some (server_example\<lparr>sa_peers := {replicate 32 0}\<rparr>), sv_db = Some []\<rparr>"

text \<open>The state after a call: the table of the answer and a tracker that has seen the nonce of the call.\<close>

lemma require_auth_state:
  assumes "sv_auth S = Some au" "server_auth_ok (se_crypto E) au" "hm_get (sa_nonce_tracker au) k = None"
    and "meta_text (se_crypto E) m META_NONCE = Some n" "k \<noteq> n"
  shows "\<exists>au'. sv_auth (snd (require_auth E now_ms m meth pid S)) = Some au' \<and> server_auth_ok (se_crypto E) au' \<and>
    sa_peers au \<subseteq> sa_peers au' \<and> hm_get (sa_nonce_tracker au') k = None"
proof -
  let ?v = "snd (server_verify (se_crypto E) now_ms m meth (signing_payload meth pid []) au)"
  have "server_auth_ok (se_crypto E) ?v \<and> sa_peers au \<subseteq> sa_peers ?v" using auth_step_keeps [OF auth_call assms(2)] .
  moreover have "hm_ok (sa_nonce_tracker au)" using assms(2) by (simp add: server_auth_ok_def)
  from verify_fresh [OF this assms(3-5)] have "hm_get (sa_nonce_tracker ?v) k = None" by (simp add: server_verify_def split_beta)
  moreover have "sv_auth (snd (require_auth E now_ms m meth pid S)) \<in> {Some au, Some ?v}"
    using assms(1) by (auto simp: require_auth_def split: option.split sum.split prod.split)
  ultimately show ?thesis using assms(1-3) by (auto simp: require_auth_def)
qed

lemma create_example_answer:
  obtains a S1 r au where "create_connection service_env_example 2000 0 [1] [2] ''s1'' None None
      (snd (attach_auth_metadata crypto_sound 1000 7 [] ''CreateConnection'' [] [] [])) create_example service_empty = (Some (Inr a), S1)"
    "sv_db S1 = Some [r]" "gr_active_ms r = 0" "gr_first_open_at r = None" "gr_bytes_in r = 0" "gr_bytes_out r = 0"
    "sv_auth S1 = Some au" "server_auth_ok crypto_sound au" "replicate 32 0 \<in> sa_peers au" "hm_get (sa_nonce_tracker au) (hex16 8) = None"
proof -
  let ?m = "snd (attach_auth_metadata crypto_sound 1000 7 [] ''CreateConnection'' [] [] [])"
  obtain S' where r: "require_auth service_env_example 2000 ?m ''CreateConnection'' [] service_empty = (Inr (pubkey_b64_url crypto_sound []), S')"
      "sv_db S' = Some []"
    by (rule example_auth [of "''CreateConnection''" service_empty]) (simp_all add: service_empty_def)
  have ne: "hex16 8 \<noteq> hex16 7" by (simp add: hex16_def show_hex.simps Let_def)
  obtain au where au: "sv_auth S' = Some au" "server_auth_ok crypto_sound au" "replicate 32 0 \<in> sa_peers au" "hm_get (sa_nonce_tracker au) (hex16 8) = None"
    using require_auth_state [of service_empty "server_example\<lparr>sa_peers := {replicate 32 0}\<rparr>" service_env_example "hex16 8" ?m "hex16 7" 2000 "''CreateConnection''" "[]"]
      attach_fields(4) [OF crypto_sound_ok, of "[]" "[]" 1000 7 "[]" "''CreateConnection''"] server_example_auth r(1) ne
    by (auto simp: service_empty_def service_env_example_def server_example_def printable_def)
  have "\<exists>k. recipient_key service_env_example (Some (pubkey_b64_url crypto_sound [])) pk = Inr k" for pk
    using sign_verify(1) [OF crypto_sound_ok, of "[]"] crypto_okD(4) [OF crypto_sound_ok]
    by (simp add: recipient_key_def service_env_example_def pubkey_b64_url_def trim_all_solid)
  then obtain k where "recipient_key service_env_example (Some (pubkey_b64_url crypto_sound [])) (pubkey_b64_url crypto_sound []) = Inr k" by blast
  then have "\<exists>a x. create_session service_env_example 0 [1] [2] ''s1'' None None (pubkey_b64_url crypto_sound []) create_example [] = Some (Inr (a, [x])) \<and>
      gr_active_ms x = 0 \<and> gr_first_open_at x = None \<and> gr_bytes_in x = 0 \<and> gr_bytes_out x = 0"
    by (simp add: create_session_def Let_def create_example_def unwrap_or_def default_policy_columns and_then_def validate_inbound_wire_def
        validate_ingress_create_def should_update_ingress_def blank_def insert_grpc_proxy_session_def set_wire_def set_ingress_def)
  then obtain a x where x: "create_session service_env_example 0 [1] [2] ''s1'' None None (pubkey_b64_url crypto_sound []) create_example [] = Some (Inr (a, [x]))"
      "gr_active_ms x = 0" "gr_first_open_at x = None" "gr_bytes_in x = 0" "gr_bytes_out x = 0" by blast
  have "create_connection service_env_example 2000 0 [1] [2] ''s1'' None None ?m create_example service_empty = (Some (Inr a), S'\<lparr>sv_db := Some [x]\<rparr>)"
    using r x(1) by (simp add: create_connection_def with_sessions_def unwrap_or_def create_example_def [THEN arg_cong, of cq_project_id])
  then show thesis by (rule that) (use x au in simp_all)
qed

theorem created_token_opens_witness:
  "\<exists>a S1 t row. fst (create_connection service_env_example 2000 0 [1] [2] ''s1'' None None
      (snd (attach_auth_metadata crypto_sound 1000 7 [] ''CreateConnection'' [] [] [])) create_example service_empty) = Some (Inr a) \<and>
    S1 = snd (create_connection service_env_example 2000 0 [1] [2] ''s1'' None None
      (snd (attach_auth_metadata crypto_sound 1000 7 [] ''CreateConnection'' [] [] [])) create_example service_empty) \<and>
    fst (proxy_tunnel service_env_example open_env_example 4000 10 None (Inr ()) None [] ''t''
      (snd (attach_auth_metadata crypto_sound 3000 8 [] ''ProxyTunnel'' ''default'' [] []))
      (FirstOpen (open_example (cr_session_token a) None None)) S1 ()) = Inr t \<and>
    ts_managed t = Some (row, policy_from_proto policy_default)"
proof -
  obtain a S1 r au where c: "create_connection service_env_example 2000 0 [1] [2] ''s1'' None None
      (snd (attach_auth_metadata crypto_sound 1000 7 [] ''CreateConnection'' [] [] [])) create_example service_empty = (Some (Inr a), S1)"
    and r: "sv_db S1 = Some [r]" "gr_active_ms r = 0" "gr_first_open_at r = None" "gr_bytes_in r = 0" "gr_bytes_out r = 0"
    and au: "sv_auth S1 = Some au" "server_auth_ok crypto_sound au" "replicate 32 0 \<in> sa_peers au" "hm_get (sa_nonce_tracker au) (hex16 8) = None"
    by (rule create_example_answer)
  let ?E = service_env_example and ?o = "open_example (cr_session_token a) None None"
  have E: "se_crypto ?E = crypto_sound" by (simp add: service_env_example_def)
  have j: "se_policy_parse ?E t = Inr p" if "se_policy_print ?E p = Inr t" for p t
    using that by (simp add: service_env_example_def split: if_split_asm)
  have d: "sv_db service_empty = Some []" "session_keys_ok []" by (simp_all add: service_empty_def session_keys_ok_def List.map_filter_def)
  have k: "cq_recipient_client_pubkey_b64 create_example = Some (pubkey_b64_url (se_crypto ?E) [])" by (simp add: create_example_def E)
  have p: "policy_default = unwrap_or (cq_policy create_example) policy_default" by (simp add: create_example_def unwrap_or_def)
  have u: "ac_public (se_crypto ?E) [] \<in> sa_peers au" using au(3) by (simp add: E crypto_sound_def [THEN arg_cong, of ac_public])
  have o: "po_session_token ?o = cr_session_token a" "open_target ?E open_env_example ?o = Inr None"
    by (simp_all add: open_example_def open_target_def unwrap_or_def trim_small proxy_allowlist_check_def allowlist_def open_env_example_def)
  have s: "is_schedule_allowed (se_tz_parse ?E) (se_utc ?E) (se_to_local ?E) policy_default 10 = Inr True"
    by (simp add: is_schedule_allowed_def schedule_allowed_def policy_default_def)
  have x: "expires_at_from_policy (se_date_ok ?E) policy_default 0 = Some (36500 * DAY_MS)" "(10 :: int) \<le> 36500 * DAY_MS"
    by (simp_all add: expires_at_from_policy_def policy_default_def date_add_def unwrap_or_def service_env_example_def DAY_MS_def)
  have t: "\<bar>4000 - 3000 :: int\<bar> \<le> 300000" "i64_range 3000" by (simp_all add: i64_range_def i64_min_def i64_max_def)
  have "\<exists>t. fst (proxy_tunnel ?E open_env_example 4000 10 None (Inr ()) None [] ''t''
      (snd (attach_auth_metadata (se_crypto ?E) 3000 8 [] ''ProxyTunnel'' ''default'' [] [])) (FirstOpen ?o) S1 ()) = Inr t \<and>
      ts_managed t = Some (r, policy_from_proto policy_default)"
    using created_token_opens [OF _ j d c _ k p rtranclp.rtrancl_refl au(1) _ u au(4) t o(1) refl, of open_env_example 10 "Inr ()" None "[]" "''t''" "()"]
      crypto_sound_ok au(2) r o(2) s x by (auto simp: E open_register_def)
  then show ?thesis using c by (auto simp: E)
qed

end
