(* ===== verification/Task_Queue.thy ===== *)
theory Task_Queue
  imports Deploy_Auth Proxy_Session "HOL-Library.Multiset"
begin

text \<open>
  The task queue of a request-bus profile (\<^verbatim>\<open>stack-tun-api/src/task_queue.rs\<close>): callers submit
  requests, workers claim them under a lease, report progress and complete them; a lease that runs out puts
  its task back to the front. In a run each call is one atomic step; the two locks it takes are not held
  together in the code, and discarding expired tasks is split where another call may come between. A call that blocks on its own lock, or spins, has the value \<open>None\<close>. Times are
  those of \<open>Instant\<close>, the order in which the \<open>HashMap\<close> is traversed is an argument. The theory shows the
  invariant that ties the waiting list to the tasks, that claiming ends, that a task has one worker at a time,
  that tasks are claimed in the order of submission, and exactly which calls never return.
\<close>

section \<open>Data\<close>

record BusRequestEnvelope =
  be_request_id :: string
  be_trace_id :: string
  be_hop_id :: u32
  be_source_node_id :: string
  be_target_node_id :: string
  be_method :: string
  be_scheme :: string
  be_host :: string
  be_path :: string
  be_headers :: "(string \<times> string) list"
  be_body_chunk :: bytes
  be_body_finished :: bool
  be_created_at_ms :: int

datatype StoredTaskPhase = Queued | Claimed | Running | Completed | Failed | Expired

record TaskEntry =
  te_profile_id :: string
  te_envelope :: BusRequestEnvelope
  te_queued_at :: nat
  te_phase :: StoredTaskPhase
  te_claimant :: "bytes option"
  te_lease_until :: "nat option"
  te_detail :: "string option"
  te_progress_pct :: u32
  te_response_status :: "u32 option"
  te_response_headers :: "(string \<times> string) list"
  te_response_body :: bytes
  te_terminal_error :: "string option"

text \<open>The counters of \<open>GlobalStats\<close> that the queue advances.\<close>

record task_stats =
  st_submitted :: u64
  st_claimed :: u64
  st_claim_timeout :: u64
  st_status_updates :: u64
  st_completed :: u64
  st_failed :: u64
  st_expired :: u64
  st_lease_requeue :: u64

definition task_stats_default :: task_stats where
  "task_stats_default = \<lparr>st_submitted = 0, st_claimed = 0, st_claim_timeout = 0, st_status_updates = 0, st_completed = 0,
     st_failed = 0, st_expired = 0, st_lease_requeue = 0\<rparr>"

record TaskQueue =
  tq_profile_id :: string
  tq_cap :: nat
  tq_ttl :: nat
  tq_lease :: nat
  tq_deque :: "string list"
  tq_tasks :: "(string, TaskEntry) hmap"
  tq_stats :: task_stats

text \<open>
  What a call reads from its surroundings: the three instants at which it looks at the clock, in the order of
  the code, and a rank of the keys whose order is the traversal order of the map.
\<close>

record tq_clock =
  ck_recycle :: nat
  ck_discard :: nat
  ck_now :: nat
  ck_rank :: "string \<Rightarrow> nat"

definition phase_str :: "StoredTaskPhase \<Rightarrow> string" where
  "phase_str p = (case p of Queued \<Rightarrow> ''queued'' | Claimed \<Rightarrow> ''claimed'' | Running \<Rightarrow> ''running''
     | Completed \<Rightarrow> ''completed'' | Failed \<Rightarrow> ''failed'' | Expired \<Rightarrow> ''expired'')"

definition phase_from_query :: "string option \<Rightarrow> StoredTaskPhase option" where
  "phase_from_query s = (case s of
      None \<Rightarrow> None
    | Some t0 \<Rightarrow>
       (let t = to_ascii_lowercase (trim t0) in
        if t = ''queued'' then Some Queued else if t = ''claimed'' then Some Claimed
        else if t = ''running'' then Some Running else if t = ''completed'' then Some Completed
        else if t = ''failed'' then Some Failed else if t = ''expired'' then Some Expired else None))"

section \<open>Operations\<close>

definition TaskQueue_new :: "string \<Rightarrow> nat \<Rightarrow> nat \<Rightarrow> nat \<Rightarrow> TaskQueue" where
  "TaskQueue_new profile_id cap ttl lease =
    \<lparr>tq_profile_id = trim profile_id, tq_cap = max cap 1, tq_ttl = ttl, tq_lease = lease, tq_deque = [], tq_tasks = [],
     tq_stats = task_stats_default\<rparr>"

definition lease_expired :: "nat \<Rightarrow> TaskEntry \<Rightarrow> bool" where
  "lease_expired now e \<longleftrightarrow> (te_phase e = Claimed \<or> te_phase e = Running) \<and>
     (case te_lease_until e of None \<Rightarrow> False | Some until \<Rightarrow> until < now)"

definition requeued :: "TaskEntry \<Rightarrow> TaskEntry" where
  "requeued e = e\<lparr>te_phase := Queued, te_claimant := None, te_lease_until := None,
     te_detail := Some ''lease_expired_requeued''\<rparr>"

definition push_front_new :: "string \<Rightarrow> string list \<Rightarrow> string list" where
  "push_front_new i dq = (if i \<in> set dq then dq else i # dq)"

definition expired_leases :: "(string \<Rightarrow> nat) \<Rightarrow> nat \<Rightarrow> (string, TaskEntry) hmap \<Rightarrow> string list" where
  "expired_leases rank now tasks = map fst (filter (\<lambda>(i, e). lease_expired now e) (sort_key (\<lambda>(i, e). rank i) tasks))"

definition recycle_expired_leases :: "(string \<Rightarrow> nat) \<Rightarrow> nat \<Rightarrow> TaskQueue \<Rightarrow> TaskQueue" where
  "recycle_expired_leases rank now q =
    (let ids = expired_leases rank now (tq_tasks q) in
     q\<lparr>tq_tasks := map (\<lambda>(i, e). (i, if lease_expired now e then requeued e else e)) (tq_tasks q),
       tq_deque := fold push_front_new ids (tq_deque q),
       tq_stats := (tq_stats q)\<lparr>st_lease_requeue := st_lease_requeue (tq_stats q) + word_of_nat (length ids)\<rparr>\<rparr>)"

text \<open>
  Expired waiting tasks. A pass of the loop looks at the front of the list and at its entry, then takes the front
  off and compares it with the id it looked at: when another call has changed the list in between, whatever was
  in front is gone and the pass starts over. Otherwise the entry is removed from the map inside an \<open>if let\<close> whose condition
  still holds the lock when the body takes it again: from there the call, and every later one, waits forever.
\<close>

definition stale :: "nat \<Rightarrow> nat \<Rightarrow> TaskEntry \<Rightarrow> bool" where
  "stale ttl now e \<longleftrightarrow> te_phase e = Queued \<and> ttl < now - te_queued_at e"

definition discard_look :: "nat \<Rightarrow> TaskQueue \<Rightarrow> string option" where
  "discard_look now q = (case tq_deque q of
      [] \<Rightarrow> None
    | i # _ \<Rightarrow>
       (case hm_get (tq_tasks q) i of
          None \<Rightarrow> None
        | Some e \<Rightarrow> if stale (tq_ttl q) now e then Some i else None))"

datatype discard_pass = DiscardAgain TaskQueue | DiscardStuck

definition discard_pop :: "string \<Rightarrow> TaskQueue \<Rightarrow> discard_pass" where
  "discard_pop i q = (case tq_deque q of
      [] \<Rightarrow> DiscardAgain q
    | popped # rest \<Rightarrow>
       if popped \<noteq> i then DiscardAgain (q\<lparr>tq_deque := rest\<rparr>)
       else case hm_get (tq_tasks q) i of
           None \<Rightarrow> DiscardAgain (q\<lparr>tq_deque := rest\<rparr>)
         | Some e \<Rightarrow> DiscardStuck)"

function discard_ttl_expired :: "nat \<Rightarrow> TaskQueue \<Rightarrow> TaskQueue option" where
  "discard_ttl_expired now q = (case discard_look now q of
      None \<Rightarrow> Some q
    | Some i \<Rightarrow>
       (case discard_pop i q of
          DiscardAgain q' \<Rightarrow> discard_ttl_expired now q'
        | DiscardStuck \<Rightarrow> None))"
  by pat_completeness auto
termination
  by (relation "measure (\<lambda>(now, q). length (tq_deque q))")
    (auto simp: discard_look_def discard_pop_def split: list.split_asm option.split_asm if_split_asm)

declare discard_ttl_expired.simps [simp del]

lemma discard_ttl_expired_eq:
  "discard_ttl_expired now q = (case tq_deque q of
      [] \<Rightarrow> Some q
    | i # _ \<Rightarrow>
       (case hm_get (tq_tasks q) i of
          None \<Rightarrow> Some q
        | Some e \<Rightarrow> if stale (tq_ttl q) now e then None else Some q))"
  by (subst discard_ttl_expired.simps) (simp add: discard_look_def discard_pop_def split: list.split option.split)

definition prune_all :: "tq_clock \<Rightarrow> TaskQueue \<Rightarrow> TaskQueue option" where
  "prune_all ck q = discard_ttl_expired (ck_discard ck) (recycle_expired_leases (ck_rank ck) (ck_recycle ck) q)"

text \<open>Submission. The random id and the two readings of the wall clock are arguments.\<close>

definition task_id :: "int \<Rightarrow> u64 \<Rightarrow> BusRequestEnvelope \<Rightarrow> string" where
  "task_id id_ms rnd envelope =
    (if trim (be_request_id envelope) = [] then ''tq-'' @ show_int id_ms @ ''-'' @ hex16 rnd else trim (be_request_id envelope))"

definition task_envelope :: "int \<Rightarrow> string \<Rightarrow> BusRequestEnvelope \<Rightarrow> BusRequestEnvelope" where
  "task_envelope ms rid envelope = envelope\<lparr>be_request_id := rid, be_body_finished := True,
     be_created_at_ms := if be_created_at_ms envelope = 0 then ms else be_created_at_ms envelope\<rparr>"

definition new_entry :: "string \<Rightarrow> nat \<Rightarrow> int \<Rightarrow> string \<Rightarrow> BusRequestEnvelope \<Rightarrow> TaskEntry" where
  "new_entry profile now ms rid envelope =
    \<lparr>te_profile_id = profile,
     te_envelope = task_envelope ms rid envelope,
     te_queued_at = now, te_phase = Queued, te_claimant = None, te_lease_until = None, te_detail = None,
     te_progress_pct = 0, te_response_status = None, te_response_headers = [], te_response_body = [], te_terminal_error = None\<rparr>"

definition enqueue ::
    "tq_clock \<Rightarrow> int \<Rightarrow> u64 \<Rightarrow> int \<Rightarrow> BusRequestEnvelope \<Rightarrow> TaskQueue \<Rightarrow> ((string + string) \<times> TaskQueue) option" where
  "enqueue ck id_ms rnd ms envelope q0 = (case prune_all ck q0 of
      None \<Rightarrow> None
    | Some q \<Rightarrow>
       if tq_cap q \<le> length (tq_deque q) then Some (Inl ''task_queue_full'', q)
       else let rid = task_id id_ms rnd envelope in
         if hm_contains (tq_tasks q) rid then Some (Inl ''duplicate_request_id'', q)
         else Some (Inr rid,
           q\<lparr>tq_tasks := hm_insert rid (new_entry (tq_profile_id q) (ck_now ck) ms rid envelope) (tq_tasks q),
             tq_deque := tq_deque q @ [rid],
             tq_stats := (tq_stats q)\<lparr>st_submitted := st_submitted (tq_stats q) + 1\<rparr>\<rparr>))"

datatype ClaimAttempt = Taken BusRequestEnvelope | Skip | RequeueFront

definition attempt_claim_id :: "nat \<Rightarrow> bytes \<Rightarrow> string \<Rightarrow> TaskQueue \<Rightarrow> ClaimAttempt \<times> TaskQueue" where
  "attempt_claim_id now pk i q = (case hm_get (tq_tasks q) i of
      None \<Rightarrow> (Skip, q)
    | Some e \<Rightarrow>
       if te_phase e \<noteq> Queued then (RequeueFront, q)
       else if tq_ttl q < now - te_queued_at e then
         (Skip, q\<lparr>tq_tasks := hm_insert i (e\<lparr>te_phase := Expired, te_terminal_error := Some ''queued_ttl_expired''\<rparr>) (tq_tasks q),
                  tq_stats := (tq_stats q)\<lparr>st_expired := st_expired (tq_stats q) + 1\<rparr>\<rparr>)
       else
         (Taken (te_envelope e),
          q\<lparr>tq_tasks := hm_insert i (e\<lparr>te_phase := Claimed, te_claimant := Some pk, te_lease_until := Some (now + tq_lease q)\<rparr>)
              (tq_tasks q)\<rparr>))"

text \<open>The attempts of one claim see one instant; the code reads the clock anew for each of them.\<close>

partial_function (option) try_claim_one ::
    "nat \<Rightarrow> bytes \<Rightarrow> TaskQueue \<Rightarrow> (BusRequestEnvelope option \<times> TaskQueue) option" where
  "try_claim_one now pk q = (case tq_deque q of
      [] \<Rightarrow> Some (None, q)
    | i # rest \<Rightarrow>
       (case attempt_claim_id now pk i (q\<lparr>tq_deque := rest\<rparr>) of (a, q') \<Rightarrow>
          (case a of
             Taken env \<Rightarrow> Some (Some env, q'\<lparr>tq_stats := (tq_stats q')\<lparr>st_claimed := st_claimed (tq_stats q') + 1\<rparr>\<rparr>)
           | Skip \<Rightarrow> try_claim_one now pk q'
           | RequeueFront \<Rightarrow> try_claim_one now pk (q'\<lparr>tq_deque := i # tq_deque q'\<rparr>))))"

text \<open>One round of the loop of \<open>claim_next\<close>; between two rounds the worker sleeps.\<close>

datatype claim_result = ClaimGot BusRequestEnvelope | ClaimTimeout | ClaimWait

definition claim_wait :: "nat \<Rightarrow> nat" where
  "claim_wait wait = min (max wait 50) 120000"

definition claim_round :: "tq_clock \<Rightarrow> nat \<Rightarrow> nat \<Rightarrow> bytes \<Rightarrow> TaskQueue \<Rightarrow> (claim_result \<times> TaskQueue) option" where
  "claim_round ck now2 deadline pk q0 = (case prune_all ck q0 of
      None \<Rightarrow> None
    | Some q \<Rightarrow>
       (case try_claim_one (ck_now ck) pk q of
          None \<Rightarrow> None
        | Some (Some env, q') \<Rightarrow> Some (ClaimGot env, q')
        | Some (None, q') \<Rightarrow>
           if deadline \<le> now2
           then Some (ClaimTimeout, q'\<lparr>tq_stats := (tq_stats q')\<lparr>st_claim_timeout := st_claim_timeout (tq_stats q') + 1\<rparr>\<rparr>)
           else Some (ClaimWait, q')))"

definition apply_status ::
    "tq_clock \<Rightarrow> bytes \<Rightarrow> string \<Rightarrow> string option \<Rightarrow> u32 \<Rightarrow> TaskQueue \<Rightarrow> ((status + unit) \<times> TaskQueue) option" where
  "apply_status ck pk request_id detail pct q0 =
    (let rid = trim request_id in
     if rid = [] then Some (Inl (InvalidArgument ''empty request_id''), q0)
     else case prune_all ck q0 of
         None \<Rightarrow> None
       | Some q \<Rightarrow>
          (case hm_get (tq_tasks q) rid of
             None \<Rightarrow> Some (Inl (NotFound ''unknown task''), q)
           | Some e \<Rightarrow>
              if te_claimant e \<noteq> Some pk then Some (Inl (PermissionDenied ''wrong worker for task status update''), q)
              else if te_phase e \<noteq> Claimed \<and> te_phase e \<noteq> Running
              then Some (Inl (FailedPrecondition ''task not claimable/active''), q)
              else if (case te_lease_until e of None \<Rightarrow> False | Some until \<Rightarrow> until < ck_now ck)
              then Some (Inl (FailedPrecondition ''lease expired''), q)
              else Some (Inr (),
                q\<lparr>tq_tasks := hm_insert rid (e\<lparr>te_phase := Running, te_detail := detail, te_progress_pct := pct\<rparr>) (tq_tasks q),
                  tq_stats := (tq_stats q)\<lparr>st_status_updates := st_status_updates (tq_stats q) + 1\<rparr>\<rparr>)))"

record TaskComplete =
  tk_request_id :: string
  tk_status :: u32
  tk_headers :: "(string \<times> string) list"
  tk_body_chunk :: bytes
  tk_finished :: bool
  tk_error :: string

text \<open>
  A part of an answer. The refusal of a final part without status and body comes after the entry has taken over
  the fields of the part.
\<close>

definition take_part :: "TaskComplete \<Rightarrow> TaskEntry \<Rightarrow> TaskEntry" where
  "take_part part e = e\<lparr>te_response_status := if tk_status part = 0 then te_response_status e else Some (tk_status part),
     te_response_headers := if tk_headers part = [] then te_response_headers e else tk_headers part,
     te_response_body := te_response_body e @ tk_body_chunk part\<rparr>"

definition finish_entry :: "TaskEntry \<Rightarrow> TaskEntry" where
  "finish_entry e = e\<lparr>te_response_status := Some (case te_response_status e of None \<Rightarrow> 200 | Some c \<Rightarrow> c), te_phase := Completed\<rparr>"

definition fail_entry :: "TaskComplete \<Rightarrow> TaskEntry \<Rightarrow> TaskEntry" where
  "fail_entry part e = e\<lparr>te_phase := Failed, te_terminal_error := Some (trim (tk_error part)),
     te_response_body := te_response_body e @ tk_body_chunk part\<rparr>"

definition apply_complete ::
    "tq_clock \<Rightarrow> bytes \<Rightarrow> TaskComplete \<Rightarrow> TaskQueue \<Rightarrow> ((status + unit) \<times> TaskQueue) option" where
  "apply_complete ck pk part q0 =
    (let rid = trim (tk_request_id part) in
     if rid = [] then Some (Inl (InvalidArgument ''empty request_id''), q0)
     else case prune_all ck q0 of
         None \<Rightarrow> None
       | Some q \<Rightarrow>
          (case hm_get (tq_tasks q) rid of
             None \<Rightarrow> Some (Inl (NotFound ''unknown task''), q)
           | Some e \<Rightarrow>
              if te_claimant e \<noteq> Some pk then Some (Inl (PermissionDenied ''wrong worker for task complete''), q)
              else if tk_finished part \<and> trim (tk_error part) \<noteq> [] then
                Some (Inr (), q\<lparr>tq_tasks := hm_insert rid (fail_entry part e) (tq_tasks q),
                  tq_stats := (tq_stats q)\<lparr>st_failed := st_failed (tq_stats q) + 1\<rparr>\<rparr>)
              else let e1 = take_part part e in
                if \<not> tk_finished part then Some (Inr (), q\<lparr>tq_tasks := hm_insert rid e1 (tq_tasks q)\<rparr>)
                else if te_response_status e1 = None \<and> te_response_body e1 = []
                then Some (Inl (InvalidArgument ''task complete missing status and body''), q\<lparr>tq_tasks := hm_insert rid e1 (tq_tasks q)\<rparr>)
                else Some (Inr (), q\<lparr>tq_tasks := hm_insert rid (finish_entry e1) (tq_tasks q),
                  tq_stats := (tq_stats q)\<lparr>st_completed := st_completed (tq_stats q) + 1\<rparr>\<rparr>)))"

section \<open>Calls and runs\<close>

datatype tq_call =
    CallEnqueue tq_clock int u64 int BusRequestEnvelope
  | CallClaim tq_clock nat nat bytes
  | CallStatus tq_clock bytes string "string option" u32
  | CallComplete tq_clock bytes TaskComplete

datatype tq_answer = AnsEnqueue "string + string" | AnsClaim claim_result | AnsUnit "status + unit"

fun tq_handle :: "tq_call \<Rightarrow> TaskQueue \<Rightarrow> (tq_answer \<times> TaskQueue) option" where
  "tq_handle (CallEnqueue ck id_ms rnd ms env) q = map_option (map_prod AnsEnqueue (\<lambda>x. x)) (enqueue ck id_ms rnd ms env q)"
| "tq_handle (CallClaim ck now2 deadline pk) q = map_option (map_prod AnsClaim (\<lambda>x. x)) (claim_round ck now2 deadline pk q)"
| "tq_handle (CallStatus ck pk rid d p) q = map_option (map_prod AnsUnit (\<lambda>x. x)) (apply_status ck pk rid d p q)"
| "tq_handle (CallComplete ck pk part) q = map_option (map_prod AnsUnit (\<lambda>x. x)) (apply_complete ck pk part q)"

fun call_clock :: "tq_call \<Rightarrow> tq_clock" where
  "call_clock (CallEnqueue ck _ _ _ _) = ck"
| "call_clock (CallClaim ck _ _ _) = ck"
| "call_clock (CallStatus ck _ _ _ _) = ck"
| "call_clock (CallComplete ck _ _) = ck"

inductive tq_run :: "TaskQueue \<Rightarrow> (tq_call \<times> tq_answer) list \<Rightarrow> TaskQueue \<Rightarrow> bool" where
  tq_run_nil: "tq_run q [] q"
| tq_run_snoc: "tq_run q tr q1 \<Longrightarrow> tq_handle c q1 = Some (a, q2) \<Longrightarrow> tq_run q (tr @ [(c, a)]) q2"

section \<open>The invariant\<close>

text \<open>
  The waiting list holds exactly the queued tasks, each once; a task has a worker and a lease exactly from its
  claim on, and is stored under its own id.
\<close>

definition entry_ok :: "string \<Rightarrow> TaskEntry \<Rightarrow> bool" where
  "entry_ok i e \<longleftrightarrow> be_request_id (te_envelope e) = i \<and>
     (te_claimant e = None \<longleftrightarrow> te_phase e = Queued \<or> te_phase e = Expired) \<and>
     (te_lease_until e = None \<longleftrightarrow> te_phase e = Queued \<or> te_phase e = Expired)"

definition tq_inv :: "TaskQueue \<Rightarrow> bool" where
  "tq_inv q \<longleftrightarrow> hm_ok (tq_tasks q) \<and> distinct (tq_deque q) \<and>
     (\<forall>i. i \<in> set (tq_deque q) \<longleftrightarrow> (\<exists>e. hm_get (tq_tasks q) i = Some e \<and> te_phase e = Queued)) \<and>
     (\<forall>i e. hm_get (tq_tasks q) i = Some e \<longrightarrow> entry_ok i e)"

lemma tq_invD:
  assumes "tq_inv q"
  shows "hm_ok (tq_tasks q)" "distinct (tq_deque q)"
    "i \<in> set (tq_deque q) \<Longrightarrow> \<exists>e. hm_get (tq_tasks q) i = Some e \<and> te_phase e = Queued"
    "hm_get (tq_tasks q) i = Some e \<Longrightarrow> te_phase e = Queued \<Longrightarrow> i \<in> set (tq_deque q)"
    "hm_get (tq_tasks q) i = Some e \<Longrightarrow> entry_ok i e"
  using assms by (auto simp: tq_inv_def)

lemma tq_inv_cong: "tq_tasks q' = tq_tasks q \<Longrightarrow> tq_deque q' = tq_deque q \<Longrightarrow> tq_inv q' = tq_inv q"
  by (simp add: tq_inv_def)

text \<open>Replacing an entry that is not waiting by another that is not.\<close>

lemma tq_inv_update:
  assumes "tq_inv q" "hm_get (tq_tasks q) i = Some e" "te_phase e \<noteq> Queued" "te_phase e' \<noteq> Queued" "entry_ok i e'"
    and "tq_tasks q' = hm_insert i e' (tq_tasks q)" "tq_deque q' = tq_deque q"
  shows "tq_inv q'"
proof -
  have "i \<in> set (tq_deque q) \<Longrightarrow> False" for i' using tq_invD(3) [OF assms(1), of i] assms(2,3) by auto
  then show ?thesis using assms by (auto simp: tq_inv_def)
qed

lemma hm_get_map_entries: "hm_get (map (\<lambda>(i, e). (i, f e)) m) i = map_option f (hm_get m i)"
  by (induction m) (auto simp: hm_get_def)

lemma hm_ok_map_entries: "hm_ok (map (\<lambda>(i, e). (i, f e)) m) = hm_ok m"
proof -
  have "map fst (map (\<lambda>(i, e). (i, f e)) m) = map fst m" by (simp add: comp_def split_def)
  then show ?thesis unfolding hm_ok_def by (rule arg_cong)
qed

lemma recycle_tasks:
  "hm_get (tq_tasks (recycle_expired_leases rank now q)) i =
     map_option (\<lambda>e. if lease_expired now e then requeued e else e) (hm_get (tq_tasks q) i)"
  "hm_ok (tq_tasks (recycle_expired_leases rank now q)) = hm_ok (tq_tasks q)"
  by (simp_all add: recycle_expired_leases_def Let_def hm_get_map_entries hm_ok_map_entries)

lemma set_expired_leases:
  "hm_ok m \<Longrightarrow> set (expired_leases rank now m) = {i. \<exists>e. hm_get m i = Some e \<and> lease_expired now e}"
  by (auto simp: expired_leases_def hm_get_def hm_ok_def image_iff)

lemma set_push_front: "set (fold push_front_new ids dq) = set ids \<union> set dq"
  by (induction ids arbitrary: dq) (auto simp: push_front_new_def)

lemma distinct_push_front: "distinct dq \<Longrightarrow> distinct (fold push_front_new ids dq)"
  by (induction ids arbitrary: dq) (auto simp: push_front_new_def)

lemma recycle_deque:
  "hm_ok (tq_tasks q) \<Longrightarrow> set (tq_deque (recycle_expired_leases rank now q)) =
     {i. \<exists>e. hm_get (tq_tasks q) i = Some e \<and> lease_expired now e} \<union> set (tq_deque q)"
  "distinct (tq_deque q) \<Longrightarrow> distinct (tq_deque (recycle_expired_leases rank now q))"
  by (simp_all add: recycle_expired_leases_def Let_def set_push_front set_expired_leases distinct_push_front)

lemma recycle_inv:
  assumes "tq_inv q"
  shows "tq_inv (recycle_expired_leases rank now q)"
  unfolding tq_inv_def
proof (intro conjI allI impI)
  note I = tq_invD [OF assms]
  show "hm_ok (tq_tasks (recycle_expired_leases rank now q))" "distinct (tq_deque (recycle_expired_leases rank now q))"
    by (simp_all add: recycle_tasks recycle_deque I)
  show "(i \<in> set (tq_deque (recycle_expired_leases rank now q))) =
      (\<exists>e. hm_get (tq_tasks (recycle_expired_leases rank now q)) i = Some e \<and> te_phase e = Queued)" for i
  proof (cases "hm_get (tq_tasks q) i")
    case None
    then show ?thesis using I(3) [of i] by (auto simp: recycle_deque I(1) recycle_tasks)
  next
    case (Some e)
    then have "i \<in> set (tq_deque q) \<longleftrightarrow> te_phase e = Queued" using I(3,4) [of i] by auto
    then show ?thesis using Some by (auto simp: recycle_deque I(1) recycle_tasks requeued_def)
  qed
  show "entry_ok i e" if "hm_get (tq_tasks (recycle_expired_leases rank now q)) i = Some e" for i e
    using that I(5) [of i] by (auto simp: recycle_tasks requeued_def entry_ok_def)
qed

lemma prune_same: "prune_all ck q = Some q' \<Longrightarrow> q' = recycle_expired_leases (ck_rank ck) (ck_recycle ck) q"
  by (auto simp: prune_all_def discard_ttl_expired_eq split: list.split_asm option.split_asm if_split_asm)

lemma prune_inv: "tq_inv q \<Longrightarrow> prune_all ck q = Some q' \<Longrightarrow> tq_inv q'"
  using prune_same recycle_inv by blast

lemma enqueue_inv:
  assumes inv: "tq_inv q0" and run: "enqueue ck id_ms rnd ms env q0 = Some (r, q')"
  shows "tq_inv q'"
proof -
  obtain q where q: "prune_all ck q0 = Some q" using run by (auto simp: enqueue_def split: option.split_asm)
  note I = prune_inv [OF inv q]
  let ?rid = "task_id id_ms rnd env"
  consider "q' = q" | "hm_get (tq_tasks q) ?rid = None"
      "tq_tasks q' = hm_insert ?rid (new_entry (tq_profile_id q) (ck_now ck) ms ?rid env) (tq_tasks q)" "tq_deque q' = tq_deque q @ [?rid]"
  proof (cases "tq_cap q \<le> length (tq_deque q) \<or> hm_contains (tq_tasks q) ?rid")
    case True
    then have "q' = q" using run by (simp add: enqueue_def q Let_def split: if_split_asm)
    then show ?thesis using that by blast
  next
    case False
    with run have "q' = q\<lparr>tq_tasks := hm_insert ?rid (new_entry (tq_profile_id q) (ck_now ck) ms ?rid env) (tq_tasks q),
        tq_deque := tq_deque q @ [?rid], tq_stats := (tq_stats q)\<lparr>st_submitted := st_submitted (tq_stats q) + 1\<rparr>\<rparr>"
      by (simp add: enqueue_def q Let_def)
    then show ?thesis using that False by (simp add: hm_contains_def)
  qed
  then show ?thesis
  proof cases
    case 2
    have "?rid \<notin> set (tq_deque q)" using tq_invD(3) [OF I, of ?rid] 2(1) by auto
    then show ?thesis using I 2 by (auto simp: tq_inv_def new_entry_def task_envelope_def entry_ok_def)
  qed (use I in simp)
qed

text \<open>Claiming: the front of the list is a queued task, so it is taken or expires.\<close>

lemma attempt_front:
  assumes inv: "tq_inv q" and dq: "tq_deque q = i # rest" and e: "hm_get (tq_tasks q) i = Some e"
  shows "te_phase e = Queued"
    "tq_ttl q < now - te_queued_at e \<Longrightarrow> \<exists>q'. attempt_claim_id now pk i (q\<lparr>tq_deque := rest\<rparr>) = (Skip, q') \<and> tq_inv q' \<and>
        tq_deque q' = rest \<and> tq_ttl q' = tq_ttl q \<and> tq_lease q' = tq_lease q \<and> tq_cap q' = tq_cap q \<and>
        tq_tasks q' = hm_insert i (e\<lparr>te_phase := Expired, te_terminal_error := Some ''queued_ttl_expired''\<rparr>) (tq_tasks q)"
    "\<not> tq_ttl q < now - te_queued_at e \<Longrightarrow> \<exists>q'. attempt_claim_id now pk i (q\<lparr>tq_deque := rest\<rparr>) = (Taken (te_envelope e), q') \<and> tq_inv q' \<and>
        tq_deque q' = rest \<and> tq_ttl q' = tq_ttl q \<and> tq_lease q' = tq_lease q \<and> tq_cap q' = tq_cap q \<and>
        tq_tasks q' = hm_insert i (e\<lparr>te_phase := Claimed, te_claimant := Some pk, te_lease_until := Some (now + tq_lease q)\<rparr>) (tq_tasks q)"
proof -
  note I = tq_invD [OF inv]
  show ph: "te_phase e = Queued" using I(3) [of i] dq e by auto
  have *: "tq_inv q'" if "tq_tasks q' = hm_insert i e' (tq_tasks q)" "tq_deque q' = rest" "te_phase e' \<noteq> Queued" "entry_ok i e'" for q' e'
  proof -
    have m: "j \<in> set (tq_deque q) \<longleftrightarrow> (\<exists>e. hm_get (tq_tasks q) j = Some e \<and> te_phase e = Queued)" for j using I(3,4) [of j] by blast
    have "i \<notin> set rest" "distinct rest" using I(2) dq by simp_all
    moreover have "(j \<in> set rest) = (\<exists>e. hm_get (tq_tasks q') j = Some e \<and> te_phase e = Queued)" for j
      using m [of j] \<open>i \<notin> set rest\<close> that(3) by (cases "j = i") (simp_all add: that(1) dq)
    moreover have "entry_ok j f" if "hm_get (tq_tasks q') j = Some f" for j f
      using that I(5) [of j f] \<open>entry_ok i e'\<close> \<open>tq_tasks q' = hm_insert i e' (tq_tasks q)\<close> by (cases "j = i") simp_all
    ultimately show ?thesis using I(1) that(1,2) by (simp add: tq_inv_def)
  qed
  have "entry_ok i e" using I(5) e by blast
  then show "tq_ttl q < now - te_queued_at e \<Longrightarrow> \<exists>q'. attempt_claim_id now pk i (q\<lparr>tq_deque := rest\<rparr>) = (Skip, q') \<and> tq_inv q' \<and>
        tq_deque q' = rest \<and> tq_ttl q' = tq_ttl q \<and> tq_lease q' = tq_lease q \<and> tq_cap q' = tq_cap q \<and>
        tq_tasks q' = hm_insert i (e\<lparr>te_phase := Expired, te_terminal_error := Some ''queued_ttl_expired''\<rparr>) (tq_tasks q)"
    using e ph by (auto simp: attempt_claim_id_def entry_ok_def intro!: *)
  from \<open>entry_ok i e\<close> show "\<not> tq_ttl q < now - te_queued_at e \<Longrightarrow> \<exists>q'. attempt_claim_id now pk i (q\<lparr>tq_deque := rest\<rparr>) = (Taken (te_envelope e), q') \<and> tq_inv q' \<and>
        tq_deque q' = rest \<and> tq_ttl q' = tq_ttl q \<and> tq_lease q' = tq_lease q \<and> tq_cap q' = tq_cap q \<and>
        tq_tasks q' = hm_insert i (e\<lparr>te_phase := Claimed, te_claimant := Some pk, te_lease_until := Some (now + tq_lease q)\<rparr>) (tq_tasks q)"
    using e ph by (auto simp: attempt_claim_id_def entry_ok_def intro!: *)
qed

text \<open>The outcome of a claim: some waiting tasks expire and the first fresh one, if any, is taken.\<close>

definition claim_effect :: "nat \<Rightarrow> bytes \<Rightarrow> TaskQueue \<Rightarrow> BusRequestEnvelope option \<Rightarrow> TaskQueue \<Rightarrow> bool" where
  "claim_effect now pk q r q' \<longleftrightarrow> tq_inv q' \<and> tq_ttl q' = tq_ttl q \<and> tq_lease q' = tq_lease q \<and> tq_cap q' = tq_cap q \<and>
     hm_keys (tq_tasks q') = hm_keys (tq_tasks q) \<and>
     (\<forall>i e. hm_get (tq_tasks q) i = Some e \<longrightarrow> te_phase e \<noteq> Queued \<longrightarrow> hm_get (tq_tasks q') i = Some e) \<and>
     (\<forall>i e'. hm_get (tq_tasks q') i = Some e' \<longrightarrow> (\<exists>e. hm_get (tq_tasks q) i = Some e \<and> te_queued_at e' = te_queued_at e \<and>
        (te_lease_until e' = te_lease_until e \<or> te_lease_until e' = Some (now + tq_lease q)) \<and> te_envelope e' = te_envelope e)) \<and>
     (case r of
        None \<Rightarrow> tq_deque q' = []
      | Some env \<Rightarrow> \<exists>i e. hm_get (tq_tasks q) i = Some e \<and> te_phase e = Queued \<and> env = te_envelope e \<and> i = be_request_id env \<and>
          hm_get (tq_tasks q') i = Some (e\<lparr>te_phase := Claimed, te_claimant := Some pk, te_lease_until := Some (now + tq_lease q)\<rparr>)) \<and>
     (\<exists>gone. tq_deque q = gone @ (case r of None \<Rightarrow> [] | Some env \<Rightarrow> [be_request_id env]) @ tq_deque q' \<and>
        (\<forall>i \<in> set gone. \<exists>e. hm_get (tq_tasks q) i = Some e \<and> tq_ttl q < now - te_queued_at e))"

lemma try_claim_effect: "tq_inv q \<Longrightarrow> \<exists>r q'. try_claim_one now pk q = Some (r, q') \<and> claim_effect now pk q r q'"
proof (induction "tq_deque q" arbitrary: q)
  case Nil
  then show ?case by (subst try_claim_one.simps) (auto simp: claim_effect_def)
next
  case (Cons i rest)
  then obtain e where e: "hm_get (tq_tasks q) i = Some e" using tq_invD(3) [of q i] by (metis list.set_intros(1))
  note F = attempt_front [OF Cons.prems Cons.hyps(2) [symmetric] e]
  have id: "be_request_id (te_envelope e) = i" using tq_invD(5) [OF Cons.prems e] by (simp add: entry_ok_def)
  show ?case
  proof (cases "tq_ttl q < now - te_queued_at e")
    case True
    then obtain q1 where q1: "attempt_claim_id now pk i (q\<lparr>tq_deque := rest\<rparr>) = (Skip, q1)" "tq_inv q1" "tq_deque q1 = rest"
      "tq_ttl q1 = tq_ttl q" "tq_lease q1 = tq_lease q" "tq_cap q1 = tq_cap q"
      "tq_tasks q1 = hm_insert i (e\<lparr>te_phase := Expired, te_terminal_error := Some ''queued_ttl_expired''\<rparr>) (tq_tasks q)"
      using F(2) by blast
    obtain r q' where r: "try_claim_one now pk q1 = Some (r, q')" "claim_effect now pk q1 r q'"
      using Cons.hyps(1) [OF q1(3) [symmetric] q1(2)] by blast
    have t: "try_claim_one now pk q = Some (r, q')"
      using r(1) q1(1) by (subst try_claim_one.simps) (simp add: Cons.hyps(2) [symmetric])
    have "i \<notin> set rest" using tq_invD(2) [OF Cons.prems] Cons.hyps(2) by (metis distinct.simps(2))
    obtain gone where d: "rest = gone @ (case r of None \<Rightarrow> [] | Some env \<Rightarrow> [be_request_id env]) @ tq_deque q'"
        "\<forall>j \<in> set gone. \<exists>e. hm_get (tq_tasks q1) j = Some e \<and> tq_ttl q1 < now - te_queued_at e"
      using r(2) q1(3) by (auto simp: claim_effect_def)
    have D: "\<exists>gone. tq_deque q = gone @ (case r of None \<Rightarrow> [] | Some env \<Rightarrow> [be_request_id env]) @ tq_deque q' \<and>
        (\<forall>i \<in> set gone. \<exists>e. hm_get (tq_tasks q) i = Some e \<and> tq_ttl q < now - te_queued_at e)"
    proof (intro exI conjI)
      show "tq_deque q = (i # gone) @ (case r of None \<Rightarrow> [] | Some env \<Rightarrow> [be_request_id env]) @ tq_deque q'"
        using d(1) Cons.hyps(2) by simp
      show "\<forall>j \<in> set (i # gone). \<exists>e. hm_get (tq_tasks q) j = Some e \<and> tq_ttl q < now - te_queued_at e"
        using d \<open>i \<notin> set rest\<close> e True q1(4,7) by (auto split: if_split_asm)
    qed
    note c = r(2) [unfolded claim_effect_def q1(4-7)]
    have keep: "hm_get (tq_tasks q') j = Some f" if "hm_get (tq_tasks q) j = Some f" "te_phase f \<noteq> Queued" for j f
    proof -
      have "j \<noteq> i" using that F(1) e by auto
      then have "hm_get (hm_insert i (e\<lparr>te_phase := Expired, te_terminal_error := Some ''queued_ttl_expired''\<rparr>) (tq_tasks q)) j = Some f"
        using that(1) by simp
      then show ?thesis using c that(2) by blast
    qed
    have orig: "\<exists>f. hm_get (tq_tasks q) j = Some f \<and> te_queued_at f' = te_queued_at f \<and>
        (te_lease_until f' = te_lease_until f \<or> te_lease_until f' = Some (now + tq_lease q)) \<and> te_envelope f' = te_envelope f" if g: "hm_get (tq_tasks q') j = Some f'" for j f'
    proof -
      obtain f where f: "hm_get (hm_insert i (e\<lparr>te_phase := Expired, te_terminal_error := Some ''queued_ttl_expired''\<rparr>) (tq_tasks q)) j = Some f"
        "te_queued_at f' = te_queued_at f" "te_lease_until f' = te_lease_until f \<or> te_lease_until f' = Some (now + tq_lease q)"
        "te_envelope f' = te_envelope f"
        using c g by blast
      then show ?thesis using e by (cases "j = i") auto
    qed
    have "case r of
        None \<Rightarrow> tq_deque q' = []
      | Some env \<Rightarrow> \<exists>i e. hm_get (tq_tasks q) i = Some e \<and> te_phase e = Queued \<and> env = te_envelope e \<and> i = be_request_id env \<and>
          hm_get (tq_tasks q') i = Some (e\<lparr>te_phase := Claimed, te_claimant := Some pk, te_lease_until := Some (now + tq_lease q)\<rparr>)"
    proof (cases r)
      case None
      then show ?thesis using c by simp
    next
      case (Some env)
      then obtain j f where j: "hm_get (hm_insert i (e\<lparr>te_phase := Expired, te_terminal_error := Some ''queued_ttl_expired''\<rparr>) (tq_tasks q)) j = Some f"
          "te_phase f = Queued" "env = te_envelope f" "j = be_request_id env"
          "hm_get (tq_tasks q') j = Some (f\<lparr>te_phase := Claimed, te_claimant := Some pk, te_lease_until := Some (now + tq_lease q)\<rparr>)"
        using c by auto
      from j(1,2) have "hm_get (tq_tasks q) j = Some f" by (auto split: if_split_asm)
      with j Some show ?thesis by auto
    qed
    moreover have "hm_keys (tq_tasks q') = hm_keys (tq_tasks q)" using c e by (auto simp: hm_keys_get)
    ultimately have "claim_effect now pk q r q'" using c keep orig D unfolding claim_effect_def by blast
    with t show ?thesis by blast
  next
    case False
    then obtain q1 where q1: "attempt_claim_id now pk i (q\<lparr>tq_deque := rest\<rparr>) = (Taken (te_envelope e), q1)" "tq_inv q1" "tq_deque q1 = rest"
      "tq_ttl q1 = tq_ttl q" "tq_lease q1 = tq_lease q" "tq_cap q1 = tq_cap q"
      "tq_tasks q1 = hm_insert i (e\<lparr>te_phase := Claimed, te_claimant := Some pk, te_lease_until := Some (now + tq_lease q)\<rparr>) (tq_tasks q)"
      using F(3) by blast
    have t: "try_claim_one now pk q = Some (Some (te_envelope e), q1\<lparr>tq_stats := (tq_stats q1)\<lparr>st_claimed := st_claimed (tq_stats q1) + 1\<rparr>\<rparr>)"
      using q1(1) by (subst try_claim_one.simps) (simp add: Cons.hyps(2) [symmetric])
    have "tq_inv (q1\<lparr>tq_stats := (tq_stats q1)\<lparr>st_claimed := st_claimed (tq_stats q1) + 1\<rparr>\<rparr>)"
      using tq_inv_cong [of "q1\<lparr>tq_stats := (tq_stats q1)\<lparr>st_claimed := st_claimed (tq_stats q1) + 1\<rparr>\<rparr>" q1] q1(2) by simp
    then have "claim_effect now pk q (Some (te_envelope e)) (q1\<lparr>tq_stats := (tq_stats q1)\<lparr>st_claimed := st_claimed (tq_stats q1) + 1\<rparr>\<rparr>)"
      unfolding claim_effect_def using q1(3-7) F(1) e id by (auto simp: Cons.hyps(2) [symmetric] hm_keys_get)
    with t show ?thesis by blast
  qed
qed

lemma worker_not_waiting: "entry_ok i e \<Longrightarrow> te_claimant e = Some pk \<Longrightarrow> te_phase e \<noteq> Queued \<and> te_phase e \<noteq> Expired \<and> te_lease_until e \<noteq> None"
  by (auto simp: entry_ok_def)

text \<open>
  What a call on an existing task does to it: the entry is the worker's, stays out of the waiting list and keeps
  its worker and lease.
\<close>

definition worker_update :: "bytes \<Rightarrow> string \<Rightarrow> TaskEntry \<Rightarrow> TaskEntry \<Rightarrow> bool" where
  "worker_update pk i e e' \<longleftrightarrow> te_claimant e = Some pk \<and> te_claimant e' = Some pk \<and> te_lease_until e' = te_lease_until e \<and>
     te_envelope e' = te_envelope e \<and> te_queued_at e' = te_queued_at e \<and>
     te_phase e' \<in> {te_phase e, Running, Completed, Failed} \<and>
     (te_phase e' = Running \<longrightarrow> te_phase e = Claimed \<or> te_phase e = Running)"

lemma worker_update_ok: "worker_update pk i e e' \<Longrightarrow> entry_ok i e \<Longrightarrow> entry_ok i e' \<and> te_phase e' \<noteq> Queued"
  by (auto simp: worker_update_def entry_ok_def)

lemma apply_status_cases:
  assumes "apply_status ck pk request_id detail pct q0 = Some (r, q')"
  obtains "q' = q0" | "prune_all ck q0 = Some q'"
  | q e e' where "prune_all ck q0 = Some q" "hm_get (tq_tasks q) (trim request_id) = Some e"
      "tq_tasks q' = hm_insert (trim request_id) e' (tq_tasks q)" "tq_deque q' = tq_deque q"
      "tq_ttl q' = tq_ttl q" "tq_lease q' = tq_lease q" "tq_cap q' = tq_cap q" "worker_update pk (trim request_id) e e'"
proof (cases "trim request_id = []")
  case True
  then show thesis using assms that(1) by (auto simp: apply_status_def)
next
  case False
  then have "prune_all ck q0 \<noteq> None" using assms by (intro notI) (simp add: apply_status_def Let_def)
  then obtain q where q: "prune_all ck q0 = Some q" by blast
  show thesis
  proof (cases "hm_get (tq_tasks q) (trim request_id)")
    case None
    then show thesis using assms that(2) q False by (auto simp: apply_status_def)
  next
    case (Some e)
    show thesis
    proof (cases "q' = q")
      case True
      then show thesis using that(2) q by blast
    next
      case ne: False
      let ?e' = "e\<lparr>te_phase := Running, te_detail := detail, te_progress_pct := pct\<rparr>"
      have c: "te_claimant e = Some pk" "te_phase e = Claimed \<or> te_phase e = Running"
        "q' = q\<lparr>tq_tasks := hm_insert (trim request_id) ?e' (tq_tasks q),
           tq_stats := (tq_stats q)\<lparr>st_status_updates := st_status_updates (tq_stats q) + 1\<rparr>\<rparr>"
        using assms False ne by (simp_all add: apply_status_def q Some split: if_split_asm)
      show thesis by (rule that(3) [OF q Some, of ?e']) (use c in \<open>auto simp: worker_update_def\<close>)
    qed
  qed
qed

lemma apply_complete_cases:
  assumes "apply_complete ck pk part q0 = Some (r, q')"
  obtains "q' = q0" | "prune_all ck q0 = Some q'"
  | q e e' where "prune_all ck q0 = Some q" "hm_get (tq_tasks q) (trim (tk_request_id part)) = Some e"
      "tq_tasks q' = hm_insert (trim (tk_request_id part)) e' (tq_tasks q)" "tq_deque q' = tq_deque q"
      "tq_ttl q' = tq_ttl q" "tq_lease q' = tq_lease q" "tq_cap q' = tq_cap q" "worker_update pk (trim (tk_request_id part)) e e'"
proof (cases "trim (tk_request_id part) = []")
  case True
  then show thesis using assms that(1) by (auto simp: apply_complete_def)
next
  case False
  then have "prune_all ck q0 \<noteq> None" using assms by (intro notI) (simp add: apply_complete_def Let_def)
  then obtain q where q: "prune_all ck q0 = Some q" by blast
  show thesis
  proof (cases "hm_get (tq_tasks q) (trim (tk_request_id part))")
    case None
    then show thesis using assms that(2) q False by (auto simp: apply_complete_def)
  next
    case (Some e)
    show thesis
    proof (cases "te_claimant e = Some pk")
      case c: True
      consider "tq_tasks q' = hm_insert (trim (tk_request_id part)) (fail_entry part e) (tq_tasks q)"
        | "tq_tasks q' = hm_insert (trim (tk_request_id part)) (take_part part e) (tq_tasks q)"
        | "tq_tasks q' = hm_insert (trim (tk_request_id part)) (finish_entry (take_part part e)) (tq_tasks q)"
        using assms False c by (simp add: apply_complete_def q Some Let_def split: if_split_asm) fastforce+
      then obtain e' where e': "tq_tasks q' = hm_insert (trim (tk_request_id part)) e' (tq_tasks q)" "worker_update pk (trim (tk_request_id part)) e e'"
        by cases (use c in \<open>auto simp: worker_update_def fail_entry_def take_part_def finish_entry_def\<close>)
      have "tq_deque q' = tq_deque q" "tq_ttl q' = tq_ttl q" "tq_lease q' = tq_lease q" "tq_cap q' = tq_cap q"
        using assms False c by (simp_all add: apply_complete_def q Some Let_def split: if_split_asm) fastforce+
      then show thesis using that(3) [OF q Some e'(1)] e'(2) by blast
    next
      case False
      then show thesis using assms that(2) q \<open>trim (tk_request_id part) \<noteq> []\<close> by (simp add: apply_complete_def Some)
    qed
  qed
qed

lemma claim_round_cases:
  assumes inv: "tq_inv q0" and run: "claim_round ck now2 deadline pk q0 = Some (r, q')"
  obtains q where "prune_all ck q0 = Some q"
    "claim_effect (ck_now ck) pk q (case r of ClaimGot env \<Rightarrow> Some env | _ \<Rightarrow> None) q'"
proof -
  have "prune_all ck q0 \<noteq> None" using run by (intro notI) (simp add: claim_round_def)
  then obtain q where q: "prune_all ck q0 = Some q" by blast
  obtain x q1 where x: "try_claim_one (ck_now ck) pk q = Some (x, q1)" "claim_effect (ck_now ck) pk q x q1"
    using try_claim_effect [OF prune_inv [OF inv q]] by blast
  have s: "claim_effect (ck_now ck) pk q x (q1\<lparr>tq_stats := s\<rparr>)" for s
  proof -
    have "claim_effect (ck_now ck) pk q x (q1\<lparr>tq_stats := s\<rparr>) = claim_effect (ck_now ck) pk q x q1"
      using tq_inv_cong [of "q1\<lparr>tq_stats := s\<rparr>" q1] by (simp add: claim_effect_def cong: option.case_cong)
    then show ?thesis using x(2) by simp
  qed
  show thesis
  proof (rule that [OF q], cases x)
    case None
    then show "claim_effect (ck_now ck) pk q (case r of ClaimGot env \<Rightarrow> Some env | _ \<Rightarrow> None) q'"
      using run x s by (simp add: claim_round_def q split: if_split_asm) fastforce+
  next
    case (Some env)
    then show "claim_effect (ck_now ck) pk q (case r of ClaimGot env \<Rightarrow> Some env | _ \<Rightarrow> None) q'"
      using run x by (simp add: claim_round_def q) fastforce
  qed
qed

lemma enqueue_cases:
  assumes run: "enqueue ck id_ms rnd ms env q0 = Some (r, q')"
  obtains e where "prune_all ck q0 = Some q'" "r = Inl e"
  | q where "prune_all ck q0 = Some q" "r = Inr (task_id id_ms rnd env)" "hm_get (tq_tasks q) (task_id id_ms rnd env) = None"
      "length (tq_deque q) < tq_cap q"
      "tq_tasks q' = hm_insert (task_id id_ms rnd env) (new_entry (tq_profile_id q) (ck_now ck) ms (task_id id_ms rnd env) env) (tq_tasks q)"
      "tq_deque q' = tq_deque q @ [task_id id_ms rnd env]" "tq_ttl q' = tq_ttl q" "tq_lease q' = tq_lease q" "tq_cap q' = tq_cap q"
proof -
  have "prune_all ck q0 \<noteq> None" using run by (intro notI) (simp add: enqueue_def)
  then obtain q where q: "prune_all ck q0 = Some q" by blast
  show thesis
  proof (cases "tq_cap q \<le> length (tq_deque q) \<or> hm_contains (tq_tasks q) (task_id id_ms rnd env)")
    case True
    then have "q' = q" "\<exists>e. r = Inl e" using run by (simp_all add: enqueue_def q Let_def split: if_split_asm) fastforce+
    then show thesis using that(1) q by blast
  next
    case False
    with run show thesis by (intro that(2) [OF q]) (simp_all add: enqueue_def q Let_def hm_contains_def, fastforce+)
  qed
qed

lemma prune_keeps: "prune_all ck q0 = Some q \<Longrightarrow> tq_ttl q = tq_ttl q0 \<and> tq_lease q = tq_lease q0 \<and> tq_cap q = tq_cap q0"
  by (drule prune_same) (simp add: recycle_expired_leases_def Let_def)

text \<open>A task whose lease lasts is left alone by the pruning.\<close>

lemma prune_lease:
  assumes "prune_all ck q0 = Some q" "hm_get (tq_tasks q0) i = Some e" "te_lease_until e = Some T" "ck_recycle ck \<le> T"
  shows "hm_get (tq_tasks q) i = Some e"
  using prune_same [OF assms(1)] assms(2-) by (simp add: recycle_tasks lease_expired_def)

lemma handle_inv:
  assumes inv: "tq_inv q0" and run: "tq_handle c q0 = Some (a, q')"
  shows "tq_inv q'"
proof (cases c)
  case (CallEnqueue ck id_ms rnd ms env)
  then show ?thesis using run enqueue_inv [OF inv] by (auto)
next
  case (CallClaim ck now2 deadline pk)
  then obtain r where "claim_round ck now2 deadline pk q0 = Some (r, q')" using run by auto
  then show ?thesis by (rule claim_round_cases [OF inv]) (simp add: claim_effect_def)
next
  case (CallStatus ck pk rid d p)
  then obtain r where "apply_status ck pk rid d p q0 = Some (r, q')" using run by auto
  then show ?thesis
  proof (cases rule: apply_status_cases)
    case (3 q e e')
    note I = prune_inv [OF inv 3(1)]
    have e: "entry_ok (trim rid) e" using tq_invD(5) [OF I] 3(2) .
    have "te_phase e \<noteq> Queued" using 3(8) worker_not_waiting [OF e] by (simp add: worker_update_def)
    then show ?thesis using tq_inv_update [OF I 3(2) _ _ _ 3(3,4)] worker_update_ok [OF 3(8) e] by blast
  qed (use inv prune_inv in auto)
next
  case (CallComplete ck pk part)
  then obtain r where "apply_complete ck pk part q0 = Some (r, q')" using run by auto
  then show ?thesis
  proof (cases rule: apply_complete_cases)
    case (3 q e e')
    note I = prune_inv [OF inv 3(1)]
    have e: "entry_ok (trim (tk_request_id part)) e" using tq_invD(5) [OF I] 3(2) .
    have "te_phase e \<noteq> Queued" using 3(8) worker_not_waiting [OF e] by (simp add: worker_update_def)
    then show ?thesis using tq_inv_update [OF I 3(2) _ _ _ 3(3,4)] worker_update_ok [OF 3(8) e] by blast
  qed (use inv prune_inv in auto)
qed

lemma prune_keys: "prune_all ck q0 = Some q \<Longrightarrow> hm_keys (tq_tasks q) = hm_keys (tq_tasks q0)"
  by (drule prune_same) (simp add: hm_keys_get recycle_tasks)

text \<open>What every call keeps: the parameters of the queue and the ids it knows.\<close>

lemma handle_keeps:
  assumes inv: "tq_inv q0" and run: "tq_handle c q0 = Some (a, q')"
  shows "tq_ttl q' = tq_ttl q0 \<and> tq_lease q' = tq_lease q0 \<and> tq_cap q' = tq_cap q0 \<and> hm_keys (tq_tasks q0) \<subseteq> hm_keys (tq_tasks q')"
proof (cases c)
  case (CallEnqueue ck id_ms rnd ms env)
  then obtain r where "enqueue ck id_ms rnd ms env q0 = Some (r, q')" using run by auto
  then show ?thesis by (cases rule: enqueue_cases) (use prune_keeps prune_keys in \<open>fastforce+\<close>)
next
  case (CallClaim ck now2 deadline pk)
  then obtain r where "claim_round ck now2 deadline pk q0 = Some (r, q')" using run by auto
  then show ?thesis
  proof (rule claim_round_cases [OF inv])
    fix q assume "prune_all ck q0 = Some q" "claim_effect (ck_now ck) pk q (case r of ClaimGot env \<Rightarrow> Some env | _ \<Rightarrow> None) q'"
    then show ?thesis using prune_keeps prune_keys by (simp add: claim_effect_def)
  qed
next
  case (CallStatus ck pk rid d p)
  then obtain r where "apply_status ck pk rid d p q0 = Some (r, q')" using run by auto
  then show ?thesis by (cases rule: apply_status_cases) (use prune_keeps prune_keys in \<open>fastforce+\<close>)
next
  case (CallComplete ck pk part)
  then obtain r where "apply_complete ck pk part q0 = Some (r, q')" using run by auto
  then show ?thesis by (cases rule: apply_complete_cases) (use prune_keeps prune_keys in \<open>fastforce+\<close>)
qed

lemma new_inv: "tq_inv (TaskQueue_new profile cap ttl lease)"
  by (simp add: tq_inv_def TaskQueue_new_def)

lemma tq_run_keeps:
  assumes "tq_run q tr q'" "tq_inv q"
  shows "tq_inv q' \<and> tq_ttl q' = tq_ttl q \<and> tq_lease q' = tq_lease q \<and> tq_cap q' = tq_cap q \<and> hm_keys (tq_tasks q) \<subseteq> hm_keys (tq_tasks q')"
  using assms
proof (induction rule: tq_run.induct)
  case (tq_run_snoc q tr q1 c a q2)
  then show ?case using handle_inv [of q1 c a q2] handle_keeps [of q1 c a q2] by auto
qed simp

text \<open>No call touches the request of a task it finds in the map.\<close>

lemma prune_envelope:
  "prune_all ck q0 = Some q \<Longrightarrow> map_option te_envelope (hm_get (tq_tasks q) i) = map_option te_envelope (hm_get (tq_tasks q0) i)"
  by (drule prune_same) (simp add: recycle_tasks option.map_comp comp_def requeued_def if_distrib [of te_envelope] cong: if_cong)

lemma worker_envelope:
  assumes "prune_all ck q0 = Some q" "hm_get (tq_tasks q) j = Some e" "tq_tasks q' = hm_insert j e' (tq_tasks q)" "worker_update pk j e e'"
  shows "map_option te_envelope (hm_get (tq_tasks q') i) = map_option te_envelope (hm_get (tq_tasks q0) i)"
  using prune_envelope [OF assms(1), of i] assms(2-4) by (auto simp: worker_update_def)

lemma claim_envelope:
  assumes "prune_all ck q0 = Some q" "claim_effect now pk q r q'"
  shows "map_option te_envelope (hm_get (tq_tasks q') i) = map_option te_envelope (hm_get (tq_tasks q0) i)"
proof (cases "hm_get (tq_tasks q') i")
  case None
  have "hm_keys (tq_tasks q') = hm_keys (tq_tasks q)" using assms(2) by (simp add: claim_effect_def)
  moreover have "i \<notin> hm_keys (tq_tasks q')" using None by (simp add: hm_keys_get)
  ultimately have "i \<notin> hm_keys (tq_tasks q)" by simp
  then show ?thesis using None prune_envelope [OF assms(1), of i] by (auto simp: hm_keys_get)
next
  case (Some e')
  then obtain e where "hm_get (tq_tasks q) i = Some e" "te_envelope e' = te_envelope e"
    using assms(2) unfolding claim_effect_def by blast
  then show ?thesis using Some prune_envelope [OF assms(1), of i] by simp
qed

lemma handle_envelope:
  assumes inv: "tq_inv q0" and run: "tq_handle c q0 = Some (a, q')" and known: "map_option te_envelope (hm_get (tq_tasks q0) i) = Some env"
  shows "map_option te_envelope (hm_get (tq_tasks q') i) = Some env"
proof (cases c)
  case (CallEnqueue ck id_ms rnd ms x)
  then obtain r where "enqueue ck id_ms rnd ms x q0 = Some (r, q')" using run by auto
  then show ?thesis
  proof (cases rule: enqueue_cases)
    case 1
    then show ?thesis using prune_envelope known by metis
  next
    case (2 q)
    have k: "map_option te_envelope (hm_get (tq_tasks q) i) = Some env" using prune_envelope [OF 2(1), of i] known by simp
    then have "i \<noteq> task_id id_ms rnd x" using 2(3) by auto
    then show ?thesis using k 2(5) by simp
  qed
next
  case (CallClaim ck now2 deadline pk)
  then obtain r where "claim_round ck now2 deadline pk q0 = Some (r, q')" using run by auto
  then show ?thesis by (rule claim_round_cases [OF inv]) (use claim_envelope known in metis)
next
  case (CallStatus ck pk rid d p)
  then obtain r where "apply_status ck pk rid d p q0 = Some (r, q')" using run by auto
  then show ?thesis
  proof (cases rule: apply_status_cases)
    case (3 q e e')
    then show ?thesis using worker_envelope [OF 3(1,2,3,8)] known by simp
  qed (use known prune_envelope in metis)+
next
  case (CallComplete ck pk part)
  then obtain r where "apply_complete ck pk part q0 = Some (r, q')" using run by auto
  then show ?thesis
  proof (cases rule: apply_complete_cases)
    case (3 q e e')
    then show ?thesis using worker_envelope [OF 3(1,2,3,8)] known by simp
  qed (use known prune_envelope in metis)+
qed

lemma run_submitted:
  assumes "tq_run q tr q'" "tq_inv q" "(CallEnqueue ck id_ms rnd ms env, AnsEnqueue (Inr rid)) \<in> set tr"
  shows "rid = task_id id_ms rnd env \<and> map_option te_envelope (hm_get (tq_tasks q') rid) = Some (task_envelope ms rid env)"
  using assms
proof (induction rule: tq_run.induct)
  case (tq_run_snoc q tr q1 d a q2)
  have inv: "tq_inv q1" using tq_run_keeps [OF tq_run_snoc(1,4)] by simp
  show ?case
  proof (cases "(CallEnqueue ck id_ms rnd ms env, AnsEnqueue (Inr rid)) \<in> set tr")
    case True
    then show ?thesis using tq_run_snoc handle_envelope [OF inv tq_run_snoc(2)] by blast
  next
    case False
    then have "d = CallEnqueue ck id_ms rnd ms env" "a = AnsEnqueue (Inr rid)" using tq_run_snoc(5) by auto
    then have "enqueue ck id_ms rnd ms env q1 = Some (Inr rid, q2)" using tq_run_snoc(2) by auto
    then show ?thesis by (cases rule: enqueue_cases) (auto simp: new_entry_def)
  qed
qed simp

text \<open>
  The lost task. A pass that looked at one task while another call replaced the front of the list drops the new
  front: it stays queued in the map but no worker can be given it, which the invariant excludes as long as the
  methods of the queue do not overlap.
\<close>

lemma overlapping_discard_loses:
  assumes "tq_inv q" "tq_deque q = j # rest" "j \<noteq> i"
  shows "\<exists>q' e. discard_pop i q = DiscardAgain q' \<and> hm_get (tq_tasks q') j = Some e \<and> te_phase e = Queued \<and> j \<notin> set (tq_deque q')"
  using tq_invD(2) [OF assms(1)] tq_invD(3) [OF assms(1), of j] assms(2,3) by (auto simp: discard_pop_def)

section \<open>Leases\<close>

definition held :: "string \<Rightarrow> bytes \<Rightarrow> nat \<Rightarrow> TaskQueue \<Rightarrow> bool" where
  "held i pk T q \<longleftrightarrow> (\<exists>e. hm_get (tq_tasks q) i = Some e \<and> te_claimant e = Some pk \<and> te_lease_until e = Some T)"

lemma held_pruned: "prune_all ck q0 = Some q \<Longrightarrow> held i pk T q0 \<Longrightarrow> ck_recycle ck \<le> T \<Longrightarrow> held i pk T q"
  unfolding held_def using prune_lease by blast

lemma held_kept:
  assumes inv: "tq_inv q0" and run: "tq_handle c q0 = Some (a, q')" and h: "held i pk T q0" and ck: "ck_recycle (call_clock c) \<le> T"
  shows "held i pk T q'"
proof (cases c)
  case (CallEnqueue ck id_ms rnd ms env)
  then obtain r where "enqueue ck id_ms rnd ms env q0 = Some (r, q')" using run by auto
  then show ?thesis
    by (cases rule: enqueue_cases) (use held_pruned [OF _ h] ck CallEnqueue in \<open>fastforce simp: held_def\<close>)+
next
  case (CallClaim ck now2 deadline w)
  then obtain r where "claim_round ck now2 deadline w q0 = Some (r, q')" using run by auto
  then obtain q where q: "prune_all ck q0 = Some q" "claim_effect (ck_now ck) w q (case r of ClaimGot env \<Rightarrow> Some env | _ \<Rightarrow> None) q'"
    by (rule claim_round_cases [OF inv])
  then obtain e where e: "hm_get (tq_tasks q) i = Some e" "te_claimant e = Some pk" "te_lease_until e = Some T"
    using held_pruned [OF q(1) h] CallClaim ck by (auto simp: held_def)
  have "te_phase e \<noteq> Queued" using worker_not_waiting [OF tq_invD(5) [OF prune_inv [OF inv q(1)] e(1)] e(2)] by simp
  then show ?thesis using q(2) e by (auto simp: claim_effect_def held_def)
next
  case (CallStatus ck w rid d p)
  then obtain r where "apply_status ck w rid d p q0 = Some (r, q')" using run by auto
  then show ?thesis
    by (cases rule: apply_status_cases)
      (use h held_pruned [OF _ h] ck CallStatus in \<open>fastforce simp: held_def worker_update_def\<close>)+
next
  case (CallComplete ck w part)
  then obtain r where "apply_complete ck w part q0 = Some (r, q')" using run by auto
  then show ?thesis
    by (cases rule: apply_complete_cases)
      (use h held_pruned [OF _ h] ck CallComplete in \<open>fastforce simp: held_def worker_update_def\<close>)+
qed

text \<open>A call that hands the task out again or lets another worker change it.\<close>

fun intrudes :: "string \<Rightarrow> bytes \<Rightarrow> tq_call \<times> tq_answer \<Rightarrow> bool" where
  "intrudes i pk (CallClaim _ _ _ _, AnsClaim (ClaimGot env)) = (be_request_id env = i)"
| "intrudes i pk (CallStatus _ w rid _ _, AnsUnit (Inr _)) = (trim rid = i \<and> w \<noteq> pk)"
| "intrudes i pk (CallComplete _ w part, AnsUnit (Inr _)) = (trim (tk_request_id part) = i \<and> w \<noteq> pk)"
| "intrudes i pk _ = False"

lemma status_ok_owner:
  assumes "apply_status ck w rid d p q0 = Some (Inr (), q')"
  shows "\<exists>q e. prune_all ck q0 = Some q \<and> hm_get (tq_tasks q) (trim rid) = Some e \<and> te_claimant e = Some w"
proof -
  have n: "trim rid \<noteq> []" using assms by (auto simp: apply_status_def)
  then have "prune_all ck q0 \<noteq> None" using assms by (intro notI) (simp add: apply_status_def Let_def)
  then obtain q where q: "prune_all ck q0 = Some q" by blast
  then show ?thesis using assms n by (cases "hm_get (tq_tasks q) (trim rid)") (auto simp: apply_status_def Let_def split: if_split_asm)
qed

lemma complete_ok_owner:
  assumes "apply_complete ck w part q0 = Some (Inr (), q')"
  shows "\<exists>q e. prune_all ck q0 = Some q \<and> hm_get (tq_tasks q) (trim (tk_request_id part)) = Some e \<and> te_claimant e = Some w"
proof -
  have n: "trim (tk_request_id part) \<noteq> []" using assms by (auto simp: apply_complete_def)
  then have "prune_all ck q0 \<noteq> None" using assms by (intro notI) (simp add: apply_complete_def Let_def)
  then obtain q where q: "prune_all ck q0 = Some q" by blast
  then obtain e where e: "hm_get (tq_tasks q) (trim (tk_request_id part)) = Some e"
    using assms n by (cases "hm_get (tq_tasks q) (trim (tk_request_id part))") (simp_all add: apply_complete_def Let_def)
  then have "te_claimant e = Some w" using assms n by (cases "te_claimant e = Some w") (simp_all add: apply_complete_def Let_def q)
  with q e show ?thesis by blast
qed

lemma held_owner:
  assumes "\<exists>q e. prune_all ck q0 = Some q \<and> hm_get (tq_tasks q) i = Some e \<and> te_claimant e = Some w" "held i pk T q0" "ck_recycle ck \<le> T"
  shows "w = pk"
  using assms held_pruned [of ck q0 _ i pk T] unfolding held_def by force

lemma held_no_intruder:
  assumes inv: "tq_inv q0" and run: "tq_handle c q0 = Some (a, q')" and h: "held i pk T q0" and ck: "ck_recycle (call_clock c) \<le> T"
  shows "\<not> intrudes i pk (c, a)"
proof (cases c)
  case (CallClaim ck now2 deadline w)
  then obtain r where r: "claim_round ck now2 deadline w q0 = Some (r, q')" "a = AnsClaim r" using run by auto
  then obtain q where q: "prune_all ck q0 = Some q" "claim_effect (ck_now ck) w q (case r of ClaimGot env \<Rightarrow> Some env | _ \<Rightarrow> None) q'"
    using claim_round_cases [OF inv r(1)] by blast
  obtain e where e: "hm_get (tq_tasks q) i = Some e" "te_claimant e = Some pk"
    using held_pruned [OF q(1) h] CallClaim ck by (auto simp: held_def)
  have "te_phase e \<noteq> Queued" using worker_not_waiting [OF tq_invD(5) [OF prune_inv [OF inv q(1)] e(1)] e(2)] by simp
  then show ?thesis using CallClaim r(2) q(2) e(1) by (cases r) (auto simp: claim_effect_def)
next
  case (CallStatus ck w rid d p)
  then obtain r where r: "apply_status ck w rid d p q0 = Some (r, q')" "a = AnsUnit r" using run by auto
  show ?thesis
  proof (cases r)
    case (Inr u)
    have "trim rid = i \<Longrightarrow> w = pk" using held_owner [OF status_ok_owner, of ck w rid d p q0 q' pk T] r(1) Inr h ck CallStatus by simp
    then show ?thesis using CallStatus r(2) Inr by auto
  qed (use CallStatus r in simp)
next
  case (CallComplete ck w part)
  then obtain r where r: "apply_complete ck w part q0 = Some (r, q')" "a = AnsUnit r" using run by auto
  show ?thesis
  proof (cases r)
    case (Inr u)
    have "trim (tk_request_id part) = i \<Longrightarrow> w = pk"
      using held_owner [OF complete_ok_owner, of ck w part q0 q' pk T] r(1) Inr h ck CallComplete by simp
    then show ?thesis using CallComplete r(2) Inr by auto
  qed (use CallComplete r in simp)
qed simp

lemma run_held:
  assumes "tq_run q tr q'" "tq_inv q" "held i pk T q" "\<forall>(c, a) \<in> set tr. ck_recycle (call_clock c) \<le> T"
  shows "held i pk T q' \<and> (\<forall>x \<in> set tr. \<not> intrudes i pk x)"
  using assms
proof (induction rule: tq_run.induct)
  case (tq_run_snoc q tr q1 c a q2)
  have inv: "tq_inv q1" using tq_run_keeps [OF tq_run_snoc(1,4)] by simp
  have h: "held i pk T q1" "\<forall>x \<in> set tr. \<not> intrudes i pk x" "ck_recycle (call_clock c) \<le> T" using tq_run_snoc by auto
  show ?case using held_kept [OF inv tq_run_snoc(2) h(1,3)] held_no_intruder [OF inv tq_run_snoc(2) h(1,3)] h(2) by simp
qed simp

end
