(* ===== verification/Task_Order.thy ===== *)
theory Task_Order
  imports Task_Queue "HOL-Library.List_Lexorder" "HOL-Library.Char_ord" "HOL-Library.Product_Lexorder"
begin

text \<open>
  More of the task queue of \<open>Task_Queue\<close>: exactly which calls return, the order in which tasks are handed
  out, what a finished task may still become, and what callers see of a task (\<open>entry_to_json\<close>,
  \<open>snapshot_list_json\<close>).
\<close>

section \<open>Which calls return\<close>

fun call_without_id :: "tq_call \<Rightarrow> bool" where
  "call_without_id (CallStatus _ _ rid _ _) = (trim rid = [])"
| "call_without_id (CallComplete _ _ part) = (trim (tk_request_id part) = [])"
| "call_without_id _ = False"

text \<open>The waiting list as a call finds it, after it has put back the tasks whose lease ended.\<close>

definition recycled :: "tq_call \<Rightarrow> TaskQueue \<Rightarrow> TaskQueue" where
  "recycled c q = recycle_expired_leases (ck_rank (call_clock c)) (ck_recycle (call_clock c)) q"

definition front_stale :: "tq_call \<Rightarrow> TaskQueue \<Rightarrow> bool" where
  "front_stale c q = (case tq_deque (recycled c q) of
      [] \<Rightarrow> False
    | i # _ \<Rightarrow> (case hm_get (tq_tasks (recycled c q)) i of
        None \<Rightarrow> False
      | Some e \<Rightarrow> tq_ttl q < ck_discard (call_clock c) - te_queued_at e))"

lemma prune_returns:
  assumes "tq_inv q"
  shows "prune_all (call_clock c) q = (if front_stale c q then None else Some (recycled c q))"
proof -
  have k: "tq_ttl (recycled c q) = tq_ttl q" by (simp add: recycled_def recycle_expired_leases_def Let_def)
  have "te_phase e = Queued" if "tq_deque (recycled c q) = i # rest" "hm_get (tq_tasks (recycled c q)) i = Some e" for i rest e
    using tq_invD(3) [OF recycle_inv [OF assms], of i "ck_rank (call_clock c)" "ck_recycle (call_clock c)"] that by (auto simp: recycled_def)
  then show ?thesis
    by (auto simp: prune_all_def discard_ttl_expired_eq recycled_def [symmetric] front_stale_def stale_def k split: list.split option.split)
qed

lemma handle_returns:
  assumes inv: "tq_inv q"
  shows "(\<exists>r. tq_handle c q = Some r) \<longleftrightarrow> call_without_id c \<or> \<not> front_stale c q"
proof -
  note P = prune_returns [OF inv, of c]
  show ?thesis
  proof (cases c)
    case (CallClaim ck now2 deadline pk)
    have "\<exists>r. claim_round ck now2 deadline pk q = Some r" if "\<not> front_stale c q"
    proof -
      from P that have p: "prune_all ck q = Some (recycled c q)" using CallClaim by simp
      show ?thesis using try_claim_effect [OF prune_inv [OF inv p], of "ck_now ck" pk] p
        by (auto simp: claim_round_def split: option.split)
    qed
    then show ?thesis using P CallClaim by (auto simp: claim_round_def)
  next
    case (CallEnqueue ck id_ms rnd ms env)
    then show ?thesis using P by (auto simp: enqueue_def Let_def)
  next
    case (CallStatus ck pk rid d p)
    then show ?thesis using P by (auto simp: apply_status_def Let_def split: option.split)
  next
    case (CallComplete ck pk part)
    then show ?thesis using P by (auto simp: apply_complete_def Let_def split: option.split)
  qed
qed

text \<open>
  C11: Which calls end. After any run of the queue a call returns unless the oldest waiting task, among them
  the tasks it puts back itself, has waited longer than the limit; then it never returns, unless it is
  refused for an empty id before it looks at the queue. In particular the claim loop ends.
\<close>

theorem call_returns_iff:
  assumes "tq_run (TaskQueue_new profile cap ttl lease) tr q"
  shows "(\<exists>r. tq_handle c q = Some r) \<longleftrightarrow> call_without_id c \<or> \<not> front_stale c q"
  using handle_returns tq_run_keeps [OF assms new_inv] by blast

text \<open>An envelope and a clock that shows one time.\<close>

definition envelope_example :: "string \<Rightarrow> BusRequestEnvelope" where
  "envelope_example rid = \<lparr>be_request_id = rid, be_trace_id = [], be_hop_id = 0, be_source_node_id = [], be_target_node_id = [],
     be_method = ''GET'', be_scheme = [], be_host = ''h'', be_path = ''/'', be_headers = [], be_body_chunk = [], be_body_finished = True,
     be_created_at_ms = 5\<rparr>"

definition clock_at :: "nat \<Rightarrow> tq_clock" where
  "clock_at t = \<lparr>ck_recycle = t, ck_discard = t, ck_now = t, ck_rank = (\<lambda>_. 0)\<rparr>"

definition queue_example :: "string list \<Rightarrow> TaskQueue" where
  "queue_example ids = (TaskQueue_new ''p'' 8 100 50)\<lparr>tq_deque := ids,
     tq_tasks := map (\<lambda>i. (i, new_entry ''p'' 10 7 i (envelope_example i))) ids,
     tq_stats := task_stats_default\<lparr>st_submitted := word_of_nat (length ids)\<rparr>\<rparr>"

lemma trim_letters: "trim ''a'' = ''a''" "trim ''b'' = ''b''" "trim ''p'' = ''p''"
  by (rule trim_solid, simp_all add: solid_char_def)+

definition submit_example :: "string \<Rightarrow> tq_call" where
  "submit_example i = CallEnqueue (clock_at 10) 7 0 7 (envelope_example i)"

lemma submit_a: "tq_handle (submit_example ''a'') (TaskQueue_new ''p'' 8 100 50) = Some (AnsEnqueue (Inr ''a''), queue_example [''a''])"
  by (simp add: submit_example_def enqueue_def prune_all_def discard_ttl_expired_eq recycle_expired_leases_def expired_leases_def Let_def TaskQueue_new_def
      task_id_def envelope_example_def trim_letters hm_contains_def queue_example_def hm_insert_def task_stats_default_def clock_at_def new_entry_def task_envelope_def)

lemma run_a: "tq_run (TaskQueue_new ''p'' 8 100 50) [(submit_example ''a'', AnsEnqueue (Inr ''a''))] (queue_example [''a''])"
  using tq_run_snoc [OF tq_run_nil submit_a] by simp

theorem call_returns_iff_witness:
  "(\<exists>r. tq_handle (CallClaim (clock_at 60) 60 90 [1]) (queue_example [''a'']) = Some r) \<and>
   \<not> (\<exists>r. tq_handle (CallClaim (clock_at 111) 111 190 [1]) (queue_example [''a'']) = Some r)"
proof -
  have f: "front_stale (CallClaim (clock_at t) t d [1]) (queue_example [''a'']) \<longleftrightarrow> 100 < t - 10" for t d
    by (simp add: front_stale_def recycled_def recycle_expired_leases_def expired_leases_def queue_example_def TaskQueue_new_def Let_def
        lease_expired_def new_entry_def task_envelope_def hm_get_def clock_at_def)
  show ?thesis
    using call_returns_iff [OF run_a, of "CallClaim (clock_at 60) 60 90 [1]"] call_returns_iff [OF run_a, of "CallClaim (clock_at 111) 111 190 [1]"]
    unfolding f by (simp del: tq_handle.simps)
qed

section \<open>Order\<close>

fun submitted :: "tq_call \<times> tq_answer \<Rightarrow> string list" where
  "submitted (_, AnsEnqueue (Inr rid)) = [rid]"
| "submitted _ = []"

fun given :: "tq_call \<times> tq_answer \<Rightarrow> string list" where
  "given (_, AnsClaim (ClaimGot env)) = [be_request_id env]"
| "given _ = []"

text \<open>All instants a call reads lie within a span that starts at \<open>t0\<close> and has length \<open>d\<close>.\<close>

definition within :: "nat \<Rightarrow> nat \<Rightarrow> tq_clock \<Rightarrow> bool" where
  "within t0 d ck \<longleftrightarrow> t0 \<le> ck_now ck \<and> ck_now ck \<le> t0 + d \<and> ck_recycle ck \<le> t0 + d \<and> ck_discard ck \<le> t0 + d"

definition young :: "nat \<Rightarrow> TaskQueue \<Rightarrow> bool" where
  "young t0 q \<longleftrightarrow> (\<forall>i e. hm_get (tq_tasks q) i = Some e \<longrightarrow> t0 \<le> te_queued_at e \<and>
     (\<forall>T. te_lease_until e = Some T \<longrightarrow> t0 + tq_lease q \<le> T))"

lemma youngD: "young t0 q \<Longrightarrow> hm_get (tq_tasks q) i = Some e \<Longrightarrow> t0 \<le> te_queued_at e"
  "young t0 q \<Longrightarrow> hm_get (tq_tasks q) i = Some e \<Longrightarrow> te_lease_until e = Some T \<Longrightarrow> t0 + tq_lease q \<le> T"
  by (auto simp: young_def)

lemma young_prune:
  assumes "tq_inv q0" "young t0 q0" "prune_all ck q0 = Some q" "ck_recycle ck \<le> t0 + tq_lease q0"
  shows "tq_deque q = tq_deque q0" "hm_get (tq_tasks q) i = hm_get (tq_tasks q0) i" "young t0 q"
proof -
  have n: "\<not> lease_expired (ck_recycle ck) e" if "hm_get (tq_tasks q0) i = Some e" for i e
    using youngD(2) [OF assms(2) that] assms(4) by (auto simp: lease_expired_def split: option.split)
  have "(i, e) \<in> set (tq_tasks q0) \<Longrightarrow> hm_get (tq_tasks q0) i = Some e" for i e
    using tq_invD(1) [OF assms(1)] by (simp add: hm_get_def hm_ok_def)
  with n have "expired_leases (ck_rank ck) (ck_recycle ck) (tq_tasks q0) = []"
    by (auto simp: expired_leases_def filter_empty_conv)
  with prune_same [OF assms(3)] show "tq_deque q = tq_deque q0" by (simp add: recycle_expired_leases_def Let_def)
  have g: "hm_get (tq_tasks q) i = hm_get (tq_tasks q0) i" for i
    using prune_same [OF assms(3)] n [of i] by (cases "hm_get (tq_tasks q0) i") (simp_all add: recycle_tasks)
  then show "hm_get (tq_tasks q) i = hm_get (tq_tasks q0) i" "young t0 q"
    using assms(2) prune_keeps [OF assms(3)] by (simp_all add: young_def)
qed

lemma claim_effectD:
  assumes "claim_effect now pk q r q'"
  shows "tq_lease q' = tq_lease q" "hm_get (tq_tasks q') i = Some e' \<Longrightarrow> \<exists>e. hm_get (tq_tasks q) i = Some e \<and> te_queued_at e' = te_queued_at e \<and>
      (te_lease_until e' = te_lease_until e \<or> te_lease_until e' = Some (now + tq_lease q))"
    "\<exists>gone. tq_deque q = gone @ (case r of None \<Rightarrow> [] | Some env \<Rightarrow> [be_request_id env]) @ tq_deque q' \<and>
        (\<forall>i \<in> set gone. \<exists>e. hm_get (tq_tasks q) i = Some e \<and> tq_ttl q < now - te_queued_at e)"
  using assms unfolding claim_effect_def by blast+

lemma within_minD: "within t0 (min a b) ck \<Longrightarrow> ck_recycle ck \<le> t0 + b \<and> t0 \<le> ck_now ck \<and> ck_now ck \<le> t0 + a"
  by (auto simp: within_def)

lemma worker_order:
  assumes inv: "tq_inv q0" and y: "young t0 q0" and k: "ck_recycle ck \<le> t0 + tq_lease q0"
    and d: "q' = q0 \<or> prune_all ck q0 = Some q' \<or>
      (\<exists>q e e' i w. prune_all ck q0 = Some q \<and> hm_get (tq_tasks q) i = Some e \<and> tq_tasks q' = hm_insert i e' (tq_tasks q) \<and>
         tq_deque q' = tq_deque q \<and> tq_lease q' = tq_lease q \<and> worker_update w i e e')"
  shows "young t0 q' \<and> tq_deque q' = tq_deque q0"
  using d
proof (elim disjE exE conjE)
  assume "prune_all ck q0 = Some q'"
  then show ?thesis using young_prune [OF inv y _ k] by blast
next
  fix q e e' i w
  assume q: "prune_all ck q0 = Some q" and g: "hm_get (tq_tasks q) i = Some e" "tq_tasks q' = hm_insert i e' (tq_tasks q)"
    "tq_deque q' = tq_deque q" "tq_lease q' = tq_lease q" "worker_update w i e e'"
  note p = young_prune [OF inv y q k]
  show ?thesis using p youngD [OF p(3) g(1)] g by (auto simp: young_def worker_update_def)
qed (use y in simp)

lemma handle_order:
  assumes inv: "tq_inv q0" and y: "young t0 q0" and run: "tq_handle c q0 = Some (a, q')"
    and w: "within t0 (min (tq_ttl q0) (tq_lease q0)) (call_clock c)"
  shows "young t0 q' \<and> tq_deque q0 @ submitted (c, a) = given (c, a) @ tq_deque q'"
proof (cases c)
  case (CallEnqueue ck id_ms rnd ms env)
  then obtain r where r: "enqueue ck id_ms rnd ms env q0 = Some (r, q')" "a = AnsEnqueue r" using run by auto
  have k: "ck_recycle ck \<le> t0 + tq_lease q0" "t0 \<le> ck_now ck" using within_minD [OF w] CallEnqueue by simp_all
  from r(1) show ?thesis
  proof (cases rule: enqueue_cases)
    case (1 e)
    then show ?thesis using young_prune [OF inv y 1(1) k(1)] r(2) by simp
  next
    case (2 q)
    then show ?thesis using young_prune [OF inv y 2(1) k(1)] r(2) k(2) by (auto simp: young_def new_entry_def task_envelope_def)
  qed
next
  case (CallClaim ck now2 deadline pk)
  then obtain r where r: "claim_round ck now2 deadline pk q0 = Some (r, q')" "a = AnsClaim r" using run by auto
  have k: "ck_recycle ck \<le> t0 + tq_lease q0" "t0 \<le> ck_now ck" "ck_now ck \<le> t0 + tq_ttl q0" using within_minD [OF w] CallClaim by simp_all
  obtain q where q: "prune_all ck q0 = Some q" and ce: "claim_effect (ck_now ck) pk q (case r of ClaimGot env \<Rightarrow> Some env | _ \<Rightarrow> None) q'"
    using claim_round_cases [OF inv r(1)] by blast
  note p = young_prune [OF inv y q k(1)] and kp = prune_keeps [OF q]
  have "young t0 q'"
    unfolding young_def
  proof (intro allI impI)
    fix i e' assume "hm_get (tq_tasks q') i = Some e'"
    then obtain e where e: "hm_get (tq_tasks q) i = Some e" "te_queued_at e' = te_queued_at e"
      "te_lease_until e' = te_lease_until e \<or> te_lease_until e' = Some (ck_now ck + tq_lease q)" using claim_effectD(2) [OF ce] by blast
    show "t0 \<le> te_queued_at e' \<and> (\<forall>T. te_lease_until e' = Some T \<longrightarrow> t0 + tq_lease q' \<le> T)"
      using e(2,3) youngD [OF p(3) e(1)] claim_effectD(1) [OF ce] k(2) by auto
  qed
  moreover obtain gone where g: "tq_deque q = gone @ (case (case r of ClaimGot env \<Rightarrow> Some env | _ \<Rightarrow> None) of None \<Rightarrow> [] | Some env \<Rightarrow> [be_request_id env]) @ tq_deque q'"
      "\<forall>i \<in> set gone. \<exists>e. hm_get (tq_tasks q) i = Some e \<and> tq_ttl q < ck_now ck - te_queued_at e"
    using claim_effectD(3) [OF ce] by blast
  have "gone = []"
  proof (rule ccontr)
    assume "gone \<noteq> []"
    then obtain e where e: "hm_get (tq_tasks q) (hd gone) = Some e" "tq_ttl q < ck_now ck - te_queued_at e" using g(2) by (meson hd_in_set)
    show False using youngD(1) [OF p(3) e(1)] e(2) k(3) kp by simp
  qed
  ultimately show ?thesis using g(1) p(1) r(2) CallClaim by (cases r) auto
next
  case (CallStatus ck pk rid d x)
  then obtain r where r: "apply_status ck pk rid d x q0 = Some (r, q')" "a = AnsUnit r" using run by auto
  have k: "ck_recycle ck \<le> t0 + tq_lease q0" using within_minD [OF w] CallStatus by simp
  have "young t0 q' \<and> tq_deque q' = tq_deque q0"
    by (rule worker_order [OF inv y k], cases rule: apply_status_cases [OF r(1)]) blast+
  then show ?thesis using r(2) CallStatus by simp
next
  case (CallComplete ck pk part)
  then obtain r where r: "apply_complete ck pk part q0 = Some (r, q')" "a = AnsUnit r" using run by auto
  have k: "ck_recycle ck \<le> t0 + tq_lease q0" using within_minD [OF w] CallComplete by simp
  have "young t0 q' \<and> tq_deque q' = tq_deque q0"
    by (rule worker_order [OF inv y k], cases rule: apply_complete_cases [OF r(1)]) blast+
  then show ?thesis using r(2) CallComplete by simp
qed

text \<open>
  C12: First in, first out. Over a span in which no lease and no waiting time runs out, the ids handed to workers
  followed by those still waiting are exactly the accepted ids in the order of their submission.
\<close>

theorem tasks_in_order:
  assumes "tq_run (TaskQueue_new profile cap ttl lease) tr q" "\<forall>(c, a) \<in> set tr. within t0 (min ttl lease) (call_clock c)"
  shows "concat (map submitted tr) = concat (map given tr) @ tq_deque q"
proof -
  have "young t0 q \<and> concat (map submitted tr) = concat (map given tr) @ tq_deque q"
    using assms
  proof (induction "TaskQueue_new profile cap ttl lease" tr q rule: tq_run.induct)
    case tq_run_nil
    then show ?case by (simp add: young_def TaskQueue_new_def)
  next
    case (tq_run_snoc tr q1 c a q2)
    have k: "tq_inv q1" "tq_ttl q1 = ttl" "tq_lease q1 = lease"
      using tq_run_keeps [OF tq_run_snoc(1) new_inv] by (simp_all add: TaskQueue_new_def)
    have w: "within t0 (min (tq_ttl q1) (tq_lease q1)) (call_clock c)" using tq_run_snoc(4) k by simp
    have y: "young t0 q1" "concat (map submitted tr) = concat (map given tr) @ tq_deque q1" using tq_run_snoc(2,4) by simp_all
    show ?case using handle_order [OF k(1) y(1) tq_run_snoc(3) w] y(2) by simp
  qed
  then show ?thesis by simp
qed

lemma claim_a: "tq_handle (CallClaim (clock_at 20) 20 90 [1]) (queue_example [''a'']) =
    Some (AnsClaim (ClaimGot (envelope_example ''a'')),
      (queue_example [''a''])\<lparr>tq_deque := [],
        tq_tasks := [(''a'', (new_entry ''p'' 10 7 ''a'' (envelope_example ''a''))\<lparr>te_phase := Claimed, te_claimant := Some [1], te_lease_until := Some 70\<rparr>)],
        tq_stats := task_stats_default\<lparr>st_submitted := 1, st_claimed := 1\<rparr>\<rparr>)"
  by (simp add: claim_round_def prune_all_def discard_ttl_expired_eq recycle_expired_leases_def expired_leases_def Let_def queue_example_def
      TaskQueue_new_def lease_expired_def new_entry_def task_envelope_def hm_get_def clock_at_def stale_def try_claim_one.simps attempt_claim_id_def hm_insert_def
      envelope_example_def task_stats_default_def trim_letters)

lemma run_a_claim: "\<exists>q. tq_run (TaskQueue_new ''p'' 8 100 50)
    [(submit_example ''a'', AnsEnqueue (Inr ''a'')), (CallClaim (clock_at 20) 20 90 [1], AnsClaim (ClaimGot (envelope_example ''a'')))] q \<and> tq_deque q = []"
  using tq_run_snoc [OF run_a claim_a] by fastforce

theorem tasks_in_order_witness:
  "\<exists>q. tq_run (TaskQueue_new ''p'' 8 100 50)
    [(submit_example ''a'', AnsEnqueue (Inr ''a'')), (CallClaim (clock_at 20) 20 90 [1], AnsClaim (ClaimGot (envelope_example ''a'')))] q \<and>
    [''a''] = [be_request_id (envelope_example ''a'')] @ tq_deque q"
proof -
  obtain q where q: "tq_run (TaskQueue_new ''p'' 8 100 50)
    [(submit_example ''a'', AnsEnqueue (Inr ''a'')), (CallClaim (clock_at 20) 20 90 [1], AnsClaim (ClaimGot (envelope_example ''a'')))] q"
    using run_a_claim by blast
  from tasks_in_order [OF q, of 10] q show ?thesis by (simp add: submit_example_def clock_at_def within_def) blast
qed

text \<open>
  C13: No accepted task is lost. In every sequence of calls that do not overlap, each request that was accepted is
  known under the id it was given, with the method, target, headers and body it was submitted with, and is
  either waiting exactly once, or held by one worker under a lease, or finished.
\<close>

theorem task_not_lost:
  assumes "tq_run (TaskQueue_new profile cap ttl lease) tr q" "(CallEnqueue ck id_ms rnd ms env, AnsEnqueue (Inr rid)) \<in> set tr"
  shows "rid = task_id id_ms rnd env \<and> distinct (tq_deque q) \<and>
    (\<exists>e. hm_get (tq_tasks q) rid = Some e \<and> te_envelope e = task_envelope ms rid env \<and>
      (te_phase e = Queued \<and> rid \<in> set (tq_deque q) \<or>
       te_phase e \<in> {Claimed, Running} \<and> rid \<notin> set (tq_deque q) \<and> te_claimant e \<noteq> None \<and> te_lease_until e \<noteq> None \<or>
       te_phase e \<in> {Completed, Failed, Expired} \<and> rid \<notin> set (tq_deque q)))"
proof -
  have inv: "tq_inv q" using tq_run_keeps [OF assms(1) new_inv] by simp
  obtain e where e: "hm_get (tq_tasks q) rid = Some e" and s: "rid = task_id id_ms rnd env" "te_envelope e = task_envelope ms rid env"
    using run_submitted [OF assms(1) new_inv assms(2)] by auto
  have m: "rid \<in> set (tq_deque q) \<longleftrightarrow> te_phase e = Queued" using tq_invD(3,4) [OF inv] e by fastforce
  have "te_phase e = Queued \<and> rid \<in> set (tq_deque q) \<or>
       te_phase e \<in> {Claimed, Running} \<and> rid \<notin> set (tq_deque q) \<and> te_claimant e \<noteq> None \<and> te_lease_until e \<noteq> None \<or>
       te_phase e \<in> {Completed, Failed, Expired} \<and> rid \<notin> set (tq_deque q)"
    using m tq_invD(5) [OF inv e] by (cases "te_phase e") (auto simp: entry_ok_def)
  with s e tq_invD(2) [OF inv] show ?thesis by blast
qed

theorem task_not_lost_witness:
  "\<exists>e. hm_get (tq_tasks (queue_example [''a''])) ''a'' = Some e \<and> te_envelope e = envelope_example ''a''"
  using task_not_lost [OF run_a, of "clock_at 10" 7 0 7 "envelope_example ''a''" "''a''"]
  by (auto simp: submit_example_def task_envelope_def envelope_example_def)

text \<open>
  C10: One worker at a time. Once a worker has been given a task, then as long as no call looks at a clock past
  the end of its lease the task is given to nobody again, and no status report or completion of another
  worker is accepted for it, whatever calls are made.
\<close>

theorem claim_exclusive:
  assumes "tq_run (TaskQueue_new profile cap ttl lease) tr0 q"
    and "tq_handle (CallClaim ck now2 deadline w) q = Some (AnsClaim (ClaimGot env), q1)"
    and "tq_run q1 tr q2" "\<forall>(c, a) \<in> set tr. ck_recycle (call_clock c) \<le> ck_now ck + lease"
  shows "\<forall>x \<in> set tr. \<not> intrudes (be_request_id env) w x"
proof -
  have k: "tq_inv q" "tq_lease q = lease" using tq_run_keeps [OF assms(1) new_inv] by (simp_all add: TaskQueue_new_def)
  have "claim_round ck now2 deadline w q = Some (ClaimGot env, q1)" using assms(2) by auto
  then obtain p where p: "prune_all ck q = Some p" "claim_effect (ck_now ck) w p (Some env) q1"
    using claim_round_cases [OF k(1)] by force
  have "tq_lease p = lease" using prune_keeps [OF p(1)] k(2) by simp
  then have "held (be_request_id env) w (ck_now ck + lease) q1" using p(2) by (auto simp: claim_effect_def held_def)
  then show ?thesis using run_held [OF assms(3) handle_inv [OF k(1) assms(2)] _ assms(4)] by blast
qed

theorem claim_exclusive_witness:
  "\<exists>q1 q2 a. tq_handle (CallClaim (clock_at 20) 20 90 [1]) (queue_example [''a'']) = Some (AnsClaim (ClaimGot (envelope_example ''a'')), q1) \<and>
     tq_handle (CallStatus (clock_at 30) [2] ''a'' None 5) q1 = Some (a, q2) \<and>
     \<not> intrudes ''a'' [1] (CallStatus (clock_at 30) [2] ''a'' None 5, a)"
proof -
  obtain q1 where q1: "tq_handle (CallClaim (clock_at 20) 20 90 [1]) (queue_example [''a'']) = Some (AnsClaim (ClaimGot (envelope_example ''a'')), q1)"
    "tq_deque q1 = []" "tq_tasks q1 = [(''a'', (new_entry ''p'' 10 7 ''a'' (envelope_example ''a''))\<lparr>te_phase := Claimed, te_claimant := Some [1], te_lease_until := Some 70\<rparr>)]"
    using claim_a by simp
  have "\<not> front_stale (CallStatus (clock_at 30) [2] ''a'' None 5) q1"
    by (simp add: front_stale_def recycled_def recycle_expired_leases_def expired_leases_def Let_def q1(2,3) lease_expired_def new_entry_def task_envelope_def clock_at_def)
  then obtain a q2 where s: "tq_handle (CallStatus (clock_at 30) [2] ''a'' None 5) q1 = Some (a, q2)"
    using handle_returns [OF handle_inv [OF _ q1(1)]] tq_run_keeps [OF run_a new_inv] by (metis surj_pair)
  have "\<not> intrudes (be_request_id (envelope_example ''a'')) [1] (CallStatus (clock_at 30) [2] ''a'' None 5, a)"
    using claim_exclusive [OF run_a q1(1) tq_run_snoc [OF tq_run_nil s]] by (simp add: clock_at_def)
  with q1(1) s show ?thesis by (auto simp: envelope_example_def simp del: tq_handle.simps)
qed

section \<open>Finished tasks\<close>

text \<open>
  A finished task is not final. The worker that reported a task as failed can still complete it: a final part
  with a status turns the failed task into a completed one, while callers that waited were told it failed.
\<close>

theorem failed_task_completes:
  assumes "tq_run (TaskQueue_new profile cap ttl lease) tr q" and e: "hm_get (tq_tasks q) rid = Some e" "te_phase e = Failed" "te_claimant e = Some w"
    and part: "trim (tk_request_id part) = rid" "rid \<noteq> []" "tk_finished part" "trim (tk_error part) = []" "tk_status part \<noteq> 0"
    and "\<not> front_stale (CallComplete ck w part) q"
  shows "\<exists>q' e'. tq_handle (CallComplete ck w part) q = Some (AnsUnit (Inr ()), q') \<and> hm_get (tq_tasks q') rid = Some e' \<and> te_phase e' = Completed"
proof -
  have inv: "tq_inv q" using tq_run_keeps [OF assms(1) new_inv] by simp
  have p: "prune_all ck q = Some (recycled (CallComplete ck w part) q)" using prune_returns [OF inv, of "CallComplete ck w part"] assms(10) by simp
  have "hm_get (tq_tasks (recycled (CallComplete ck w part) q)) rid = Some e"
    using e by (simp add: recycled_def recycle_tasks lease_expired_def)
  then show ?thesis using part e by (simp add: apply_complete_def p Let_def take_part_def finish_entry_def)
qed

definition complete_part :: "u32 \<Rightarrow> string \<Rightarrow> TaskComplete" where
  "complete_part s err = \<lparr>tk_request_id = ''a'', tk_status = s, tk_headers = [], tk_body_chunk = [], tk_finished = True, tk_error = err\<rparr>"

theorem failed_task_completes_witness:
  "\<exists>q q' e'. tq_run (TaskQueue_new ''p'' 8 100 50)
     [(submit_example ''a'', AnsEnqueue (Inr ''a'')), (CallClaim (clock_at 20) 20 90 [1], AnsClaim (ClaimGot (envelope_example ''a''))),
      (CallComplete (clock_at 30) [1] (complete_part 0 ''b''), AnsUnit (Inr ()))] q \<and>
     tq_handle (CallComplete (clock_at 40) [1] (complete_part 200 [])) q = Some (AnsUnit (Inr ()), q') \<and>
     hm_get (tq_tasks q') ''a'' = Some e' \<and> te_phase e' = Completed"
proof -
  obtain q1 where q1: "tq_handle (CallClaim (clock_at 20) 20 90 [1]) (queue_example [''a'']) = Some (AnsClaim (ClaimGot (envelope_example ''a'')), q1)"
    "tq_deque q1 = []" "tq_tasks q1 = [(''a'', (new_entry ''p'' 10 7 ''a'' (envelope_example ''a''))\<lparr>te_phase := Claimed, te_claimant := Some [1], te_lease_until := Some 70\<rparr>)]"
    using claim_a by simp
  obtain q2 e where q2: "tq_handle (CallComplete (clock_at 30) [1] (complete_part 0 ''b'')) q1 = Some (AnsUnit (Inr ()), q2)"
    "hm_get (tq_tasks q2) ''a'' = Some e" "te_phase e = Failed" "te_claimant e = Some [1]" "tq_deque q2 = []" "tq_tasks q2 = [(''a'', e)]"
    using q1(2,3)
    by (simp add: apply_complete_def prune_all_def discard_ttl_expired_eq recycle_expired_leases_def expired_leases_def Let_def lease_expired_def
        new_entry_def task_envelope_def hm_get_def clock_at_def complete_part_def trim_letters fail_entry_def hm_insert_def) fastforce
  note run = tq_run_snoc [OF tq_run_snoc [OF run_a q1(1)] q2(1)]
  have "\<not> front_stale (CallComplete (clock_at 40) [1] (complete_part 200 [])) q2"
    by (simp add: front_stale_def recycled_def recycle_expired_leases_def expired_leases_def Let_def q2(5,6) q2(3) lease_expired_def)
  from failed_task_completes [OF run q2(2-4) _ _ _ _ _ this] show ?thesis
    using run by (auto simp: complete_part_def trim_letters simp del: tq_handle.simps)
qed

section \<open>What callers see\<close>

record TaskOuterJson =
  tj_request_id :: string
  tj_profile_id :: string
  tj_phase_str :: string
  tj_trace_id :: "string option"
  tj_method :: "string option"
  tj_host :: "string option"
  tj_path :: "string option"
  tj_detail :: "string option"
  tj_progress_pct :: "u32 option"
  tj_http_status :: "u32 option"
  tj_response_headers :: "(string, string) hmap option"
  tj_body_base64 :: "string option"
  tj_error :: "string option"

definition non_empty :: "string \<Rightarrow> string option" where
  "non_empty s = (if s = [] then None else Some s)"

definition entry_error :: "TaskEntry \<Rightarrow> string option" where
  "entry_error e = (case te_phase e of
      Failed \<Rightarrow>
       (case te_terminal_error e of
          Some s \<Rightarrow> if trim s \<noteq> [] then Some s
            else if te_response_body e \<noteq> [] then Some (from_utf8_lossy (te_response_body e)) else None
        | None \<Rightarrow> if te_response_body e \<noteq> [] then Some (from_utf8_lossy (te_response_body e)) else None)
    | Expired \<Rightarrow> Some (case te_terminal_error e of None \<Rightarrow> ''expired'' | Some s \<Rightarrow> s)
    | _ \<Rightarrow> None)"

definition entry_to_json :: "(bytes \<Rightarrow> string) \<Rightarrow> TaskEntry \<Rightarrow> TaskOuterJson" where
  "entry_to_json b64 e =
    (let hdr = (if te_phase e = Completed \<or> te_phase e = Failed then fold (\<lambda>(k, v). hm_insert k v) (te_response_headers e) [] else [])
     in \<lparr>tj_request_id = be_request_id (te_envelope e), tj_profile_id = te_profile_id e, tj_phase_str = phase_str (te_phase e),
         tj_trace_id = non_empty (be_trace_id (te_envelope e)), tj_method = non_empty (be_method (te_envelope e)),
         tj_host = non_empty (be_host (te_envelope e)), tj_path = non_empty (be_path (te_envelope e)), tj_detail = te_detail e,
         tj_progress_pct = (if 0 < te_progress_pct e then Some (te_progress_pct e) else None), tj_http_status = te_response_status e,
         tj_response_headers = (if hdr = [] then None else Some hdr),
         tj_body_base64 = (if te_phase e = Completed then Some (b64 (te_response_body e)) else None), tj_error = entry_error e\<rparr>)"

definition snapshot_json :: "(bytes \<Rightarrow> string) \<Rightarrow> string \<Rightarrow> TaskQueue \<Rightarrow> TaskOuterJson option" where
  "snapshot_json b64 i q = map_option (entry_to_json b64) (hm_get (tq_tasks q) i)"

text \<open>Newest first, later ids first among tasks of one time; a stable descending sort.\<close>

definition snapshot_list_json :: "(bytes \<Rightarrow> string) \<Rightarrow> StoredTaskPhase option \<Rightarrow> nat \<Rightarrow> TaskQueue \<Rightarrow> TaskOuterJson list" where
  "snapshot_list_json b64 phase limit q =
    (let rows = map (\<lambda>(i, e). (max 0 (be_created_at_ms (te_envelope e)), entry_to_json b64 e)) (tq_tasks q);
         kept = filter (\<lambda>(t, j). case phase of None \<Rightarrow> True | Some p \<Rightarrow> tj_phase_str j = phase_str p) rows;
         sorted = rev (sort_key (\<lambda>(t, j). (t, tj_request_id j)) (rev kept))
     in take (min (max limit 1) 500) (map snd sorted))"

lemma phase_str_inj: "phase_str p = phase_str p' \<longleftrightarrow> p = p'"
  by (cases p; cases p') (simp_all add: phase_str_def)

lemma phase_query_roundtrip: "phase_from_query (Some (phase_str p)) = Some p"
proof -
  have "trim (phase_str p) = phase_str p" by (cases p) (rule trim_solid; simp add: phase_str_def solid_char_def)+
  moreover have "to_ascii_lowercase (phase_str p) = phase_str p" by (cases p) (simp_all add: phase_str_def to_ascii_lowercase_def ascii_lower_def)
  ultimately show ?thesis by (cases p) (simp_all add: phase_from_query_def phase_str_def)
qed

end
