(* ===== verification/Request_Bus.thy ===== *)
theory Request_Bus
  imports Task_Order
begin

text \<open>
  The request bus of the stack tunnel service (\<^verbatim>\<open>stack-tun-api/src/types.rs\<close> and
  \<^verbatim>\<open>request_bus.rs\<close>): route rules and their priorities, the decision for a request, its execution and the
  journal. The HTTP client is a parameter that answers a request; the requests that were sent are part of the
  result, so that a theorem can speak about them. The counters of a task queue are kept with the queue; the code
  adds all of them to one global set.
\<close>

section \<open>Data\<close>

datatype TunnelRole = Listen | Connector

datatype TunnelMode = TcpRelay | RequestBus

datatype TunnelLinkKind = LinkLocal | PublicAuth

datatype BusRouteDecisionKind = BusAllow | BusDeny | BusForward | BusLocalHandle | BusQueue

record StackTunRouteRule =
  rr_id :: string
  rr_priority :: int
  rr_host_contains :: "string option"
  rr_path_prefix :: "string option"
  rr_method :: "string option"
  rr_decision :: BusRouteDecisionKind
  rr_forward_url :: "string option"
  rr_local_host :: "string option"
  rr_local_port :: "u16 option"

record RequestBusJournalEntry =
  je_ts_unix_ms :: int
  je_hop_id :: u32
  je_request_id :: string
  je_trace_id :: string
  je_source_node_id :: string
  je_target_node_id :: string
  je_profile_id :: string
  je_method :: string
  je_host :: string
  je_path :: string
  je_status :: u32
  je_decision :: string
  je_error :: "string option"
  je_bytes_in :: nat
  je_bytes_out :: nat

record TunnelProfile =
  tp_id :: string
  tp_name :: string
  tp_role :: TunnelRole
  tp_mode :: TunnelMode
  tp_link_kind :: TunnelLinkKind
  tp_source_node_id :: "string option"
  tp_target_node_id :: "string option"
  tp_route_tags :: "string list"
  tp_allowed_hosts :: "string list"
  tp_allowed_paths :: "string list"
  tp_route_priority :: "int option"
  tp_default_bus_decision :: "BusRouteDecisionKind option"
  tp_listen_addr :: "string option"
  tp_remote_grpc_endpoint :: "string option"
  tp_listen_profile_id :: "string option"
  tp_target_host :: string
  tp_target_port :: u16
  tp_max_pending_streams :: nat
  tp_stream_offer_ttl_secs :: nat
  tp_pull_wait_ms :: nat
  tp_connector_allow_pubkey_b64 :: "string list"
  tp_enabled :: bool
  tp_max_pending_tasks :: "nat option"
  tp_task_queue_ttl_secs :: "nat option"
  tp_task_claim_lease_secs :: "nat option"

record PersistRoot =
  ro_version :: u32
  ro_profiles :: "TunnelProfile list"
  ro_routes :: "StackTunRouteRule list"

definition unset :: "string option \<Rightarrow> bool" where
  "unset s = (case s of None \<Rightarrow> True | Some t \<Rightarrow> trim t = [])"

definition profile_validate :: "TunnelProfile \<Rightarrow> string + unit" where
  "profile_validate p =
    (if trim (tp_id p) = [] then Inl ''profile id empty''
     else case tp_role p of
         Listen \<Rightarrow>
           if tp_mode p \<noteq> RequestBus \<and> unset (tp_listen_addr p)
           then Inl ''listen profiles require listen_addr unless mode is requestBus'' else Inr ()
       | Connector \<Rightarrow>
           if unset (tp_remote_grpc_endpoint p) then Inl ''connector profiles require remote_grpc_endpoint''
           else if unset (tp_listen_profile_id p) then Inl ''connector profiles require listen_profile_id''
           else if trim (tp_target_host p) = [] then Inl ''connector target_host empty''
           else if tp_target_port p = 0 then Inl ''connector target_port invalid''
           else Inr ())"

section \<open>Route rules\<close>

definition sorted_rules :: "StackTunRouteRule list \<Rightarrow> StackTunRouteRule list" where
  "sorted_rules rules = sort_key (\<lambda>r. (- rr_priority r, rr_id r)) rules"

definition rule_matches :: "StackTunRouteRule \<Rightarrow> string \<Rightarrow> string \<Rightarrow> string \<Rightarrow> bool" where
  "rule_matches rule host path meth \<longleftrightarrow>
     (case rr_host_contains rule of None \<Rightarrow> True | Some s \<Rightarrow> s = [] \<or> str_contains host s) \<and>
     (case rr_path_prefix rule of None \<Rightarrow> True | Some s \<Rightarrow> s = [] \<or> starts_with path s) \<and>
     (case rr_method rule of None \<Rightarrow> True | Some m \<Rightarrow> trim m = [] \<or> eq_ignore_ascii_case meth (trim m))"

definition matching_rule :: "StackTunRouteRule list \<Rightarrow> string \<Rightarrow> string \<Rightarrow> string \<Rightarrow> StackTunRouteRule option" where
  "matching_rule rules host path meth = List.find (\<lambda>r. rule_matches r host path meth) rules"

text \<open>\<open>trim_start_matches('/')\<close>, and the address of a request.\<close>

definition trim_slashes :: "string \<Rightarrow> string" where
  "trim_slashes s = dropWhile (\<lambda>c. c = CHR ''/'') s"

definition with_slash :: "string \<Rightarrow> string" where
  "with_slash p = (if starts_with p ''/'' then p else CHR ''/'' # p)"

definition scheme_or_http :: "string \<Rightarrow> string" where
  "scheme_or_http s = (if trim s = [] then ''http'' else trim s)"

definition build_url :: "string \<Rightarrow> string \<Rightarrow> string \<Rightarrow> string" where
  "build_url scheme host path = scheme_or_http scheme @ ''://'' @ trim_slashes (trim host) @ with_slash (trim path)"

definition fallback_connector_port :: "PersistRoot \<Rightarrow> string \<Rightarrow> u16" where
  "fallback_connector_port root listen_profile_id =
    (case List.find (\<lambda>c. tp_role c = Connector \<and> tp_listen_profile_id c = Some listen_profile_id) (ro_profiles root) of
       None \<Rightarrow> 8080 | Some c \<Rightarrow> tp_target_port c)"

section \<open>The journal\<close>

definition JOURNAL_CAP :: nat where "JOURNAL_CAP = 512"

text \<open>A bounded log: at its capacity the oldest entry makes room.\<close>

definition ring_push :: "nat \<Rightarrow> 'a \<Rightarrow> 'a list \<Rightarrow> 'a list" where
  "ring_push cap x xs = (if cap \<le> length xs then List.tl xs else xs) @ [x]"

definition append_journal :: "int \<Rightarrow> RequestBusJournalEntry \<Rightarrow> RequestBusJournalEntry list \<Rightarrow> RequestBusJournalEntry list" where
  "append_journal now_ms entry j =
     ring_push JOURNAL_CAP (if trim (je_request_id entry) = [] then entry\<lparr>je_request_id := show_int now_ms\<rparr> else entry) j"

definition append_journal_complete ::
    "int \<Rightarrow> RequestBusJournalEntry \<Rightarrow> u32 \<Rightarrow> string \<Rightarrow> string option \<Rightarrow> nat \<Rightarrow> string option \<Rightarrow> RequestBusJournalEntry list \<Rightarrow> RequestBusJournalEntry list" where
  "append_journal_complete now_ms e status decision err bytes_out block_detail j =
     append_journal now_ms (e\<lparr>je_status := status, je_decision := decision,
       je_error := (case err of Some x \<Rightarrow> Some x | None \<Rightarrow> block_detail), je_bytes_out := bytes_out\<rparr>) j"

text \<open>The optional filters of a query, applied one after the other to the journal read from its end.\<close>

definition given_text :: "string option \<Rightarrow> string option" where
  "given_text s = (case s of None \<Rightarrow> None | Some t \<Rightarrow> if trim t = [] then None else Some t)"

record journal_query =
  jq_limit :: nat
  jq_source :: "string option"
  jq_target :: "string option"
  jq_profile :: "string option"
  jq_status :: "u32 option"
  jq_host :: "string option"
  jq_path :: "string option"
  jq_method :: "string option"
  jq_trace_id :: "string option"
  jq_request_id :: "string option"
  jq_errors_only :: bool
  jq_blocked_only :: bool

definition keeps :: "('a \<Rightarrow> bool) option \<Rightarrow> 'a list \<Rightarrow> 'a list" where
  "keeps P xs = (case P of None \<Rightarrow> xs | Some p \<Rightarrow> filter p xs)"

definition filtered_journal_snapshot :: "journal_query \<Rightarrow> RequestBusJournalEntry list \<Rightarrow> RequestBusJournalEntry list" where
  "filtered_journal_snapshot q j =
    (let rows = List.rev j;
         rows = keeps (map_option (\<lambda>s e. str_contains (je_source_node_id e) (trim s)) (given_text (jq_source q))) rows;
         rows = keeps (map_option (\<lambda>s e. str_contains (je_target_node_id e) (trim s)) (given_text (jq_target q))) rows;
         rows = keeps (map_option (\<lambda>s e. je_profile_id e = s) (given_text (jq_profile q))) rows;
         rows = keeps (map_option (\<lambda>s e. je_status e = s) (jq_status q)) rows;
         rows = keeps (map_option (\<lambda>s e. str_contains (je_host e) (trim s)) (given_text (jq_host q))) rows;
         rows = keeps (map_option (\<lambda>s e. str_contains (je_path e) (trim s)) (given_text (jq_path q))) rows;
         rows = keeps (map_option (\<lambda>s e. eq_ignore_ascii_case (je_method e) (trim s)) (given_text (jq_method q))) rows;
         rows = keeps (map_option (\<lambda>s e. str_contains (je_trace_id e) (trim s)) (given_text (jq_trace_id q))) rows;
         rows = keeps (map_option (\<lambda>s e. str_contains (je_request_id e) (trim s)) (given_text (jq_request_id q))) rows;
         rows = keeps (if jq_errors_only q then Some (\<lambda>e. je_error e \<noteq> None \<or> 400 \<le> je_status e) else None) rows;
         rows = keeps (if jq_blocked_only q then Some (\<lambda>e. eq_ignore_ascii_case (je_decision e) ''deny'' \<or> je_status e = 403) else None) rows
     in take (min (max (jq_limit q) 1) 500) rows)"

section \<open>Execution\<close>

text \<open>
  A request as it is given to the HTTP client, and what the client library does with it: refuse a header or a
  method, fail, or answer; reading the body of an answer may fail as well. A header name is taken in the form the
  library normalises it to. What the client does on the network for a request, such as following a redirect, is
  behind \<open>he_send\<close>. \<open>he_upper\<close> is the upper-case table of Unicode, \<open>he_note\<close> the JSON text of a queued
  request. The clock is read anew at each place the code reads it.
\<close>

record http_request =
  hr_method :: string
  hr_url :: string
  hr_headers :: "(string \<times> string) list"
  hr_body :: "bytes option"

datatype http_result = HttpErr string | HttpBodyErr string | HttpOk u16 "(string \<times> string) list" bytes

record http_env =
  he_build_error :: "string option"
  he_upper :: "string \<Rightarrow> string"
  he_method_ok :: "string \<Rightarrow> bool"
  he_header_name :: "string \<Rightarrow> string option"
  he_value_ok :: "string \<Rightarrow> bool"
  he_send :: "http_request \<Rightarrow> http_result"
  he_note :: "string \<Rightarrow> string \<Rightarrow> bytes option"

record bus_clock =
  bc_stub_ms :: int
  bc_journal_ms :: int
  bc_envelope_ms :: int
  bc_task_id_ms :: int
  bc_task_ms :: int
  bc_task_rnd :: u64
  bc_queue :: tq_clock

fun headers_map_to_reqwest :: "http_env \<Rightarrow> (string \<times> string) list \<Rightarrow> string + (string \<times> string) list" where
  "headers_map_to_reqwest H [] = Inr []"
| "headers_map_to_reqwest H ((k, v) # m) = (case he_header_name H (trim k) of
      None \<Rightarrow> Inl (''invalid header name `'' @ k @ ''`'')
    | Some nk \<Rightarrow>
       if \<not> he_value_ok H (trim v) then Inl (''invalid header `'' @ k @ ''`'')
       else case headers_map_to_reqwest H m of Inl e \<Rightarrow> Inl e | Inr hs \<Rightarrow> Inr ((nk, trim v) # hs))"

record bus_request =
  bq_profile_id :: string
  bq_request_id :: string
  bq_trace_id :: string
  bq_source_node_id :: string
  bq_target_node_id :: string
  bq_hop_id :: u32
  bq_method :: string
  bq_scheme :: string
  bq_host :: string
  bq_path :: string
  bq_headers :: "(string, string) hmap"
  bq_body :: bytes

record bus_state =
  bs_journal :: "RequestBusJournalEntry list"
  bs_task_queues :: "(string, TaskQueue) hmap"

type_synonym bus_result = "string + (u16 \<times> (string \<times> string) list \<times> bytes \<times> BusRouteDecisionKind)"

definition default_decision :: "PersistRoot \<Rightarrow> string \<Rightarrow> BusRouteDecisionKind" where
  "default_decision root profile_id =
    (case List.find (\<lambda>p. tp_id p = profile_id \<and> tp_role p = Listen \<and> tp_mode p = RequestBus) (ro_profiles root) of
       None \<Rightarrow> BusAllow
     | Some p \<Rightarrow> (case tp_default_bus_decision p of None \<Rightarrow> BusAllow | Some d \<Rightarrow> d))"

definition bus_rule :: "StackTunRouteRule list \<Rightarrow> bus_request \<Rightarrow> StackTunRouteRule option" where
  "bus_rule rules r = matching_rule (sorted_rules rules) (trim (bq_host r)) (trim (bq_path r)) (trim (bq_method r))"

definition bus_decision :: "PersistRoot \<Rightarrow> StackTunRouteRule list \<Rightarrow> bus_request \<Rightarrow> BusRouteDecisionKind" where
  "bus_decision root rules r =
    (case bus_rule rules r of None \<Rightarrow> default_decision root (bq_profile_id r) | Some rule \<Rightarrow> rr_decision rule)"

definition journal_stub :: "bus_clock \<Rightarrow> bus_request \<Rightarrow> RequestBusJournalEntry" where
  "journal_stub bc r =
    \<lparr>je_ts_unix_ms = bc_stub_ms bc, je_hop_id = bq_hop_id r, je_request_id = bq_request_id r, je_trace_id = bq_trace_id r,
     je_source_node_id = bq_source_node_id r, je_target_node_id = bq_target_node_id r, je_profile_id = bq_profile_id r,
     je_method = bq_method r, je_host = bq_host r, je_path = bq_path r, je_status = 0, je_decision = [], je_error = None,
     je_bytes_in = length (bq_body r), je_bytes_out = 0\<rparr>"

text \<open>Sending: the answer and the journal entry; when reading the body fails there is no entry.\<close>

definition bus_send ::
    "http_env \<Rightarrow> bus_clock \<Rightarrow> bus_request \<Rightarrow> string \<Rightarrow> BusRouteDecisionKind \<Rightarrow> http_request \<Rightarrow> bus_state \<Rightarrow> bus_result \<times> http_request list \<times> bus_state" where
  "bus_send H bc r name d req s = (case he_send H req of
      HttpOk status hs body \<Rightarrow>
        (Inr (status, hs, body, d), [req],
         s\<lparr>bs_journal := append_journal_complete (bc_journal_ms bc) (journal_stub bc r) (ucast status) name None (length body) None (bs_journal s)\<rparr>)
    | HttpBodyErr e \<Rightarrow> (Inl e, [req], s)
    | HttpErr e \<Rightarrow>
        (Inl e, [req], s\<lparr>bs_journal := append_journal_complete (bc_journal_ms bc) (journal_stub bc r) 502 name (Some e) 0 None (bs_journal s)\<rparr>))"

text \<open>The method names the client has builders for; any other upper-cased name is parsed.\<close>

definition known_method :: "string \<Rightarrow> bool" where
  "known_method m \<longleftrightarrow> m \<in> {''GET'', ''HEAD'', ''POST'', ''PUT'', ''PATCH'', ''DELETE''}"

definition bus_direct ::
    "http_env \<Rightarrow> bus_clock \<Rightarrow> bus_request \<Rightarrow> string \<Rightarrow> BusRouteDecisionKind \<Rightarrow> string \<Rightarrow> bool \<Rightarrow> bus_state \<Rightarrow> bus_result \<times> http_request list \<times> bus_state" where
  "bus_direct H bc r name d url always_body s =
    (let m = he_upper H (trim (bq_method r)) in
     case he_build_error H of Some e \<Rightarrow> (Inl e, [], s) | None \<Rightarrow>
     if \<not> known_method m \<and> \<not> he_method_ok H m then (Inl ''unsupported HTTP method'', [], s)
     else case headers_map_to_reqwest H (bq_headers r) of
         Inl e \<Rightarrow> (Inl e, [], s)
       | Inr hs \<Rightarrow>
          bus_send H bc r name d
            \<lparr>hr_method = m, hr_url = url, hr_headers = hs,
             hr_body = (if always_body \<or> bq_body r \<noteq> [] \<or> he_upper H (bq_method r) \<notin> {''GET'', ''HEAD''} then Some (bq_body r) else None)\<rparr> s)"

definition local_target :: "PersistRoot \<Rightarrow> bus_request \<Rightarrow> StackTunRouteRule option \<Rightarrow> string \<times> u16" where
  "local_target root r rule = (case rule of
      None \<Rightarrow> (''127.0.0.1'', fallback_connector_port root (bq_profile_id r))
    | Some rr \<Rightarrow>
       (trim (case rr_local_host rr of None \<Rightarrow> ''127.0.0.1'' | Some h \<Rightarrow> h),
        (case rr_local_port rr of None \<Rightarrow> fallback_connector_port root (bq_profile_id r) | Some p \<Rightarrow> p)))"

definition local_url :: "PersistRoot \<Rightarrow> bus_request \<Rightarrow> StackTunRouteRule option \<Rightarrow> string" where
  "local_url root r rule = (let (h, p) = local_target root r rule in
     scheme_or_http (bq_scheme r) @ ''://'' @ h @ '':'' @ show_nat (unat p) @ with_slash (trim (bq_path r)))"

definition forward_target :: "StackTunRouteRule option \<Rightarrow> string" where
  "forward_target rule = trim (case rule of None \<Rightarrow> [] | Some rr \<Rightarrow> (case rr_forward_url rr of None \<Rightarrow> [] | Some u \<Rightarrow> u))"

definition bus_forward ::
    "http_env \<Rightarrow> bus_clock \<Rightarrow> bus_request \<Rightarrow> StackTunRouteRule option \<Rightarrow> bus_state \<Rightarrow> bus_result \<times> http_request list \<times> bus_state" where
  "bus_forward H bc r rule s =
    (let m = trim (bq_method r) in
     if forward_target rule = [] then (Inl ''forwardUrl missing on matching rule'', [], s)
     else case he_build_error H of Some e \<Rightarrow> (Inl e, [], s) | None \<Rightarrow>
     if \<not> he_method_ok H m then (Inl (''unsupported method `'' @ m @ ''`''), [], s)
     else case headers_map_to_reqwest H (bq_headers r) of
         Inl e \<Rightarrow> (Inl e, [], s)
       | Inr hs \<Rightarrow> bus_send H bc r ''forward'' BusForward
           \<lparr>hr_method = m, hr_url = forward_target rule, hr_headers = hs, hr_body = Some (bq_body r)\<rparr> s)"

definition bus_envelope :: "bus_clock \<Rightarrow> bus_request \<Rightarrow> BusRequestEnvelope" where
  "bus_envelope bc r =
    \<lparr>be_request_id = bq_request_id r, be_trace_id = bq_trace_id r, be_hop_id = bq_hop_id r, be_source_node_id = bq_source_node_id r,
     be_target_node_id = bq_target_node_id r, be_method = bq_method r, be_scheme = bq_scheme r, be_host = bq_host r, be_path = bq_path r,
     be_headers = bq_headers r, be_body_chunk = bq_body r, be_body_finished = True, be_created_at_ms = bc_envelope_ms bc\<rparr>"

text \<open>Queueing; \<open>None\<close> when the task queue blocks.\<close>

definition bus_queue ::
    "http_env \<Rightarrow> bus_clock \<Rightarrow> bus_request \<Rightarrow> bus_state \<Rightarrow> (bus_result \<times> http_request list \<times> bus_state) option" where
  "bus_queue H bc r s =
    (let done_with = (\<lambda>status err n s. s\<lparr>bs_journal := append_journal_complete (bc_journal_ms bc) (journal_stub bc r) status ''queue'' err n None (bs_journal s)\<rparr>) in
     case hm_get (bs_task_queues s) (bq_profile_id r) of
       None \<Rightarrow> Some (Inl ''task queue unavailable for listener profile'', [], done_with 503 (Some ''task queue not initialized for listener profile'') 0 s)
     | Some tq \<Rightarrow>
        (case enqueue (bc_queue bc) (bc_task_id_ms bc) (bc_task_rnd bc) (bc_task_ms bc) (bus_envelope bc r) tq of
           None \<Rightarrow> None
         | Some (res, tq') \<Rightarrow>
            (let s' = s\<lparr>bs_task_queues := hm_insert (bq_profile_id r) tq' (bs_task_queues s)\<rparr> in
             case res of
               Inr rid \<Rightarrow>
                 (let payload = (case he_note H rid (bq_profile_id r) of Some b \<Rightarrow> b | None \<Rightarrow> as_bytes ''{\"error\":\"json\"}'') in
                  Some (Inr (202, [], payload, BusQueue), [], done_with 202 None (length payload) s'))
             | Inl e \<Rightarrow>
                 if e = ''task_queue_full'' then Some (Inl ''task queue full'', [], done_with 503 (Some ''task queue full'') 0 s')
                 else Some (Inl ''enqueue failed'', [], done_with 400 (Some ''enqueue failed'') 0 s'))))"

definition execute_bus_request ::
    "http_env \<Rightarrow> bus_clock \<Rightarrow> PersistRoot \<Rightarrow> StackTunRouteRule list \<Rightarrow> bus_request \<Rightarrow> bus_state
       \<Rightarrow> (bus_result \<times> http_request list \<times> bus_state) option" where
  "execute_bus_request H bc root rules r s =
    (case bus_decision root rules r of
       BusDeny \<Rightarrow>
         Some (Inr (403, [], as_bytes ''Forbidden by route policy'', BusDeny), [],
           s\<lparr>bs_journal := append_journal_complete (bc_journal_ms bc) (journal_stub bc r) 403 ''deny'' None 0 (Some ''blocked'') (bs_journal s)\<rparr>)
     | BusAllow \<Rightarrow>
         Some (bus_direct H bc r ''allow'' BusAllow (build_url (bq_scheme r) (trim (bq_host r)) (trim (bq_path r))) False s)
     | BusForward \<Rightarrow> Some (bus_forward H bc r (bus_rule rules r) s)
     | BusLocalHandle \<Rightarrow> Some (bus_direct H bc r ''localHandle'' BusLocalHandle (local_url root r (bus_rule rules r)) True s)
     | BusQueue \<Rightarrow> bus_queue H bc r s)"

section \<open>The chosen rule\<close>

text \<open>Reference: one scan that keeps the best matching rule, the earlier one on a tie of priority and id.\<close>

definition rule_key :: "StackTunRouteRule \<Rightarrow> int \<times> string" where
  "rule_key r = (- rr_priority r, rr_id r)"

fun best_rule :: "(StackTunRouteRule \<Rightarrow> bool) \<Rightarrow> StackTunRouteRule list \<Rightarrow> StackTunRouteRule option" where
  "best_rule P [] = None"
| "best_rule P (x # xs) =
    (if \<not> P x then best_rule P xs
     else case best_rule P xs of None \<Rightarrow> Some x | Some y \<Rightarrow> if rule_key y < rule_key x then Some y else Some x)"

lemma find_insort_skip: "\<not> P x \<Longrightarrow> List.find P (insort_key f x ys) = List.find P ys"
  by (induction ys) auto

lemma find_insort_take:
  assumes "sorted (map f ys)" "P x"
  shows "List.find P (insort_key f x ys) =
    (case List.find P ys of None \<Rightarrow> Some x | Some y \<Rightarrow> if f y < f x then Some y else Some x)"
  using assms
proof (induction ys)
  case (Cons z zs)
  have "f z \<le> f y" if "List.find P zs = Some y" for y
    using that Cons.prems(1) by (auto simp: find_Some_iff)
  then show ?case using Cons by (auto split: option.splits simp: not_le dest: order.strict_trans2)
qed simp

lemma find_sorted_best: "List.find P (sorted_rules rules) = best_rule P rules"
proof (induction rules)
  case (Cons x xs)
  let ?f = "\<lambda>r. (- rr_priority r, rr_id r)"
  have *: "sorted_rules (x # xs) = insort_key ?f x (sorted_rules xs)" by (simp add: sorted_rules_def)
  have "sorted (map ?f (sorted_rules xs))" by (simp add: sorted_rules_def)
  then show ?case
    using Cons.IH find_insort_skip [of P x ?f] find_insort_take [of ?f "sorted_rules xs" P x]
    by (simp add: * rule_key_def cong: option.case_cong)
qed (simp add: sorted_rules_def)

text \<open>C14: the first match in the sorted rules is the matching rule of highest priority, the smallest id among
  those, and the earliest of two with the same priority and id.\<close>

theorem chosen_rule_best:
  "matching_rule (sorted_rules rules) host path meth = best_rule (\<lambda>r. rule_matches r host path meth) rules"
  by (simp add: matching_rule_def find_sorted_best)

section \<open>Where a request may go\<close>

definition target_ok :: "PersistRoot \<Rightarrow> StackTunRouteRule list \<Rightarrow> bus_request \<Rightarrow> http_request \<Rightarrow> bool" where
  "target_ok root rules r req = (case bus_decision root rules r of
      BusAllow \<Rightarrow> hr_url req = build_url (bq_scheme r) (trim (bq_host r)) (trim (bq_path r))
    | BusForward \<Rightarrow> hr_url req = forward_target (bus_rule rules r) \<and> hr_url req \<noteq> []
    | BusLocalHandle \<Rightarrow> hr_url req = local_url root r (bus_rule rules r)
    | BusDeny \<Rightarrow> False
    | BusQueue \<Rightarrow> False)"

definition decision_name :: "BusRouteDecisionKind \<Rightarrow> string" where
  "decision_name d = (case d of BusAllow \<Rightarrow> ''allow'' | BusDeny \<Rightarrow> ''deny'' | BusForward \<Rightarrow> ''forward''
     | BusLocalHandle \<Rightarrow> ''localHandle'' | BusQueue \<Rightarrow> ''queue'')"

lemma send_sent: "bus_send H bc r name d req s = (res, sent, s') \<Longrightarrow> sent = [req]"
  by (auto simp: bus_send_def split: http_result.splits)

lemma direct_sent:
  "bus_direct H bc r name d url ab s = (res, sent, s') \<Longrightarrow> sent = [] \<or> (\<exists>req. sent = [req] \<and> hr_url req = url)"
  by (auto simp: bus_direct_def Let_def dest!: send_sent split: option.splits if_splits sum.splits)

lemma forward_sent:
  "bus_forward H bc r rule s = (res, sent, s') \<Longrightarrow>
   sent = [] \<or> (\<exists>req. sent = [req] \<and> hr_url req = forward_target rule \<and> hr_url req \<noteq> [])"
  by (auto simp: bus_forward_def Let_def dest!: send_sent split: option.splits if_splits sum.splits)

lemma queue_sent: "bus_queue H bc r s = Some (res, sent, s') \<Longrightarrow> sent = []"
  by (auto simp: bus_queue_def Let_def split: option.splits if_splits sum.splits prod.splits)

text \<open>C15: at most one request is handed to the HTTP client, none for a denied or queued one, and its address is
  the one the decision names.\<close>

theorem bus_target_confined:
  assumes "execute_bus_request H bc root rules r s = Some (res, sent, s')"
  shows "sent = [] \<or> (\<exists>req. sent = [req] \<and> target_ok root rules r req)"
  using assms
  by (cases "bus_decision root rules r")
     (auto simp: execute_bus_request_def target_ok_def dest!: direct_sent forward_sent queue_sent)

section \<open>The journal of answered requests\<close>

definition journal_entry_of :: "bus_request \<Rightarrow> u16 \<Rightarrow> bytes \<Rightarrow> BusRouteDecisionKind \<Rightarrow> RequestBusJournalEntry \<Rightarrow> bool" where
  "journal_entry_of r status body d e \<longleftrightarrow>
     je_status e = ucast status \<and> je_decision e = decision_name d \<and> je_profile_id e = bq_profile_id r \<and>
     je_method e = bq_method r \<and> je_host e = bq_host r \<and> je_path e = bq_path r \<and>
     je_bytes_in e = length (bq_body r) \<and> je_bytes_out e = (if d = BusDeny then 0 else length body) \<and>
     (trim (bq_request_id r) = [] \<or> je_request_id e = bq_request_id r)"

lemma ring_push_bound: "0 < cap \<Longrightarrow> length xs \<le> cap \<Longrightarrow> length (ring_push cap x xs) \<le> cap"
  by (auto simp: ring_push_def)

lemma journal_push:
  "\<exists>e. append_journal_complete ms (journal_stub bc r) st name err n det j = ring_push JOURNAL_CAP e j \<and>
     je_status e = st \<and> je_decision e = name \<and> je_profile_id e = bq_profile_id r \<and> je_method e = bq_method r \<and>
     je_host e = bq_host r \<and> je_path e = bq_path r \<and> je_bytes_in e = length (bq_body r) \<and> je_bytes_out e = n \<and>
     (trim (bq_request_id r) \<noteq> [] \<longrightarrow> je_request_id e = bq_request_id r)"
  by (auto simp: append_journal_complete_def append_journal_def journal_stub_def)

lemma journal_push_entry:
  assumes "name = decision_name d" "n = (if d = BusDeny then 0 else length body)" "st = ucast status"
  shows "\<exists>e. append_journal_complete ms (journal_stub bc r) st name err n det j = ring_push JOURNAL_CAP e j \<and>
     journal_entry_of r status body d e"
  using journal_push [of ms bc r st name err n det j] assms unfolding journal_entry_of_def by metis

definition journalled :: "bus_request \<Rightarrow> bus_result \<Rightarrow> bus_state \<Rightarrow> bus_state \<Rightarrow> bool" where
  "journalled r res s s' \<longleftrightarrow> (case res of Inl _ \<Rightarrow> True
     | Inr (status, hs, body, d) \<Rightarrow>
        (\<exists>e. bs_journal s' = ring_push JOURNAL_CAP e (bs_journal s) \<and> journal_entry_of r status body d e))"

lemma send_journalled:
  "bus_send H bc r (decision_name d) d req s = (res, sent, s') \<Longrightarrow> d \<noteq> BusDeny \<Longrightarrow> journalled r res s s'"
  by (auto simp: bus_send_def journalled_def intro!: journal_push_entry split: http_result.splits)

lemma direct_journalled:
  "bus_direct H bc r (decision_name d) d url ab s = (res, sent, s') \<Longrightarrow> d \<noteq> BusDeny \<Longrightarrow> journalled r res s s'"
  by (auto simp: bus_direct_def Let_def dest!: send_journalled split: option.splits if_splits sum.splits)
     (auto simp: journalled_def)

lemma forward_journalled: "bus_forward H bc r rule s = (res, sent, s') \<Longrightarrow> journalled r res s s'"
  using send_journalled [where d = BusForward]
  by (fastforce simp: bus_forward_def Let_def decision_name_def journalled_def split: option.splits if_splits sum.splits)

lemma queue_journalled: "bus_queue H bc r s = Some (res, sent, s') \<Longrightarrow> journalled r res s s'"
  by (auto simp: bus_queue_def Let_def journalled_def decision_name_def intro!: journal_push_entry
      split: option.splits if_splits sum.splits prod.splits)

lemma execute_journalled:
  "execute_bus_request H bc root rules r s = Some (res, sent, s') \<Longrightarrow> journalled r res s s'"
  using direct_journalled [where d = BusAllow] direct_journalled [where d = BusLocalHandle]
  by (cases "bus_decision root rules r")
     (auto simp: execute_bus_request_def decision_name_def dest: forward_journalled queue_journalled,
      auto simp: journalled_def decision_name_def intro!: journal_push_entry)

text \<open>an answered request adds exactly one entry to the end of the journal, with its status, decision and
  sizes, and the journal stays within its capacity.\<close>

theorem bus_journal_exact:
  assumes "execute_bus_request H bc root rules r s = Some (Inr (status, hs, body, d), sent, s')"
    and "length (bs_journal s) \<le> JOURNAL_CAP"
  shows "(\<exists>e. bs_journal s' = ring_push JOURNAL_CAP e (bs_journal s) \<and> journal_entry_of r status body d e) \<and>
    length (bs_journal s') \<le> JOURNAL_CAP"
proof -
  obtain e where "bs_journal s' = ring_push JOURNAL_CAP e (bs_journal s)" "journal_entry_of r status body d e"
    using execute_journalled [OF assms(1)] by (auto simp: journalled_def)
  then show ?thesis using ring_push_bound [OF _ assms(2)] by (auto simp: JOURNAL_CAP_def)
qed

section \<open>Examples\<close>

definition bus_env_example :: http_env where
  "bus_env_example = \<lparr>he_build_error = None, he_upper = (\<lambda>s. s), he_method_ok = (\<lambda>m. m \<noteq> []), he_header_name = Some,
     he_value_ok = (\<lambda>v. True), he_send = (\<lambda>q. HttpOk 200 [] [111, 107]), he_note = (\<lambda>i p. Some [])\<rparr>"

definition bus_clock_example :: bus_clock where
  "bus_clock_example = \<lparr>bc_stub_ms = 1, bc_journal_ms = 2, bc_envelope_ms = 3, bc_task_id_ms = 4, bc_task_ms = 5,
     bc_task_rnd = 6, bc_queue = clock_at 7\<rparr>"

definition bus_request_example :: bus_request where
  "bus_request_example = \<lparr>bq_profile_id = ''p'', bq_request_id = ''r1'', bq_trace_id = [], bq_source_node_id = [],
     bq_target_node_id = [], bq_hop_id = 0, bq_method = ''GET'', bq_scheme = [], bq_host = ''h'', bq_path = ''/a'',
     bq_headers = [], bq_body = []\<rparr>"

definition bus_rule_example :: StackTunRouteRule where
  "bus_rule_example = \<lparr>rr_id = ''f'', rr_priority = 1, rr_host_contains = None, rr_path_prefix = Some ''/a'', rr_method = None,
     rr_decision = BusForward, rr_forward_url = Some ''http://up/'', rr_local_host = None, rr_local_port = None\<rparr>"

lemmas bus_example_defs = bus_env_example_def bus_clock_example_def bus_request_example_def bus_rule_example_def

lemma bus_example_run:
  "\<exists>s'. execute_bus_request bus_env_example bus_clock_example \<lparr>ro_version = 0, ro_profiles = [], ro_routes = []\<rparr>
     [bus_rule_example] bus_request_example \<lparr>bs_journal = [], bs_task_queues = []\<rparr> =
   Some (Inr (200, [], [111, 107], BusForward),
     [\<lparr>hr_method = ''GET'', hr_url = ''http://up/'', hr_headers = [], hr_body = Some []\<rparr>], s')"
  unfolding bus_example_defs by (rule exI) code_simp

theorem bus_target_confined_witness:
  "target_ok \<lparr>ro_version = 0, ro_profiles = [], ro_routes = []\<rparr> [bus_rule_example] bus_request_example
     \<lparr>hr_method = ''GET'', hr_url = ''http://up/'', hr_headers = [], hr_body = Some []\<rparr>"
  using bus_example_run bus_target_confined by fastforce

theorem bus_journal_exact_witness:
  "\<exists>e. journal_entry_of bus_request_example 200 [111, 107] BusForward e"
proof -
  obtain s' where "execute_bus_request bus_env_example bus_clock_example \<lparr>ro_version = 0, ro_profiles = [], ro_routes = []\<rparr>
     [bus_rule_example] bus_request_example \<lparr>bs_journal = [], bs_task_queues = []\<rparr> =
   Some (Inr (200, [], [111, 107], BusForward),
     [\<lparr>hr_method = ''GET'', hr_url = ''http://up/'', hr_headers = [], hr_body = Some []\<rparr>], s')"
    using bus_example_run by blast
  from bus_journal_exact [OF this] show ?thesis by auto
qed

end
