(* ===== verification/Tun_State.thy ===== *)
theory Tun_State
  imports Request_Bus Server_Auth
begin

text \<open>
  The shared state of the stack tunnel service (\<^verbatim>\<open>stack-tun-api/src/state.rs\<close> and \<^verbatim>\<open>queue.rs\<close>): the queues of
  waiting TCP streams, the reconciliation of queues and tasks with the stored profiles, and the checks a
  gRPC stream passes before it is served (\<^verbatim>\<open>grpc_svc.rs\<close>). A running listener or connector task is represented by
  the profile it was started with. The text form of a socket address is parsed by the standard library; whether
  it parses is the argument \<open>addr_ok\<close>.
\<close>

section \<open>Queues of TCP streams\<close>

record 's StreamQueue =
  sq_cap :: nat
  sq_offer_ttl :: nat
  sq_inner :: "('s \<times> nat) list"

record stream_stats =
  ss_accepts :: u64
  ss_dropped_full :: u64
  ss_dropped_expired :: u64

definition StreamQueue_new :: "nat \<Rightarrow> nat \<Rightarrow> 's StreamQueue" where
  "StreamQueue_new cap ttl = \<lparr>sq_cap = cap, sq_offer_ttl = ttl, sq_inner = []\<rparr>"

fun prune_loop :: "nat \<Rightarrow> nat \<Rightarrow> ('s \<times> nat) list \<Rightarrow> stream_stats \<Rightarrow> ('s \<times> nat) list \<times> stream_stats" where
  "prune_loop ttl now [] g = ([], g)"
| "prune_loop ttl now ((s, t) # ps) g =
    (if ttl < now - t then prune_loop ttl now ps (g\<lparr>ss_dropped_expired := ss_dropped_expired g + 1\<rparr>) else ((s, t) # ps, g))"

definition prune_expired :: "nat \<Rightarrow> 's StreamQueue \<Rightarrow> stream_stats \<Rightarrow> 's StreamQueue \<times> stream_stats" where
  "prune_expired now q g = (let (ps, g') = prune_loop (sq_offer_ttl q) now (sq_inner q) g in (q\<lparr>sq_inner := ps\<rparr>, g'))"

definition try_enqueue :: "nat \<Rightarrow> nat \<Rightarrow> 's \<Rightarrow> 's StreamQueue \<Rightarrow> stream_stats \<Rightarrow> bool \<times> 's StreamQueue \<times> stream_stats" where
  "try_enqueue now now2 s q0 g0 = (let (q, g) = prune_expired now q0 g0 in
     if sq_cap q \<le> length (sq_inner q) then (False, q, g\<lparr>ss_dropped_full := ss_dropped_full g + 1\<rparr>)
     else (True, q\<lparr>sq_inner := sq_inner q @ [(s, now2)]\<rparr>, g\<lparr>ss_accepts := ss_accepts g + 1\<rparr>))"

text \<open>One round of the loop of \<open>dequeue\<close>; without a stream the caller waits for a notification or its timeout.\<close>

definition dequeue_round :: "nat \<Rightarrow> 's StreamQueue \<Rightarrow> stream_stats \<Rightarrow> 's option \<times> 's StreamQueue \<times> stream_stats" where
  "dequeue_round now q0 g0 = (let (q, g) = prune_expired now q0 g0 in
     case sq_inner q of [] \<Rightarrow> (None, q, g) | (s, t) # ps \<Rightarrow> (Some s, q\<lparr>sq_inner := ps\<rparr>, g))"

section \<open>Reconciliation\<close>

record 's tun_state =
  ts_root :: PersistRoot
  ts_peers :: "bytes set"
  ts_auth_cfg :: AuthConfig
  ts_nonce :: NonceTracker
  ts_queues :: "(string, 's StreamQueue) hmap"
  ts_bus :: bus_state
  ts_listener_tasks :: "(string, TunnelProfile) hmap"
  ts_connector_tasks :: "(string, TunnelProfile) hmap"

abbreviation ts_task_queues :: "'s tun_state \<Rightarrow> (string, TaskQueue) hmap" where
  "ts_task_queues st \<equiv> bs_task_queues (ts_bus st)"

text \<open>Durations are milliseconds, as in \<open>Task_Queue\<close>.\<close>

definition upsert_listener_queue :: "TunnelProfile \<Rightarrow> (string, 's StreamQueue) hmap \<Rightarrow> (string, 's StreamQueue) hmap" where
  "upsert_listener_queue p mq =
    (if hm_contains mq (tp_id p) then mq
     else hm_insert (tp_id p) (StreamQueue_new (max (tp_max_pending_streams p) 1) (1000 * max (tp_stream_offer_ttl_secs p) 1)) mq)"

definition task_queue_of :: "TunnelProfile \<Rightarrow> TaskQueue" where
  "task_queue_of p = TaskQueue_new (trim (tp_id p))
     (max (case tp_max_pending_tasks p of None \<Rightarrow> tp_max_pending_streams p | Some n \<Rightarrow> n) 1)
     (1000 * max (case tp_task_queue_ttl_secs p of None \<Rightarrow> tp_stream_offer_ttl_secs p | Some n \<Rightarrow> n) 1)
     (1000 * max (case tp_task_claim_lease_secs p of None \<Rightarrow> 300 | Some n \<Rightarrow> n) 30)"

definition upsert_listener_task_queue :: "TunnelProfile \<Rightarrow> (string, TaskQueue) hmap \<Rightarrow> (string, TaskQueue) hmap" where
  "upsert_listener_task_queue p mq =
    (if hm_contains mq (tp_id p) then mq else hm_insert (tp_id p) (task_queue_of p) mq)"

definition relay_listener :: "TunnelProfile \<Rightarrow> bool" where
  "relay_listener p \<longleftrightarrow> tp_enabled p \<and> tp_role p = Listen \<and> tp_mode p = TcpRelay"

definition bus_listener :: "TunnelProfile \<Rightarrow> bool" where
  "bus_listener p \<longleftrightarrow> tp_enabled p \<and> tp_role p = Listen \<and> tp_mode p = RequestBus"

definition connector_profile :: "TunnelProfile \<Rightarrow> bool" where
  "connector_profile p \<longleftrightarrow> tp_enabled p \<and> tp_role p = Connector"

definition addr_for_listen :: "(string \<Rightarrow> bool) \<Rightarrow> TunnelProfile \<Rightarrow> bool" where
  "addr_for_listen addr_ok p = (case tp_listen_addr p of None \<Rightarrow> False | Some raw \<Rightarrow> addr_ok (trim raw))"

definition start_task :: "(TunnelProfile \<Rightarrow> bool) \<Rightarrow> TunnelProfile \<Rightarrow> (string, TunnelProfile) hmap \<Rightarrow> (string, TunnelProfile) hmap" where
  "start_task wanted p m = (if \<not> wanted p \<or> hm_contains m (tp_id p) then m else hm_insert (tp_id p) p m)"

definition ids_of :: "(TunnelProfile \<Rightarrow> bool) \<Rightarrow> PersistRoot \<Rightarrow> string set" where
  "ids_of P root = tp_id ` set (filter P (ro_profiles root))"

definition sync_listen :: "(string \<Rightarrow> bool) \<Rightarrow> PersistRoot \<Rightarrow> 's tun_state \<Rightarrow> 's tun_state" where
  "sync_listen addr_ok root st =
    (let desired = ids_of relay_listener root;
         qs = fold upsert_listener_queue (filter relay_listener (ro_profiles root)) (ts_queues st);
         lm = hm_retain (\<lambda>i _. i \<in> desired) (ts_listener_tasks st);
         desired_tq = ids_of bus_listener root;
         tqs = fold upsert_listener_task_queue (filter bus_listener (ro_profiles root)) (ts_task_queues st);
         tqs' = hm_retain (\<lambda>i _. i \<in> desired_tq) tqs;
         lm' = fold (start_task (\<lambda>p. relay_listener p \<and> addr_for_listen addr_ok p)) (ro_profiles root) lm
     in st\<lparr>ts_queues := qs, ts_listener_tasks := lm', ts_bus := (ts_bus st)\<lparr>bs_task_queues := tqs'\<rparr>\<rparr>)"

definition sync_connector :: "PersistRoot \<Rightarrow> 's tun_state \<Rightarrow> 's tun_state" where
  "sync_connector root st =
    (let cm = hm_retain (\<lambda>i _. i \<in> ids_of connector_profile root) (ts_connector_tasks st)
     in st\<lparr>ts_connector_tasks := fold (start_task connector_profile) (ro_profiles root) cm\<rparr>)"

definition resync_all :: "(string \<Rightarrow> bool) \<Rightarrow> 's tun_state \<Rightarrow> 's tun_state" where
  "resync_all addr_ok st = sync_connector (ts_root st) (sync_listen addr_ok (ts_root st) st)"

section \<open>Admission of a gRPC stream\<close>

definition META_TUN_PROFILE :: string where "META_TUN_PROFILE = ''x-stack-tun-profile''"

fun connector_listed :: "auth_crypto \<Rightarrow> string list \<Rightarrow> bytes \<Rightarrow> bool" where
  "connector_listed A [] pk = False"
| "connector_listed A (b # bs) pk = (case parse_verifying_key_b64 A b of
      Inl _ \<Rightarrow> connector_listed A bs pk | Inr vk \<Rightarrow> vk = pk \<or> connector_listed A bs pk)"

definition connector_allowed :: "auth_crypto \<Rightarrow> TunnelProfile \<Rightarrow> bytes \<Rightarrow> bool" where
  "connector_allowed A p pk \<longleftrightarrow> tp_connector_allow_pubkey_b64 p = [] \<or> connector_listed A (tp_connector_allow_pubkey_b64 p) pk"

definition grpc_verify_signed_stack_meta ::
    "auth_crypto \<Rightarrow> int \<Rightarrow> metadata \<Rightarrow> string \<Rightarrow> string \<Rightarrow> 's tun_state \<Rightarrow> (status + bytes) \<times> 's tun_state" where
  "grpc_verify_signed_stack_meta A now m pid meth st = (case meta_text A m META_TUN_PROFILE of
      None \<Rightarrow> (Inl (PermissionDenied ''missing x-stack-tun-profile''), st)
    | Some hdr \<Rightarrow>
       if trim hdr \<noteq> trim pid then (Inl (PermissionDenied ''profile metadata mismatch canonical payload''), st)
       else case verify_rpc_metadata A now m (ts_peers st) meth pid (ts_auth_cfg st) (ts_nonce st) of (res, tr) \<Rightarrow>
         (case res of
            Inl e \<Rightarrow> Inl (PermissionDenied (auth_error_string e))
          | Inr _ \<Rightarrow>
             (case meta_text A m META_PUBKEY of
                None \<Rightarrow> Inl (PermissionDenied ''missing x-deploy-pubkey'')
              | Some pk \<Rightarrow>
                 (case parse_verifying_key_b64 A pk of
                    Inl e \<Rightarrow> Inl (PermissionDenied (''invalid pubkey '' @ auth_error_string e))
                  | Inr vk \<Rightarrow> Inr vk)),
          st\<lparr>ts_nonce := tr\<rparr>))"

definition listener_profile_clone :: "string \<Rightarrow> PersistRoot \<Rightarrow> status + TunnelProfile" where
  "listener_profile_clone i root = (case List.find (\<lambda>p. tp_id p = i) (ro_profiles root) of
      None \<Rightarrow> Inl (NotFound ''tunnel profile'')
    | Some p \<Rightarrow> if \<not> tp_enabled p \<or> tp_role p \<noteq> Listen then Inl (FailedPrecondition ''not an enabled listener'') else Inr p)"

datatype tun_rpc = TunnelStream | RequestBusStream | TaskQueueStream

definition rpc_method :: "tun_rpc \<Rightarrow> string" where
  "rpc_method r = (case r of TunnelStream \<Rightarrow> ''StackTunTunnel'' | RequestBusStream \<Rightarrow> ''StackTunRequestBus''
     | TaskQueueStream \<Rightarrow> ''StackTunTaskQueue'')"

definition rpc_mode :: "tun_rpc \<Rightarrow> TunnelMode" where
  "rpc_mode r = (case r of TunnelStream \<Rightarrow> TcpRelay | _ \<Rightarrow> RequestBus)"

definition mode_refusal :: "tun_rpc \<Rightarrow> string" where
  "mode_refusal r = (case r of
      TunnelStream \<Rightarrow> ''listener profile uses requestBus mode; use RequestBusStream instead''
    | RequestBusStream \<Rightarrow> ''listener profile mode must be requestBus''
    | TaskQueueStream \<Rightarrow> ''listener profile mode must be requestBus for task queue worker'')"

text \<open>The three streaming calls up to the \<open>Ready\<close> message: the served profile and the key of the peer.\<close>

definition open_stream ::
    "auth_crypto \<Rightarrow> int \<Rightarrow> tun_rpc \<Rightarrow> metadata \<Rightarrow> 's tun_state \<Rightarrow> (status + TunnelProfile \<times> bytes) \<times> 's tun_state" where
  "open_stream A now rpc m st = (case meta_text A m META_TUN_PROFILE of
      None \<Rightarrow> (Inl (PermissionDenied ''missing x-stack-tun-profile header''), st)
    | Some pid \<Rightarrow>
       (case grpc_verify_signed_stack_meta A now m pid (rpc_method rpc) st of (res, st') \<Rightarrow>
          (case res of
             Inl e \<Rightarrow> Inl e
           | Inr vk \<Rightarrow>
              (case listener_profile_clone pid (ts_root st') of
                 Inl e \<Rightarrow> Inl e
               | Inr p \<Rightarrow>
                  if tp_mode p \<noteq> rpc_mode rpc then Inl (FailedPrecondition (mode_refusal rpc))
                  else if \<not> connector_allowed A p vk
                  then Inl (PermissionDenied ''public key not in connector allow-list for profile'')
                  else Inr (p, vk)), st')))"

definition insert_profile_meta :: "auth_crypto \<Rightarrow> string \<Rightarrow> metadata \<Rightarrow> (AuthError + unit) \<times> metadata" where
  "insert_profile_meta A pid m =
    (if ac_value_ok A (trim pid) then (Inr (), hm_insert META_TUN_PROFILE (trim pid) m)
     else (Inl (InvalidMetadata ''x-stack-tun-profile value''), m))"

text \<open>\<open>signing_attach_tunnel\<close> and \<open>signing_attach_task_queue\<close>, which differ in the method they sign.\<close>

definition signing_attach ::
    "auth_crypto \<Rightarrow> int \<Rightarrow> u64 \<Rightarrow> bytes \<Rightarrow> tun_rpc \<Rightarrow> string \<Rightarrow> metadata \<Rightarrow> (AuthError + unit) \<times> metadata" where
  "signing_attach A ts rnd sk rpc pid m = (case attach_auth_metadata A ts rnd sk (rpc_method rpc) ''default'' pid m of
      (Inl e, m') \<Rightarrow> (Inl e, m')
    | (Inr _, m') \<Rightarrow> insert_profile_meta A pid m')"

section \<open>Streams are handed over in order and fresh\<close>

lemma prune_loop_drop:
  assumes "prune_loop ttl now ps g = (ps', g')"
  shows "\<exists>old. ps = old @ ps' \<and> list_all (\<lambda>(s, t). ttl < now - t) old \<and>
    (case ps' of [] \<Rightarrow> True | (s, t) # _ \<Rightarrow> now - t \<le> ttl)"
  using assms
proof (induction ttl now ps g rule: prune_loop.induct)
  case (2 ttl now s t ps g)
  show ?case
  proof (cases "ttl < now - t")
    case True
    with 2 obtain old where "ps = old @ ps'" "list_all (\<lambda>(s, t). ttl < now - t) old"
      "case ps' of [] \<Rightarrow> True | (s, t) # _ \<Rightarrow> now - t \<le> ttl" by auto
    with True show ?thesis by (intro exI [of _ "(s, t) # old"]) auto
  qed (use 2 in auto)
qed simp

text \<open>\<open>dequeue\<close> hands out the oldest stream that has not outlived its offer; every stream before it has expired, the
  rest stay in order, and \<open>try_enqueue\<close> never exceeds the capacity.\<close>

theorem streams_in_order:
  assumes "length (sq_inner q) \<le> sq_cap q"
    and "dequeue_round now q g = (r, q', g')" and "try_enqueue now now2 s q g = (ok, q2, g2)"
  shows "(\<exists>old. list_all (\<lambda>(s, t). sq_offer_ttl q < now - t) old \<and>
        (case r of None \<Rightarrow> sq_inner q = old \<and> sq_inner q' = []
         | Some s \<Rightarrow> (\<exists>t. sq_inner q = old @ (s, t) # sq_inner q' \<and> now - t \<le> sq_offer_ttl q))) \<and>
     length (sq_inner q2) \<le> sq_cap q"
proof -
  obtain ps g1 where p: "prune_loop (sq_offer_ttl q) now (sq_inner q) g = (ps, g1)" by fastforce
  then have pr: "prune_expired now q g = (q\<lparr>sq_inner := ps\<rparr>, g1)" by (simp add: prune_expired_def)
  from prune_loop_drop [OF p] obtain old where old: "sq_inner q = old @ ps"
    "list_all (\<lambda>(s, t). sq_offer_ttl q < now - t) old" "case ps of [] \<Rightarrow> True | (s, t) # _ \<Rightarrow> now - t \<le> sq_offer_ttl q" by auto
  have "case r of None \<Rightarrow> sq_inner q = old \<and> sq_inner q' = []
      | Some s \<Rightarrow> (\<exists>t. sq_inner q = old @ (s, t) # sq_inner q' \<and> now - t \<le> sq_offer_ttl q)"
    using assms(2) old(1,3) by (cases ps) (auto simp: dequeue_round_def pr)
  moreover have "length (sq_inner q2) \<le> sq_cap q"
    using assms(1,3) old(1) by (auto simp: try_enqueue_def pr split: if_splits)
  ultimately show ?thesis using old(2) by blast
qed

definition stream_queue_example :: "nat StreamQueue" where
  "stream_queue_example = \<lparr>sq_cap = 2, sq_offer_ttl = 10, sq_inner = [(1, 0), (2, 15)]\<rparr>"

theorem streams_in_order_witness:
  "\<exists>old. list_all (\<lambda>(s, t). 10 < 20 - t) old \<and> sq_inner stream_queue_example = old @ [(2, 15)]"
proof -
  define g where "g = \<lparr>ss_accepts = 0, ss_dropped_full = 0, ss_dropped_expired = 0\<rparr>"
  have d: "dequeue_round 20 stream_queue_example g = (Some 2, \<lparr>sq_cap = 2, sq_offer_ttl = 10, sq_inner = []\<rparr>, g\<lparr>ss_dropped_expired := 1\<rparr>)"
    by (simp add: dequeue_round_def prune_expired_def stream_queue_example_def g_def)
  obtain ok q2 g2 where e: "try_enqueue 20 20 3 stream_queue_example g = (ok, q2, g2)" by (metis prod_cases3)
  have l: "length (sq_inner stream_queue_example) \<le> sq_cap stream_queue_example" by (simp add: stream_queue_example_def)
  from streams_in_order [OF l d e] show ?thesis by (auto simp: stream_queue_example_def)
qed

section \<open>What reconciliation keeps and starts\<close>

lemma upsert_queue_get:
  "hm_get (upsert_listener_task_queue p mq) i =
    (case hm_get mq i of Some q \<Rightarrow> Some q | None \<Rightarrow> if i = tp_id p then Some (task_queue_of p) else None)"
  by (auto simp: upsert_listener_task_queue_def hm_contains_get split: option.splits)

lemma fold_upsert_keeps: "hm_get mq i = Some q \<Longrightarrow> hm_get (fold upsert_listener_task_queue ps mq) i = Some q"
  by (induction ps arbitrary: mq) (simp_all add: upsert_queue_get)

lemma fold_upsert_dom:
  "(hm_get (fold upsert_listener_task_queue ps mq) i \<noteq> None) = (hm_get mq i \<noteq> None \<or> i \<in> tp_id ` set ps)"
  by (induction ps arbitrary: mq) (auto simp: upsert_queue_get split: option.splits)

lemma start_get:
  "hm_get (start_task w p m) i =
    (case hm_get m i of Some x \<Rightarrow> Some x | None \<Rightarrow> if w p \<and> i = tp_id p then Some p else None)"
  by (auto simp: start_task_def hm_contains_get split: option.splits)

lemma fold_start_keeps: "hm_get m i = Some x \<Longrightarrow> hm_get (fold (start_task w) ps m) i = Some x"
  by (induction ps arbitrary: m) (simp_all add: start_get)

lemma fold_start_dom:
  "(hm_get (fold (start_task w) ps m) i \<noteq> None) = (hm_get m i \<noteq> None \<or> i \<in> tp_id ` set (filter w ps))"
  by (induction ps arbitrary: m) (auto simp: start_get split: option.splits)

lemma fold_upsert_ok: "hm_ok mq \<Longrightarrow> hm_ok (fold upsert_listener_task_queue ps mq)"
  by (induction ps arbitrary: mq) (simp_all add: upsert_listener_task_queue_def)

definition tun_ok :: "'s tun_state \<Rightarrow> bool" where
  "tun_ok st \<longleftrightarrow> hm_ok (ts_task_queues st) \<and> hm_ok (ts_listener_tasks st) \<and> hm_ok (ts_connector_tasks st)"

lemma resync_task_queues:
  assumes "tun_ok st"
  shows "hm_get (ts_task_queues (resync_all addr_ok st)) i =
    (if i \<in> ids_of bus_listener (ts_root st)
     then hm_get (fold upsert_listener_task_queue (filter bus_listener (ro_profiles (ts_root st))) (ts_task_queues st)) i else None)"
  using assms by (auto simp: resync_all_def sync_connector_def sync_listen_def Let_def tun_ok_def fold_upsert_ok split: option.splits)

lemma resync_listeners:
  "ts_listener_tasks (resync_all addr_ok st) =
     fold (start_task (\<lambda>p. relay_listener p \<and> addr_for_listen addr_ok p)) (ro_profiles (ts_root st))
       (hm_retain (\<lambda>i _. i \<in> ids_of relay_listener (ts_root st)) (ts_listener_tasks st))"
  "ts_connector_tasks (resync_all addr_ok st) =
     fold (start_task connector_profile) (ro_profiles (ts_root st))
       (hm_retain (\<lambda>i _. i \<in> ids_of connector_profile (ts_root st)) (ts_connector_tasks st))"
  by (simp_all add: resync_all_def sync_connector_def sync_listen_def Let_def)

text \<open>after reconciliation there is a task queue exactly for every enabled request-bus listener and a connector task
  exactly for every enabled connector, every running listener belongs to an enabled relay profile, and every such
  profile with a valid address has one.\<close>

theorem resync_exact:
  assumes ok: "tun_ok st" and st': "st' = resync_all addr_ok st"
  shows "{i. hm_get (ts_task_queues st') i \<noteq> None} = ids_of bus_listener (ts_root st) \<and>
    {i. hm_get (ts_connector_tasks st') i \<noteq> None} = ids_of connector_profile (ts_root st) \<and>
    {i. hm_get (ts_listener_tasks st') i \<noteq> None} \<subseteq> ids_of relay_listener (ts_root st) \<and>
    ids_of (\<lambda>p. relay_listener p \<and> addr_for_listen addr_ok p) (ts_root st) \<subseteq> {i. hm_get (ts_listener_tasks st') i \<noteq> None}"
proof (intro conjI)
  show "{i. hm_get (ts_task_queues st') i \<noteq> None} = ids_of bus_listener (ts_root st)"
    using fold_upsert_dom [of "filter bus_listener (ro_profiles (ts_root st))" "ts_task_queues st"]
    by (auto simp: st' resync_task_queues [OF ok] ids_of_def)
  show "{i. hm_get (ts_connector_tasks st') i \<noteq> None} = ids_of connector_profile (ts_root st)"
    using ok by (auto simp: st' resync_listeners fold_start_dom ids_of_def tun_ok_def simp del: not_None_eq split: option.splits if_splits)
  show "{i. hm_get (ts_listener_tasks st') i \<noteq> None} \<subseteq> ids_of relay_listener (ts_root st)"
    "ids_of (\<lambda>p. relay_listener p \<and> addr_for_listen addr_ok p) (ts_root st) \<subseteq> {i. hm_get (ts_listener_tasks st') i \<noteq> None}"
    using ok by (auto simp: st' resync_listeners fold_start_dom ids_of_def tun_ok_def simp del: not_None_eq split: option.splits if_splits)
qed

text \<open>reconciliation leaves a running listener and an existing task queue as they are, whatever the stored profile
  now says: a new address or new limits take no effect while the id stays enabled.\<close>

theorem resync_ignores_changes:
  assumes "tun_ok st"
  shows "(i \<in> ids_of relay_listener (ts_root st) \<and> hm_get (ts_listener_tasks st) i = Some old \<longrightarrow>
      hm_get (ts_listener_tasks (resync_all addr_ok st)) i = Some old) \<and>
    (i \<in> ids_of bus_listener (ts_root st) \<and> hm_get (ts_task_queues st) i = Some q \<longrightarrow>
      hm_get (ts_task_queues (resync_all addr_ok st)) i = Some q)"
  using assms by (auto simp: resync_task_queues fold_upsert_keeps resync_listeners tun_ok_def intro!: fold_start_keeps)

section \<open>Examples of reconciliation\<close>

definition profile_example :: "string \<Rightarrow> TunnelRole \<Rightarrow> TunnelMode \<Rightarrow> string \<Rightarrow> TunnelProfile" where
  "profile_example i role mode addr =
    \<lparr>tp_id = i, tp_name = ''tunnel'', tp_role = role, tp_mode = mode, tp_link_kind = LinkLocal, tp_source_node_id = None,
     tp_target_node_id = None, tp_route_tags = [], tp_allowed_hosts = [], tp_allowed_paths = [], tp_route_priority = None,
     tp_default_bus_decision = None, tp_listen_addr = Some addr, tp_remote_grpc_endpoint = None, tp_listen_profile_id = None,
     tp_target_host = [], tp_target_port = 0, tp_max_pending_streams = 128, tp_stream_offer_ttl_secs = 300,
     tp_pull_wait_ms = 30000, tp_connector_allow_pubkey_b64 = [], tp_enabled = True, tp_max_pending_tasks = None,
     tp_task_queue_ttl_secs = None, tp_task_claim_lease_secs = None\<rparr>"

definition tun_example :: "TunnelProfile list \<Rightarrow> bytes set \<Rightarrow> nat tun_state" where
  "tun_example ps peers =
    \<lparr>ts_root = \<lparr>ro_version = 1, ro_profiles = ps, ro_routes = []\<rparr>, ts_peers = peers, ts_auth_cfg = AuthConfig_default,
     ts_nonce = [], ts_queues = [], ts_bus = \<lparr>bs_journal = [], bs_task_queues = []\<rparr>, ts_listener_tasks = [], ts_connector_tasks = []\<rparr>"

theorem resync_exact_witness:
  "{i. hm_get (ts_task_queues (resync_all (\<lambda>_. True) (tun_example [profile_example ''b'' Listen RequestBus []] {}))) i \<noteq> None} = {''b''}"
  using resync_exact [of "tun_example [profile_example ''b'' Listen RequestBus []] {}", OF _ refl, of "\<lambda>_. True"]
  by (simp add: tun_ok_def tun_example_def profile_example_def ids_of_def bus_listener_def)

text \<open>The profile was stored with a new address; the listener still runs with the old one.\<close>

theorem resync_ignores_changes_witness:
  "hm_get (ts_listener_tasks (resync_all (\<lambda>_. True)
     ((tun_example [profile_example ''a'' Listen TcpRelay ''0.0.0.0:2''] {})
        \<lparr>ts_listener_tasks := [(''a'', profile_example ''a'' Listen TcpRelay ''0.0.0.0:1'')]\<rparr>))) ''a''
   = Some (profile_example ''a'' Listen TcpRelay ''0.0.0.0:1'')"
  using resync_ignores_changes [of "(tun_example [profile_example ''a'' Listen TcpRelay ''0.0.0.0:2''] {})
        \<lparr>ts_listener_tasks := [(''a'', profile_example ''a'' Listen TcpRelay ''0.0.0.0:1'')]\<rparr>" "''a''"
        "profile_example ''a'' Listen TcpRelay ''0.0.0.0:1''" "\<lambda>_. True"]
  by (simp add: tun_ok_def hm_ok_def tun_example_def profile_example_def ids_of_def relay_listener_def hm_get_def)

section \<open>Admission\<close>

text \<open>C16: with authentication on, an admitted stream belongs to an enabled listener profile of the mode of the call, its key
  is an authorised peer on the allow list of the profile, and the signature in the metadata verifies under that key
  for exactly this kind of stream, this profile id and the time and nonce of the metadata.\<close>

theorem admitted_stream_authorised:
  assumes "fst (open_stream A now rpc m st) = Inr (p, vk)" and "\<not> allow_unauthenticated (ts_auth_cfg st)"
  shows "vk \<in> ts_peers st \<and> p \<in> set (ro_profiles (ts_root st)) \<and> tp_enabled p \<and> tp_role p = Listen \<and>
    tp_mode p = rpc_mode rpc \<and> connector_allowed A p vk \<and>
    (\<exists>t ts n sig. meta_text A m META_TS = Some t \<and> parse_i64 t = Some ts \<and> meta_text A m META_NONCE = Some n \<and>
       meta_text A m META_SIG = Some sig \<and> i64_abs (i64_sub now ts) \<le> max_clock_skew_ms (ts_auth_cfg st) \<and>
       verify_sig A vk (rpc_canonical (rpc_method rpc) ts n (tp_id p)) sig = Inr ())"
  using assms
  by (auto simp: open_stream_def grpc_verify_signed_stack_meta_def verify_rpc_metadata_def need_text_def verify_peer_def
      listener_profile_clone_def find_Some_iff split: option.splits sum.splits prod.splits if_splits)

lemma tun_profile_other: "META_TUN_PROFILE \<notin> {META_PUBKEY, META_TS, META_NONCE, META_SIG}"
  by (simp add: META_TUN_PROFILE_def meta_names)

lemma tun_payload: "signing_payload (rpc_method rpc) project pid = trim pid"
  by (cases rpc) (simp_all add: signing_payload_def rpc_method_def Let_def)

lemma attached_stream_fields:
  fixes sk :: bytes and rnd :: u64 and ts :: int and rpc :: tun_rpc
  assumes C: "auth_crypto_ok A" and pr: "printable pid"
  defines "r \<equiv> signing_attach A ts rnd sk rpc pid []"
  shows "fst r = Inr ()" "meta_text A (snd r) META_TUN_PROFILE = Some (trim pid)"
    "meta_text A (snd r) META_PUBKEY = Some (pubkey_b64_url A sk)" "meta_text A (snd r) META_TS = Some (show_int ts)"
    "meta_text A (snd r) META_NONCE = Some (hex16 rnd)"
    "meta_text A (snd r) META_SIG = Some (sign_bytes A sk (rpc_canonical (rpc_method rpc) ts (hex16 rnd) (trim pid)))"
proof -
  have d: "printable ''default''" by (simp add: printable_def)
  note f = attach_fields [OF C pr d, where sk = sk and rnd = rnd and ts = ts and meth = "rpc_method rpc", unfolded tun_payload]
  have v: "ac_value_ok A (trim pid)" "ac_value_text A (trim pid)"
    using C printable_trim [OF pr] by (simp_all add: auth_crypto_ok_def)
  have r: "r = (Inr (), hm_insert META_TUN_PROFILE (trim pid) (snd (attach_auth_metadata A ts rnd sk (rpc_method rpc) ''default'' pid [])))"
    by (cases "attach_auth_metadata A ts rnd sk (rpc_method rpc) ''default'' pid []")
       (use f(1) in \<open>simp add: r_def signing_attach_def insert_profile_meta_def v\<close>)
  show "fst r = Inr ()" "meta_text A (snd r) META_TUN_PROFILE = Some (trim pid)"
    "meta_text A (snd r) META_PUBKEY = Some (pubkey_b64_url A sk)" "meta_text A (snd r) META_TS = Some (show_int ts)"
    "meta_text A (snd r) META_NONCE = Some (hex16 rnd)"
    "meta_text A (snd r) META_SIG = Some (sign_bytes A sk (rpc_canonical (rpc_method rpc) ts (hex16 rnd) (trim pid)))"
    using tun_profile_other by (auto simp: r text_insert [OF v(2)] f)
qed

lemma attached_stream_opens:
  assumes C: "auth_crypto_ok A" and peer: "ac_public A sk \<in> ts_peers st"
    and clock: "\<bar>now - ts\<bar> \<le> max_clock_skew_ms (ts_auth_cfg st)" "\<bar>now - ts\<bar> \<le> i64_max" "i64_range ts"
    and pr: "printable pid" and tr: "hm_ok (ts_nonce st)" "hm_get (ts_nonce st) (hex16 rnd) = None"
    and p: "listener_profile_clone (trim pid) (ts_root st) = Inr p" "tp_mode p = rpc_mode rpc" "connector_allowed A p (ac_public A sk)"
  shows "fst (signing_attach A ts rnd sk rpc pid []) = Inr () \<and>
    fst (open_stream A now rpc (snd (signing_attach A ts rnd sk rpc pid [])) st) = Inr (p, ac_public A sk)"
proof -
  note f = attached_stream_fields [OF C pr, where sk = sk and rnd = rnd and ts = ts and rpc = rpc]
  have k: "parse_verifying_key_b64 A (pubkey_b64_url A sk) = Inr (ac_public A sk)"
    by (simp add: parse_verifying_key_b64_def pubkey_b64_url_def trim_all_solid crypto_okD [OF C])
  have "fst (verify_rpc_metadata A now (snd (signing_attach A ts rnd sk rpc pid [])) (ts_peers st) (rpc_method rpc) (trim pid)
      (ts_auth_cfg st) (ts_nonce st)) = Inr ()"
    by (rule verify_signed [OF C peer clock f(3-6) _ _ tr(2,1)]) simp_all
  then show ?thesis using p
    by (auto simp: f open_stream_def grpc_verify_signed_stack_meta_def k split: prod.splits)
qed

text \<open>a connector or worker whose key the service knows is admitted with what it attaches, for the profile it names.\<close>

theorem attached_stream_admitted:
  assumes C: "auth_crypto_ok A" and peer: "ac_public A sk \<in> ts_peers st"
    and clock: "\<bar>now - ts\<bar> \<le> max_clock_skew_ms (ts_auth_cfg st)" "\<bar>now - ts\<bar> \<le> i64_max" "i64_range ts"
    and pr: "printable pid" and tr: "hm_ok (ts_nonce st)" "hm_get (ts_nonce st) (hex16 rnd) = None"
    and p: "listener_profile_clone (trim pid) (ts_root st) = Inr p" "tp_mode p = rpc_mode rpc" "connector_allowed A p (ac_public A sk)"
  shows "fst (signing_attach A ts rnd sk rpc pid []) = Inr () \<and>
    fst (open_stream A now rpc (snd (signing_attach A ts rnd sk rpc pid [])) st) = Inr (p, ac_public A sk)"
  by (rule attached_stream_opens [OF assms])

lemma plain_profile_found:
  "listener_profile_clone (trim ''b'') (ts_root (tun_example [profile_example ''b'' Listen RequestBus []] peers))
     = Inr (profile_example ''b'' Listen RequestBus [])"
  by (simp add: listener_profile_clone_def tun_example_def profile_example_def trim_letters)

theorem attached_stream_admitted_witness:
  "fst (open_stream crypto_sound 5000 TaskQueueStream (snd (signing_attach crypto_sound 1000 7 [] TaskQueueStream ''b'' []))
      (tun_example [profile_example ''b'' Listen RequestBus []] {replicate 32 0}))
   = Inr (profile_example ''b'' Listen RequestBus [], replicate 32 0)"
proof -
  have k: "ac_public crypto_sound [] = replicate 32 0" by (simp add: crypto_sound_def)
  let ?st = "tun_example [profile_example ''b'' Listen RequestBus []] {replicate 32 0}"
  have "ts_peers ?st = {replicate 32 0}" "ts_auth_cfg ?st = AuthConfig_default" "ts_nonce ?st = []" by (simp_all add: tun_example_def)
  then show ?thesis
    using attached_stream_admitted [OF crypto_sound_ok, of "[]" ?st 5000 1000 "''b''" 7 "profile_example ''b'' Listen RequestBus []" TaskQueueStream]
      plain_profile_found
    by (simp add: k AuthConfig_default_def i64_range_def i64_min_def i64_max_def printable_def rpc_mode_def connector_allowed_def profile_example_def)
qed

lemma admitted_example:
  "fst (open_stream crypto_sound 5000 TaskQueueStream (snd (signing_attach crypto_sound 1000 7 [] TaskQueueStream ''b'' []))
      (tun_example [profile_example ''b'' Listen RequestBus []] {replicate 32 0}))
   = Inr (profile_example ''b'' Listen RequestBus [], replicate 32 0)"
proof -
  have k: "ac_public crypto_sound [] = replicate 32 0" by (simp add: crypto_sound_def)
  let ?st = "tun_example [profile_example ''b'' Listen RequestBus []] {replicate 32 0}"
  have "ts_peers ?st = {replicate 32 0}" "ts_auth_cfg ?st = AuthConfig_default" "ts_nonce ?st = []" by (simp_all add: tun_example_def)
  then show ?thesis
    using attached_stream_opens [OF crypto_sound_ok, of "[]" ?st 5000 1000 "''b''" 7 "profile_example ''b'' Listen RequestBus []" TaskQueueStream]
      plain_profile_found
    by (simp add: k AuthConfig_default_def i64_range_def i64_min_def i64_max_def printable_def rpc_mode_def connector_allowed_def profile_example_def)
qed

theorem admitted_stream_authorised_witness:
  "replicate 32 0 \<in> ts_peers (tun_example [profile_example ''b'' Listen RequestBus []] {replicate 32 0})"
  using admitted_stream_authorised [OF admitted_example] by (simp add: tun_example_def AuthConfig_default_def)

end
