(* ===== verification/Tun_Session.thy ===== *)
theory Tun_Session
  imports Tun_State
begin

text \<open>
  The sessions of the stack tunnel service (\<^verbatim>\<open>stack-tun-api/src/grpc_svc.rs\<close>): a request arrives in parts and is
  executed when the last part is there, its answer leaves in parts; a worker session pulls, reports and completes
  tasks. A session is the list of messages it reads and returns the messages it offers to the client. When the
  client disconnects after \<open>n\<close> messages it has received the first \<open>n\<close> of them: a failed send is never followed
  by one that succeeds, and the state does not depend on it. \<open>text_ok\<close> is the rule of the HTTP library for header values
  that are text. A session is modelled without interference of other sessions between its messages.
\<close>

section \<open>Requests in parts\<close>

record BusAcc =
  ba_request_id :: string
  ba_trace_id :: string
  ba_hop_id :: u32
  ba_source_node_id :: string
  ba_target_node_id :: string
  ba_method :: string
  ba_scheme :: string
  ba_host :: string
  ba_path :: string
  ba_headers :: "(string, string) hmap"
  ba_body :: bytes

definition BusAcc_default :: BusAcc where
  "BusAcc_default = \<lparr>ba_request_id = [], ba_trace_id = [], ba_hop_id = 0, ba_source_node_id = [], ba_target_node_id = [],
     ba_method = [], ba_scheme = [], ba_host = [], ba_path = [], ba_headers = [], ba_body = []\<rparr>"

definition or_else_text :: "string \<Rightarrow> string \<Rightarrow> string" where
  "or_else_text new old = (if new = [] then old else new)"

definition insert_header :: "string \<times> string \<Rightarrow> (string, string) hmap \<Rightarrow> (string, string) hmap" where
  "insert_header kv m = (let k = to_ascii_lowercase (trim (fst kv)) in if k = [] then m else hm_insert k (snd kv) m)"

definition apply_part :: "BusRequestEnvelope \<Rightarrow> BusAcc \<Rightarrow> BusAcc" where
  "apply_part env a =
    \<lparr>ba_request_id = or_else_text (be_request_id env) (ba_request_id a), ba_trace_id = or_else_text (be_trace_id env) (ba_trace_id a),
     ba_hop_id = be_hop_id env,
     ba_source_node_id = or_else_text (be_source_node_id env) (ba_source_node_id a),
     ba_target_node_id = or_else_text (be_target_node_id env) (ba_target_node_id a),
     ba_method = or_else_text (be_method env) (ba_method a), ba_scheme = or_else_text (be_scheme env) (ba_scheme a),
     ba_host = or_else_text (be_host env) (ba_host a), ba_path = or_else_text (be_path env) (ba_path a),
     ba_headers = fold insert_header (be_headers env) (ba_headers a), ba_body = ba_body a @ be_body_chunk env\<rparr>"

section \<open>Answers in parts\<close>

definition RESP_CHUNK :: nat where "RESP_CHUNK = 48 * 1024"

record BusResponseEnvelope =
  br_request_id :: string
  br_status :: u32
  br_headers :: "(string \<times> string) list"
  br_body_chunk :: bytes
  br_finished :: bool
  br_error :: string

datatype bus_server_msg = RouteDecision string string string | ResponsePart BusResponseEnvelope | FatalError string

function chunks :: "nat \<Rightarrow> 'a list \<Rightarrow> 'a list list" where
  "chunks n xs = (if n = 0 \<or> xs = [] then [] else take n xs # chunks n (drop n xs))"
  by pat_completeness auto
termination by (relation "measure (\<lambda>(n, xs). length xs)") auto

declare chunks.simps [simp del]

definition hdr_map_to_kv :: "(string \<Rightarrow> bool) \<Rightarrow> (string \<times> string) list \<Rightarrow> (string \<times> string) list" where
  "hdr_map_to_kv text_ok hm = filter (\<lambda>(k, v). text_ok v) hm"

definition response_part :: "string \<Rightarrow> u16 \<Rightarrow> (string \<times> string) list \<Rightarrow> bytes \<Rightarrow> bool \<Rightarrow> BusResponseEnvelope" where
  "response_part rid status hs chunk fin = \<lparr>br_request_id = rid, br_status = ucast status, br_headers = hs,
     br_body_chunk = chunk, br_finished = fin, br_error = []\<rparr>"

definition stream_response_chunks :: "(string \<Rightarrow> bool) \<Rightarrow> string \<Rightarrow> u16 \<Rightarrow> (string \<times> string) list \<Rightarrow> bytes \<Rightarrow> BusResponseEnvelope list" where
  "stream_response_chunks text_ok rid status hm body =
    response_part rid status (hdr_map_to_kv text_ok hm) [] False #
    (if body = [] then [response_part rid status [] [] True]
     else let chunk_count = (length body + (RESP_CHUNK - 1)) div RESP_CHUNK; cs = chunks RESP_CHUNK body in
       map (\<lambda>(i, ch). response_part rid status [] ch (Suc i = chunk_count)) (zip [0..<length cs] cs))"

section \<open>The request bus session\<close>

record bus_stats =
  bst_received :: u64
  bst_blocked :: u64
  bst_completed :: u64
  bst_errors :: u64

text \<open>The debug name of a decision in lower case.\<close>

definition decision_debug :: "BusRouteDecisionKind \<Rightarrow> string" where
  "decision_debug d = (case d of BusAllow \<Rightarrow> ''allow'' | BusDeny \<Rightarrow> ''deny'' | BusForward \<Rightarrow> ''forward''
     | BusLocalHandle \<Rightarrow> ''localhandle'' | BusQueue \<Rightarrow> ''queue'')"

definition request_of :: "string \<Rightarrow> BusAcc \<Rightarrow> bus_request" where
  "request_of pid a = \<lparr>bq_profile_id = pid, bq_request_id = ba_request_id a, bq_trace_id = ba_trace_id a,
     bq_source_node_id = ba_source_node_id a, bq_target_node_id = ba_target_node_id a, bq_hop_id = ba_hop_id a,
     bq_method = ba_method a, bq_scheme = ba_scheme a, bq_host = ba_host a, bq_path = ba_path a, bq_headers = ba_headers a,
     bq_body = ba_body a\<rparr>"

record session_env =
  se_http :: http_env
  se_text_ok :: "string \<Rightarrow> bool"

definition ok_stats :: "u16 \<Rightarrow> BusRouteDecisionKind \<Rightarrow> bus_stats \<Rightarrow> bus_stats" where
  "ok_stats status d g0 =
    (let g1 = (if d = BusDeny then g0\<lparr>bst_blocked := bst_blocked g0 + 1\<rparr> else g0);
         g2 = (if d \<noteq> BusQueue \<and> 400 \<le> status then g1\<lparr>bst_errors := bst_errors g1 + 1\<rparr> else g1)
     in if d \<noteq> BusQueue then g2\<lparr>bst_completed := bst_completed g2 + 1\<rparr> else g2)"

definition finalize_one_bus_request ::
    "session_env \<Rightarrow> bus_clock \<Rightarrow> PersistRoot \<Rightarrow> string \<Rightarrow> BusAcc \<Rightarrow> bus_state \<times> bus_stats
       \<Rightarrow> (bus_server_msg list \<times> http_request list \<times> bus_state \<times> bus_stats) option" where
  "finalize_one_bus_request E bc root pid a sg =
    (let rid = ba_request_id a; g = (snd sg)\<lparr>bst_received := bst_received (snd sg) + 1\<rparr> in
     case execute_bus_request (se_http E) bc root (ro_routes root) (request_of pid a) (fst sg) of
       None \<Rightarrow> None
     | Some (res, sent, s') \<Rightarrow> Some (case res of
          Inr (status, hm, body, d) \<Rightarrow>
            (RouteDecision rid (decision_debug d) (if d = BusQueue then ''queued'' else ''executed'') #
               map ResponsePart (stream_response_chunks (se_text_ok E) rid status hm body), sent, s', ok_stats status d g)
        | Inl e \<Rightarrow>
            ([RouteDecision rid ''error'' e,
              ResponsePart \<lparr>br_request_id = rid, br_status = 502, br_headers = [], br_body_chunk = [], br_finished = True, br_error = e\<rparr>],
             sent, s', g\<lparr>bst_errors := bst_errors g + 1\<rparr>)))"

text \<open>A part comes with the clock readings of the request it may complete.\<close>

datatype bus_in = RequestPart bus_clock BusRequestEnvelope | OtherMsg | ReadError string

fun bus_session_loop ::
    "session_env \<Rightarrow> PersistRoot \<Rightarrow> string \<Rightarrow> BusAcc \<Rightarrow> bus_in list \<Rightarrow> bus_state \<times> bus_stats
       \<Rightarrow> (bus_server_msg list \<times> http_request list \<times> bus_state \<times> bus_stats) option" where
  "bus_session_loop E root pid a [] sg = Some ([], [], sg)"
| "bus_session_loop E root pid a (RequestPart bc env # ms) sg =
    (let a' = apply_part env a in
     if be_body_finished env then
       (case finalize_one_bus_request E bc root pid a' sg of
          None \<Rightarrow> None
        | Some (out, sent, sg') \<Rightarrow>
           (case bus_session_loop E root pid BusAcc_default ms sg' of
              None \<Rightarrow> None | Some (out', sent', sg'') \<Rightarrow> Some (out @ out', sent @ sent', sg'')))
     else bus_session_loop E root pid a' ms sg)"
| "bus_session_loop E root pid a (OtherMsg # ms) sg = bus_session_loop E root pid a ms sg"
| "bus_session_loop E root pid a (ReadError e # ms) sg = Some ([FatalError (''read stream: '' @ e)], [], sg)"

section \<open>The worker session\<close>

text \<open>The rounds of a claim, each with its clock readings; without further rounds it is still waiting.\<close>

fun claim_next :: "nat \<Rightarrow> bytes \<Rightarrow> (tq_clock \<times> nat) list \<Rightarrow> TaskQueue \<Rightarrow> (claim_result \<times> TaskQueue) option" where
  "claim_next deadline pk [] q = Some (ClaimWait, q)"
| "claim_next deadline pk ((ck, now2) # rs) q = (case claim_round ck now2 deadline pk q of
      None \<Rightarrow> None
    | Some (ClaimWait, q') \<Rightarrow> claim_next deadline pk rs q'
    | Some r \<Rightarrow> Some r)"

datatype task_in =
    ClaimPull nat u64 "(tq_clock \<times> nat) list"
  | StatusUpdate tq_clock string string u32
  | CompletePart tq_clock TaskComplete
  | OtherTask
  | TaskReadError string

datatype task_out = TaskAssigned BusRequestEnvelope | TaskAck string string | TaskError string | TaskStatus status

definition pull_wait :: "u64 \<Rightarrow> nat" where
  "pull_wait wait_ms = min (max (unat wait_ms) 100) 120000"

text \<open>One message: what is sent, whether the session goes on, and the queues.\<close>

definition task_step ::
    "string \<Rightarrow> bytes \<Rightarrow> task_in \<Rightarrow> (string, TaskQueue) hmap \<Rightarrow> (task_out list \<times> bool \<times> (string, TaskQueue) hmap) option" where
  "task_step pid pk msg qs =
    (let on_queue = (\<lambda>f. case hm_get qs pid of
            None \<Rightarrow> Some ([TaskError ''no task queue for profile''], True, qs)
          | Some q \<Rightarrow> (case f q of None \<Rightarrow> None | Some (out, go, q') \<Rightarrow> Some (out, go, hm_insert pid q' qs))) in
     case msg of
       ClaimPull start wait_ms rounds \<Rightarrow>
         on_queue (\<lambda>q. case claim_next (start + claim_wait (pull_wait wait_ms)) pk rounds q of
             None \<Rightarrow> None
           | Some (r, q') \<Rightarrow> Some ((case r of ClaimGot env \<Rightarrow> [TaskAssigned env] | ClaimTimeout \<Rightarrow> [TaskError ''pull_timeout''] | ClaimWait \<Rightarrow> []), True, q'))
     | StatusUpdate ck request_id detail pct \<Rightarrow>
         on_queue (\<lambda>q. let rid = trim request_id; dd = trim detail in
           case apply_status ck pk rid (if dd = [] then None else Some dd) pct q of
             None \<Rightarrow> None
           | Some (res, q') \<Rightarrow> Some ([case res of Inr _ \<Rightarrow> TaskAck rid ''status'' | Inl e \<Rightarrow> TaskStatus e], True, q'))
     | CompletePart ck part \<Rightarrow>
         on_queue (\<lambda>q. case apply_complete ck pk part q of
             None \<Rightarrow> None
           | Some (res, q') \<Rightarrow> Some ([case res of Inr _ \<Rightarrow> TaskAck (trim (tk_request_id part)) ''complete'' | Inl e \<Rightarrow> TaskStatus e], True, q'))
     | OtherTask \<Rightarrow> Some ([], True, qs)
     | TaskReadError e \<Rightarrow> Some ([TaskError (''read stream: '' @ e)], False, qs))"

fun task_queue_session_loop ::
    "string \<Rightarrow> bytes \<Rightarrow> task_in list \<Rightarrow> (string, TaskQueue) hmap \<Rightarrow> (task_out list \<times> (string, TaskQueue) hmap) option" where
  "task_queue_session_loop pid pk [] qs = Some ([], qs)"
| "task_queue_session_loop pid pk (m # ms) qs = (case task_step pid pk m qs of
      None \<Rightarrow> None
    | Some (out, go, qs') \<Rightarrow>
       if \<not> go then Some (out, qs')
       else (case task_queue_session_loop pid pk ms qs' of None \<Rightarrow> None | Some (out', qs'') \<Rightarrow> Some (out @ out', qs'')))"

section \<open>An answer is delivered completely\<close>

lemma chunks_Nil [simp]: "chunks n [] = []"
  by (simp add: chunks.simps)

lemma concat_chunks: "0 < n \<Longrightarrow> concat (chunks n xs) = xs"
proof (induction n xs rule: chunks.induct)
  case (1 n xs)
  then show ?case by (cases "xs = []") (simp_all add: chunks.simps [of n xs])
qed

lemma length_chunks: "0 < n \<Longrightarrow> length (chunks n xs) = (length xs + (n - 1)) div n"
proof (induction n xs rule: chunks.induct)
  case (1 n xs)
  show ?case
  proof (cases "xs = []")
    case True with 1 show ?thesis by (simp add: chunks.simps [of n xs])
  next
    case False
    then have l: "length (chunks n xs) = Suc ((length xs - n + (n - 1)) div n)" using 1 by (simp add: chunks.simps [of n xs])
    show ?thesis
    proof (cases "n \<le> length xs")
      case True
      then have "length xs + (n - 1) = (length xs - n + (n - 1)) + n" by simp
      then show ?thesis using l 1(2) by (metis Suc_eq_plus1 div_add_self2 less_numeral_extra(3))
    next
      case short: False
      obtain k where k: "length xs = Suc k" "k < n" using False short by (cases xs) simp_all
      then have "length xs + (n - 1) = k + n" using 1(2) by simp
      then have "(length xs + (n - 1)) div n = 1" using 1(2) k(2) by (metis div_add_self2 div_less add_0 less_numeral_extra(3))
      with l short 1(2) show ?thesis by simp
    qed
  qed
qed

lemma chunks_bound: "c \<in> set (chunks n xs) \<Longrightarrow> length c \<le> n \<and> c \<noteq> []"
  by (induction n xs rule: chunks.induct) (subst (asm) (2) chunks.simps, auto split: if_splits)

text \<open>the parts of an answer are those of one response: their bodies joined are the body, only the first carries
  headers, exactly the last is marked as finished, and no part exceeds the chunk size.\<close>

theorem response_parts_exact:
  "let ps = stream_response_chunks text_ok rid status hm body in
     concat (map br_body_chunk ps) = body \<and> br_headers (hd ps) = hdr_map_to_kv text_ok hm \<and>
     list_all (\<lambda>p. br_headers p = []) (tl ps) \<and>
     map br_finished ps = replicate (length ps - 1) False @ [True] \<and>
     list_all (\<lambda>p. length (br_body_chunk p) \<le> RESP_CHUNK \<and> br_status p = ucast status \<and> br_request_id p = rid) ps"
proof (cases "body = []")
  case True then show ?thesis by (simp add: stream_response_chunks_def response_part_def)
next
  case False
  let ?cs = "chunks RESP_CHUNK body"
  have pos: "0 < RESP_CHUNK" by (simp add: RESP_CHUNK_def)
  let ?f = "\<lambda>(i, ch). response_part rid status [] ch (Suc i = length ?cs)"
  have ps: "stream_response_chunks text_ok rid status hm body =
      response_part rid status (hdr_map_to_kv text_ok hm) [] False # map ?f (zip [0..<length ?cs] ?cs)"
    using False by (simp add: stream_response_chunks_def length_chunks [OF pos] Let_def)
  have b: "map (br_body_chunk \<circ> ?f) (zip [0..<length ?cs] ?cs) = ?cs"
    by (rule nth_equalityI) (simp_all add: response_part_def)
  have ne: "?cs \<noteq> []" using concat_chunks [OF pos, of body] False by auto
  then have fin: "map (br_finished \<circ> ?f) (zip [0..<length ?cs] ?cs) = replicate (length ?cs - 1) False @ [True]"
    by (intro nth_equalityI) (auto simp: response_part_def nth_append)
  have "replicate (length ?cs) False = False # replicate (length ?cs - 1) False" using ne by (cases "?cs") simp_all
  then show ?thesis using b fin concat_chunks [OF pos, of body] chunks_bound [of _ RESP_CHUNK body]
    by (auto simp: ps Let_def list_all_iff response_part_def comp_def case_prod_unfold dest!: set_zip_rightD)
qed

section \<open>A request may be cut anywhere\<close>

text \<open>
  The one part that stands for a sequence of parts: of every text the last one that is given, all headers in their
  order, all bodies, and the hop count of the last part, which overwrites that of the others even when it was left out.
\<close>

definition last_given :: "('a \<Rightarrow> string) \<Rightarrow> 'a list \<Rightarrow> string" where
  "last_given f ps = (let given = filter (\<lambda>t. t \<noteq> []) (map f ps) in if given = [] then [] else last given)"

definition joined :: "BusRequestEnvelope list \<Rightarrow> BusRequestEnvelope" where
  "joined ps = (last ps)\<lparr>be_request_id := last_given be_request_id ps, be_trace_id := last_given be_trace_id ps,
     be_source_node_id := last_given be_source_node_id ps, be_target_node_id := last_given be_target_node_id ps,
     be_method := last_given be_method ps, be_scheme := last_given be_scheme ps, be_host := last_given be_host ps,
     be_path := last_given be_path ps, be_headers := concat (map be_headers ps), be_body_chunk := concat (map be_body_chunk ps)\<rparr>"

lemma last_given_snoc: "or_else_text (last_given f (ps @ [p])) t = or_else_text (f p) (or_else_text (last_given f ps) t)"
  by (simp add: last_given_def or_else_text_def Let_def)

lemma fold_parts_joined: "ps \<noteq> [] \<Longrightarrow> fold apply_part ps a = apply_part (joined ps) a"
proof (induction ps rule: rev_induct)
  case (snoc p ps)
  have one: "or_else_text (last_given f [p]) t = or_else_text (f p) t" for f :: "BusRequestEnvelope \<Rightarrow> string" and t
    by (simp add: last_given_def or_else_text_def)
  show ?case
  proof (cases "ps = []")
    case True
    then show ?thesis by (simp add: apply_part_def joined_def one)
  next
    case False
    then show ?thesis using snoc.IH by (simp add: apply_part_def [of p] last_given_snoc) (simp add: apply_part_def joined_def last_given_snoc)
  qed
qed simp

fun in_progress :: "bus_in \<Rightarrow> bool" where
  "in_progress (RequestPart bc env) = (\<not> be_body_finished env)"
| "in_progress OtherMsg = True"
| "in_progress (ReadError e) = False"

fun part_of :: "bus_in \<Rightarrow> BusRequestEnvelope list" where
  "part_of (RequestPart bc env) = [env]"
| "part_of _ = []"

lemma loop_in_progress:
  "list_all in_progress ms0 \<Longrightarrow>
     bus_session_loop E root pid a (ms0 @ ms) sg = bus_session_loop E root pid (fold apply_part (concat (map part_of ms0)) a) ms sg"
proof (induction ms0 arbitrary: a)
  case (Cons m ms0)
  then show ?case by (cases m) (simp_all add: Let_def)
qed simp

text \<open>
  C17: A request may arrive in any number of parts, with its fields and its body spread over them in any way and other
  messages in between: the session handles it as one part that has the last given text of every field, all headers and
  bodies in order, and the hop count of the last part.
\<close>

theorem request_parts_joined:
  assumes "list_all in_progress ms0" "be_body_finished env"
  shows "bus_session_loop E root pid a (ms0 @ RequestPart bc env # ms) sg =
   bus_session_loop E root pid a (RequestPart bc (joined (concat (map part_of ms0) @ [env])) # ms) sg"
proof -
  let ?ps = "concat (map part_of ms0) @ [env]"
  have "be_body_finished (joined ?ps)" using assms(2) by (simp add: joined_def)
  moreover have "apply_part env (fold apply_part (concat (map part_of ms0)) a) = apply_part (joined ?ps) a"
    using fold_parts_joined [of ?ps a] by simp
  ultimately show ?thesis using assms(2) by (simp add: loop_in_progress [OF assms(1)])
qed

definition part_example :: "string \<Rightarrow> string \<Rightarrow> bytes \<Rightarrow> bool \<Rightarrow> BusRequestEnvelope" where
  "part_example rid meth body fin = (envelope_example rid)\<lparr>be_method := meth, be_body_chunk := body, be_body_finished := fin\<rparr>"

theorem request_parts_joined_witness:
  "\<forall>E root pid bc ms sg.
     bus_session_loop E root pid BusAcc_default
       (RequestPart bc (part_example ''a'' ''GET'' [1] False) # OtherMsg # RequestPart bc (part_example [] ''PUT'' [2, 3] False) #
          RequestPart bc (part_example [] [] [4] True) # ms) sg =
     bus_session_loop E root pid BusAcc_default (RequestPart bc (part_example ''a'' ''PUT'' [1, 2, 3, 4] True) # ms) sg"
proof (intro allI)
  fix E root pid bc ms sg
  have "joined [part_example ''a'' ''GET'' [1] False, part_example [] ''PUT'' [2, 3] False, part_example [] [] [4] True] =
      part_example ''a'' ''PUT'' [1, 2, 3, 4] True"
    by (simp add: joined_def last_given_def part_example_def envelope_example_def)
  then show "bus_session_loop E root pid BusAcc_default
       (RequestPart bc (part_example ''a'' ''GET'' [1] False) # OtherMsg # RequestPart bc (part_example [] ''PUT'' [2, 3] False) #
          RequestPart bc (part_example [] [] [4] True) # ms) sg =
     bus_session_loop E root pid BusAcc_default (RequestPart bc (part_example ''a'' ''PUT'' [1, 2, 3, 4] True) # ms) sg"
    using request_parts_joined [of "[RequestPart bc (part_example ''a'' ''GET'' [1] False), OtherMsg, RequestPart bc (part_example [] ''PUT'' [2, 3] False)]"
        "part_example [] [] [4] True" E root pid BusAcc_default bc ms sg]
    by (simp add: part_example_def del: bus_session_loop.simps)
qed

section \<open>A worker session keeps to its profile\<close>

lemma claim_next_inv: "tq_inv q \<Longrightarrow> claim_next dl pk rs q = Some (r, q') \<Longrightarrow> tq_inv q'"
proof (induction dl pk rs q rule: claim_next.induct)
  case (2 dl pk ck now2 rs q)
  then obtain r1 q1 where c: "claim_round ck now2 dl pk q = Some (r1, q1)" by (auto split: option.splits)
  have "tq_inv q1" using handle_inv [OF 2(2), of "CallClaim ck now2 dl pk" "AnsClaim r1" q1] c by simp
  with 2 c show ?case by (cases r1) simp_all
qed simp

definition queues_inv :: "(string, TaskQueue) hmap \<Rightarrow> bool" where
  "queues_inv qs \<longleftrightarrow> (\<forall>i q. hm_get qs i = Some q \<longrightarrow> tq_inv q)"

definition worker_op :: "bytes \<Rightarrow> TaskQueue \<Rightarrow> TaskQueue \<Rightarrow> bool" where
  "worker_op pk q q' \<longleftrightarrow> (\<exists>dl rs r. claim_next dl pk rs q = Some (r, q')) \<or>
     (\<exists>ck r d p res. apply_status ck pk r d p q = Some (res, q')) \<or> (\<exists>ck part res. apply_complete ck pk part q = Some (res, q'))"

lemma worker_opI:
  "claim_next dl pk rs q = Some (r, q') \<Longrightarrow> worker_op pk q q'"
  "apply_status ck pk rid d p q = Some (res, q') \<Longrightarrow> worker_op pk q q'"
  "apply_complete ck pk part q = Some (res, q') \<Longrightarrow> worker_op pk q q'"
  by (auto simp: worker_op_def)

lemma task_step_op:
  assumes "task_step pid pk m qs = Some (out, go, qs')"
  shows "qs' = qs \<or> (\<exists>q q'. hm_get qs pid = Some q \<and> qs' = hm_insert pid q' qs \<and> worker_op pk q q')"
  using assms by (cases m) (auto simp: task_step_def Let_def split: option.splits prod.splits intro: worker_opI)

lemma task_step_confined:
  assumes "task_step pid pk m qs = Some (out, go, qs')" "queues_inv qs"
  shows "queues_inv qs' \<and> (\<forall>i. i \<noteq> pid \<longrightarrow> hm_get qs' i = hm_get qs i)"
  using task_step_op [OF assms(1)]
proof (elim disjE exE conjE)
  fix q q' assume q: "hm_get qs pid = Some q" "qs' = hm_insert pid q' qs" and op: "worker_op pk q q'"
  have i: "tq_inv q" using assms(2) q(1) by (simp add: queues_inv_def)
  have "tq_inv q'" using op unfolding worker_op_def
  proof (elim disjE exE)
    fix ck r d p res assume "apply_status ck pk r d p q = Some (res, q')"
    then show ?thesis using handle_inv [OF i, of "CallStatus ck pk r d p" "AnsUnit res" q'] by simp
  next
    fix ck part res assume "apply_complete ck pk part q = Some (res, q')"
    then show ?thesis using handle_inv [OF i, of "CallComplete ck pk part" "AnsUnit res" q'] by simp
  qed (rule claim_next_inv [OF i])
  then show ?thesis using q assms(2) by (auto simp: queues_inv_def)
qed (use assms in simp)

text \<open>C19: a worker session keeps every task queue well-formed and changes only the queue of the profile it was admitted
  for.\<close>

theorem worker_session_confined:
  assumes "task_queue_session_loop pid pk ms qs = Some (out, qs')" and "queues_inv qs"
  shows "queues_inv qs' \<and> (i \<noteq> pid \<longrightarrow> hm_get qs' i = hm_get qs i)"
  using assms
proof (induction pid pk ms qs arbitrary: out rule: task_queue_session_loop.induct)
  case (2 pid pk m ms qs)
  then obtain o1 go q1 where s: "task_step pid pk m qs = Some (o1, go, q1)" by (auto split: option.splits)
  note c = task_step_confined [OF s 2(3)]
  show ?case
  proof (cases go)
    case True
    with 2(2) s obtain o2 where "task_queue_session_loop pid pk ms q1 = Some (o2, qs')" by (auto split: option.splits)
    with 2(1) [OF s refl refl, of o2] True c show ?thesis by auto
  qed (use 2(2) s c in auto)
qed simp

definition session_queues_example :: "(string, TaskQueue) hmap" where
  "session_queues_example = [(''a'', TaskQueue_new ''a'' 1 1 1), (''b'', TaskQueue_new ''b'' 1 1 1)]"

lemma session_example_runs:
  "\<exists>out qs'. task_queue_session_loop ''b'' [1] [ClaimPull 0 100 [(clock_at 500, 500)]] session_queues_example = Some (out, qs') \<and>
     qs' \<noteq> session_queues_example"
  by (simp add: task_step_def session_queues_example_def hm_get_def pull_wait_def claim_wait_def claim_round_def prune_all_def
      recycle_expired_leases_def expired_leases_def discard_ttl_expired_eq TaskQueue_new_def try_claim_one.simps clock_at_def
      task_stats_default_def hm_insert_def Let_def)

theorem worker_session_confined_witness:
  "\<exists>out qs'. task_queue_session_loop ''b'' [1] [ClaimPull 0 100 [(clock_at 500, 500)]] session_queues_example = Some (out, qs') \<and>
     qs' \<noteq> session_queues_example \<and> hm_get qs' ''a'' = hm_get session_queues_example ''a''"
proof -
  have "queues_inv session_queues_example"
    using new_inv by (auto simp: queues_inv_def session_queues_example_def hm_get_def split: if_splits)
  then show ?thesis using session_example_runs worker_session_confined [of "''b''" "[1]" _ session_queues_example _ _ "''a''"]
    by fastforce
qed

end
