(* ===== verification/Tun_Rest.thy ===== *)
theory Tun_Rest
  imports Tun_Session
begin

text \<open>
  The REST control plane of the stack tunnel service (\<^verbatim>\<open>stack-tun-api/src/http_api.rs\<close>). Extracting path, query and
  JSON body is the work of the web framework; a call arrives with its decoded body and the text of its
  \<^verbatim>\<open>Authorization\<close> header. Saving and loading files are outcomes given with the call. A call that blocks in a task queue
  has the value \<open>None\<close>.
\<close>

section \<open>State and answers\<close>

datatype rest_code = UNAUTHORIZED | BAD_REQUEST | INTERNAL_SERVER_ERROR | NOT_FOUND | SERVICE_UNAVAILABLE | CONFLICT

record AuditEntry =
  ae_ts_unix_ms :: int
  ae_level :: string
  ae_message :: string

record 's rest_state =
  rs_tun :: "'s tun_state"
  rs_bearer :: "string option"
  rs_audit :: "AuditEntry list"
  rs_stats :: bus_stats

definition check_rest_auth :: "string option \<Rightarrow> string option \<Rightarrow> rest_code + unit" where
  "check_rest_auth bearer header = (case bearer of
      None \<Rightarrow> Inr ()
    | Some expect \<Rightarrow>
       if trim expect = [] then Inr ()
       else if trim (case header of None \<Rightarrow> [] | Some v \<Rightarrow> v) \<noteq> trim (''Bearer '' @ expect) then Inl UNAUTHORIZED else Inr ())"

definition audit :: "int \<Rightarrow> string \<Rightarrow> string \<Rightarrow> 's rest_state \<Rightarrow> 's rest_state" where
  "audit now_ms level msg s =
     s\<lparr>rs_audit := ring_push 512 \<lparr>ae_ts_unix_ms = now_ms, ae_level = level, ae_message = msg\<rparr> (rs_audit s)\<rparr>"

section \<open>Configuration\<close>

fun check_profiles :: "string set \<Rightarrow> TunnelProfile list \<Rightarrow> string + unit" where
  "check_profiles seen [] = Inr ()"
| "check_profiles seen (p # ps) =
    (if tp_id p \<in> seen then Inl (''duplicate profile id '' @ tp_id p)
     else case profile_validate p of
         Inl e \<Rightarrow> Inl (''profile '' @ tp_id p @ '' invalid: '' @ e)
       | Inr _ \<Rightarrow> check_profiles (insert (tp_id p) seen) ps)"

definition replace_root :: "PersistRoot \<Rightarrow> 's rest_state \<Rightarrow> 's rest_state" where
  "replace_root root s = s\<lparr>rs_tun := (rs_tun s)\<lparr>ts_root := root\<rparr>\<rparr>"

definition put_config ::
    "(string \<Rightarrow> bool) \<Rightarrow> int \<Rightarrow> string option \<Rightarrow> TunnelProfile list \<Rightarrow> 's rest_state \<Rightarrow> (rest_code + unit) \<times> 's rest_state" where
  "put_config addr_ok now_ms save profiles s = (case check_profiles {} profiles of
      Inl e \<Rightarrow> (Inl BAD_REQUEST, audit now_ms ''error'' e s)
    | Inr _ \<Rightarrow>
       (let s1 = replace_root \<lparr>ro_version = 1, ro_profiles = profiles, ro_routes = ro_routes (ts_root (rs_tun s))\<rparr> s in
        case save of
          Some e \<Rightarrow> (Inl INTERNAL_SERVER_ERROR, audit now_ms ''error'' (''save profiles: '' @ e) s1)
        | None \<Rightarrow>
            (Inr (), audit now_ms ''info'' ''profiles updated via REST'' (s1\<lparr>rs_tun := resync_all addr_ok (rs_tun s1)\<rparr>))))"

definition put_routes :: "int \<Rightarrow> string option \<Rightarrow> StackTunRouteRule list \<Rightarrow> 's rest_state \<Rightarrow> (rest_code + unit) \<times> 's rest_state" where
  "put_routes now_ms save routes s =
    (let s1 = replace_root ((ts_root (rs_tun s))\<lparr>ro_routes := routes\<rparr>) s in
     case save of
       Some e \<Rightarrow> (Inl INTERNAL_SERVER_ERROR, audit now_ms ''error'' (''save routes: '' @ e) s1)
     | None \<Rightarrow> (Inr (), audit now_ms ''info'' ''routes updated via REST'' s1))"

section \<open>Peers\<close>

definition set_peers :: "bytes set \<Rightarrow> 's rest_state \<Rightarrow> 's rest_state" where
  "set_peers peers s = s\<lparr>rs_tun := (rs_tun s)\<lparr>ts_peers := peers\<rparr>\<rparr>"

definition post_reload_peers :: "int \<Rightarrow> AuthError + bytes set \<Rightarrow> 's rest_state \<Rightarrow> (rest_code + unit) \<times> 's rest_state" where
  "post_reload_peers now_ms load s = (case load of
      Inl _ \<Rightarrow> (Inl INTERNAL_SERVER_ERROR, s)
    | Inr peers \<Rightarrow> (Inr (), audit now_ms ''info'' ''authorized_peers.json reloaded'' (set_peers peers s)))"

text \<open>The file is read, written with the new key and read again; the last argument but one gives the reading after it was written.\<close>

definition post_authorized_peer ::
    "auth_crypto \<Rightarrow> int \<Rightarrow> string \<Rightarrow> AuthError + bytes set \<Rightarrow> AuthError option \<Rightarrow> (bytes set \<Rightarrow> AuthError + bytes set) \<Rightarrow> 's rest_state
       \<Rightarrow> (rest_code + bool \<times> string) \<times> 's rest_state" where
  "post_authorized_peer A now_ms key load save reload s = (case parse_verifying_key_b64 A key of
      Inl _ \<Rightarrow> (Inl BAD_REQUEST, s)
    | Inr vk \<Rightarrow>
       (case load of
          Inl _ \<Rightarrow> (Inl INTERNAL_SERVER_ERROR, s)
        | Inr peers \<Rightarrow>
           (case save of
              Some _ \<Rightarrow> (Inl INTERNAL_SERVER_ERROR, s)
            | None \<Rightarrow>
               (case reload (insert vk peers) of
                  Inl _ \<Rightarrow> (Inl INTERNAL_SERVER_ERROR, s)
                | Inr peers' \<Rightarrow>
                   (Inr (vk \<notin> peers, key),
                    audit now_ms ''info'' (''authorized peer '' @ (if vk \<notin> peers then ''added'' else ''already-present'') @ '' '' @ key)
                      (set_peers peers' s))))))"

section \<open>Requests and tasks\<close>

definition qs_truthy :: "string option \<Rightarrow> bool" where
  "qs_truthy v = (case map_option trim v of None \<Rightarrow> False
     | Some t \<Rightarrow> eq_ignore_ascii_case t ''true'' \<or> t = ''1'' \<or> eq_ignore_ascii_case t ''yes'')"

record BusInvokeBody =
  iv_request :: bus_request
  iv_body_base64 :: string

definition invoke_body_decode :: "(string \<Rightarrow> bytes option) \<Rightarrow> string \<Rightarrow> rest_code + bytes" where
  "invoke_body_decode b64 t = (if t = [] then Inr [] else case b64 t of None \<Rightarrow> Inl BAD_REQUEST | Some b \<Rightarrow> Inr b)"

definition invoke_request :: "int \<Rightarrow> bytes \<Rightarrow> BusInvokeBody \<Rightarrow> bus_request" where
  "invoke_request now_ms body b = (let r = iv_request b in
     r\<lparr>bq_profile_id := trim (bq_profile_id r),
       bq_request_id := (if trim (bq_request_id r) = [] then ''http-'' @ show_int now_ms else bq_request_id r), bq_body := body\<rparr>)"

text \<open>Unlike the gRPC session this handler counts a queued request as completed.\<close>

definition rest_ok_stats :: "u16 \<Rightarrow> BusRouteDecisionKind \<Rightarrow> bus_stats \<Rightarrow> bus_stats" where
  "rest_ok_stats status d g0 =
    (let g1 = (if d = BusDeny then g0\<lparr>bst_blocked := bst_blocked g0 + 1\<rparr> else g0);
         g2 = (if 400 \<le> status then g1\<lparr>bst_errors := bst_errors g1 + 1\<rparr> else g1)
     in g2\<lparr>bst_completed := bst_completed g2 + 1\<rparr>)"

datatype invoke_answer = InvokeOk u16 string "(string \<times> string) list" bytes | InvokeErr string

definition post_request_bus_invoke ::
    "session_env \<Rightarrow> (string \<Rightarrow> bytes option) \<Rightarrow> int \<Rightarrow> bus_clock \<Rightarrow> BusInvokeBody \<Rightarrow> 's rest_state
       \<Rightarrow> ((rest_code + invoke_answer) \<times> http_request list \<times> 's rest_state) option" where
  "post_request_bus_invoke E b64 now_ms bc b s = (case invoke_body_decode b64 (trim (iv_body_base64 b)) of
      Inl c \<Rightarrow> Some (Inl c, [], s)
    | Inr body \<Rightarrow>
       (let g = (rs_stats s)\<lparr>bst_received := bst_received (rs_stats s) + 1\<rparr>; root = ts_root (rs_tun s) in
        case execute_bus_request (se_http E) bc root (ro_routes root) (invoke_request now_ms body b) (ts_bus (rs_tun s)) of
          None \<Rightarrow> None
        | Some (res, sent, bus') \<Rightarrow>
           (let s' = s\<lparr>rs_tun := (rs_tun s)\<lparr>ts_bus := bus'\<rparr>\<rparr> in
            case res of
              Inr (status, hm, bytes, d) \<Rightarrow>
                Some (Inr (InvokeOk status (decision_debug d) (fold (\<lambda>(k, v). hm_insert k v) (hdr_map_to_kv (se_text_ok E) hm) []) bytes),
                  sent, s'\<lparr>rs_stats := rest_ok_stats status d g\<rparr>)
            | Inl e \<Rightarrow> Some (Inr (InvokeErr e), sent, s'\<lparr>rs_stats := g\<lparr>bst_errors := bst_errors g + 1\<rparr>\<rparr>))))"

text \<open>The polls of a waiting submitter: the queue each one sees and whether the deadline has passed then.\<close>

fun poll_task_snap_json :: "(bytes \<Rightarrow> string) \<Rightarrow> string \<Rightarrow> (TaskQueue \<times> bool) list \<Rightarrow> (rest_code + TaskOuterJson) option" where
  "poll_task_snap_json enc rid [] = None"
| "poll_task_snap_json enc rid ((q, late) # ps) = (case snapshot_json enc rid q of
      None \<Rightarrow> Some (Inl NOT_FOUND)
    | Some j \<Rightarrow> if tj_phase_str j \<in> {''completed'', ''failed'', ''expired''} \<or> late then Some (Inr j)
                else poll_task_snap_json enc rid ps)"

definition submit_envelope :: "int \<Rightarrow> bytes \<Rightarrow> BusInvokeBody \<Rightarrow> BusRequestEnvelope" where
  "submit_envelope now_ms body b = (let r = iv_request b in
     \<lparr>be_request_id = (if trim (bq_request_id r) = [] then [] else bq_request_id r), be_trace_id = bq_trace_id r,
      be_hop_id = bq_hop_id r, be_source_node_id = bq_source_node_id r, be_target_node_id = bq_target_node_id r,
      be_method = bq_method r, be_scheme = bq_scheme r, be_host = bq_host r, be_path = bq_path r, be_headers = bq_headers r,
      be_body_chunk = body, be_body_finished = True, be_created_at_ms = now_ms\<rparr>)"

text \<open>With \<open>waitMs\<close> the caller polls after the submission, else the id is returned at once.\<close>

datatype submit_answer = SubmitQueued string string | SubmitTask TaskOuterJson | SubmitPolling

definition submit_wait ::
    "(bytes \<Rightarrow> string) \<Rightarrow> u64 option \<Rightarrow> (TaskQueue \<times> bool) list \<Rightarrow> string \<Rightarrow> string \<Rightarrow> rest_code + submit_answer" where
  "submit_wait enc wait_ms polls pid rid =
    (if (case wait_ms of None \<Rightarrow> False | Some w \<Rightarrow> 0 < w)
     then (case poll_task_snap_json enc rid polls of
         None \<Rightarrow> Inr SubmitPolling | Some (Inl c) \<Rightarrow> Inl c | Some (Inr j) \<Rightarrow> Inr (SubmitTask j))
     else Inr (SubmitQueued rid pid))"

definition post_task_submit ::
    "(bytes \<Rightarrow> string) \<Rightarrow> (string \<Rightarrow> bytes option) \<Rightarrow> int \<Rightarrow> tq_clock \<Rightarrow> int \<Rightarrow> u64 \<Rightarrow> int \<Rightarrow> u64 option \<Rightarrow> (TaskQueue \<times> bool) list
       \<Rightarrow> BusInvokeBody \<Rightarrow> 's rest_state \<Rightarrow> ((rest_code + submit_answer) \<times> 's rest_state) option" where
  "post_task_submit enc b64 now_ms ck id_ms rnd ms wait_ms polls b s = (case invoke_body_decode b64 (trim (iv_body_base64 b)) of
      Inl c \<Rightarrow> Some (Inl c, s)
    | Inr body \<Rightarrow>
       (let pid = trim (bq_profile_id (iv_request b)); bus = ts_bus (rs_tun s) in
        if pid = [] then Some (Inl BAD_REQUEST, s)
        else case hm_get (bs_task_queues bus) pid of
            None \<Rightarrow> Some (Inl NOT_FOUND, s)
          | Some q \<Rightarrow>
             (case enqueue ck id_ms rnd ms (submit_envelope now_ms body b) q of
                None \<Rightarrow> None
              | Some (res, q') \<Rightarrow>
                 Some ((case res of
                     Inr rid \<Rightarrow> submit_wait enc wait_ms polls pid rid
                   | Inl e \<Rightarrow> Inl (if e = ''task_queue_full'' then SERVICE_UNAVAILABLE
                                    else if e = ''duplicate_request_id'' then CONFLICT else BAD_REQUEST)),
                   s\<lparr>rs_tun := (rs_tun s)\<lparr>ts_bus := bus\<lparr>bs_task_queues := hm_insert pid q' (bs_task_queues bus)\<rparr>\<rparr>\<rparr>))))"

definition list_tasks ::
    "(bytes \<Rightarrow> string) \<Rightarrow> string \<Rightarrow> string option \<Rightarrow> nat option \<Rightarrow> 's rest_state \<Rightarrow> rest_code + TaskOuterJson list" where
  "list_tasks enc profile phase limit s =
    (let pid = trim profile in
     if pid = [] then Inl BAD_REQUEST
     else case hm_get (ts_task_queues (rs_tun s)) pid of
         None \<Rightarrow> Inl NOT_FOUND
       | Some q \<Rightarrow> Inr (snapshot_list_json enc (phase_from_query phase) (max (min (case limit of None \<Rightarrow> 100 | Some l \<Rightarrow> l) 500) 1) q))"

definition get_task :: "(bytes \<Rightarrow> string) \<Rightarrow> string \<Rightarrow> string \<Rightarrow> 's rest_state \<Rightarrow> rest_code + TaskOuterJson" where
  "get_task enc request_id profile s =
    (let pid = trim profile in
     if pid = [] then Inl BAD_REQUEST
     else case hm_get (ts_task_queues (rs_tun s)) pid of
         None \<Rightarrow> Inl NOT_FOUND
       | Some q \<Rightarrow> (case snapshot_json enc request_id q of None \<Rightarrow> Inl NOT_FOUND | Some j \<Rightarrow> Inr j))"

section \<open>Calls\<close>

datatype rest_call =
    PutConfig "string option" "TunnelProfile list"
  | PutRoutes "string option" "StackTunRouteRule list"
  | ReloadPeers "AuthError + bytes set"
  | PostPeer string "AuthError + bytes set" "AuthError option" "bytes set \<Rightarrow> AuthError + bytes set"
  | Invoke bus_clock BusInvokeBody
  | Submit tq_clock int u64 int "u64 option" "(TaskQueue \<times> bool) list" BusInvokeBody

record rest_env =
  re_session :: session_env
  re_auth :: auth_crypto
  re_b64 :: "string \<Rightarrow> bytes option"
  re_b64_encode :: "bytes \<Rightarrow> string"
  re_addr_ok :: "string \<Rightarrow> bool"

text \<open>The calls that change state: the code of a refusal and the state after the call.\<close>

definition rest_handle ::
    "rest_env \<Rightarrow> int \<Rightarrow> string option \<Rightarrow> rest_call \<Rightarrow> 's rest_state \<Rightarrow> (rest_code option \<times> 's rest_state) option" where
  "rest_handle R now_ms header c s =
    (let code = (\<lambda>r. case r of Inl e \<Rightarrow> Some e | Inr _ \<Rightarrow> None) in
     case check_rest_auth (rs_bearer s) header of
       Inl e \<Rightarrow> Some (Some e, s)
     | Inr _ \<Rightarrow> (case c of
          PutConfig save ps \<Rightarrow> Some (apfst code (put_config (re_addr_ok R) now_ms save ps s))
        | PutRoutes save rs \<Rightarrow> Some (apfst code (put_routes now_ms save rs s))
        | ReloadPeers load \<Rightarrow> Some (apfst code (post_reload_peers now_ms load s))
        | PostPeer key load save reload \<Rightarrow>
            (case post_authorized_peer (re_auth R) now_ms key load save reload s of
               (res, s') \<Rightarrow> Some (case res of Inl e \<Rightarrow> Some e | Inr _ \<Rightarrow> None, s'))
        | Invoke bc b \<Rightarrow>
            (case post_request_bus_invoke (re_session R) (re_b64 R) now_ms bc b s of
               None \<Rightarrow> None | Some (res, sent, s') \<Rightarrow> Some (case res of Inl e \<Rightarrow> Some e | Inr _ \<Rightarrow> None, s'))
        | Submit ck id_ms rnd ms w polls b \<Rightarrow>
            (case post_task_submit (re_b64_encode R) (re_b64 R) now_ms ck id_ms rnd ms w polls b s of
               None \<Rightarrow> None | Some (res, s') \<Rightarrow> Some (case res of Inl e \<Rightarrow> Some e | Inr _ \<Rightarrow> None, s'))))"

inductive rest_reach :: "rest_env \<Rightarrow> 's rest_state \<Rightarrow> 's rest_state \<Rightarrow> bool" for R where
  reach_start: "rest_reach R s s"
| reach_call: "rest_reach R s s1 \<Longrightarrow> rest_handle R now_ms header c s1 = Some (code, s2) \<Longrightarrow> rest_reach R s s2"

section \<open>Who may call\<close>

text \<open>with a bearer token configured, a call without it is refused and changes nothing.\<close>

theorem rest_requires_token:
  assumes "rs_bearer s = Some token" "trim token \<noteq> []"
    and "trim (case header of None \<Rightarrow> [] | Some v \<Rightarrow> v) \<noteq> trim (''Bearer '' @ token)"
  shows "rest_handle R now_ms header c s = Some (Some UNAUTHORIZED, s)"
  using assms by (simp add: rest_handle_def check_rest_auth_def Let_def)

section \<open>The stored configuration is well-formed\<close>

definition config_ok :: "PersistRoot \<Rightarrow> bool" where
  "config_ok root \<longleftrightarrow> distinct (map tp_id (ro_profiles root)) \<and> list_all (\<lambda>p. profile_validate p = Inr ()) (ro_profiles root)"

lemma check_profiles_ok:
  "check_profiles seen ps = Inr () \<Longrightarrow>
     distinct (map tp_id ps) \<and> tp_id ` set ps \<inter> seen = {} \<and> list_all (\<lambda>p. profile_validate p = Inr ()) ps"
  by (induction seen ps rule: check_profiles.induct) (auto split: if_splits sum.splits)

lemma resync_root [simp]: "ts_root (resync_all addr_ok st) = ts_root st"
  by (simp add: resync_all_def sync_connector_def sync_listen_def Let_def)

lemma audit_tun [simp]: "rs_tun (audit n l m s) = rs_tun s" "rs_bearer (audit n l m s) = rs_bearer s"
  by (simp_all add: audit_def)

lemma handle_config:
  assumes "rest_handle R now_ms header c s = Some (code, s')" "config_ok (ts_root (rs_tun s))"
  shows "config_ok (ts_root (rs_tun s'))"
proof (cases c)
  case (PutConfig save ps)
  then show ?thesis using assms check_profiles_ok [of "{}" ps]
    by (auto simp: rest_handle_def put_config_def replace_root_def config_ok_def Let_def split: sum.splits option.splits)
next
  case (PutRoutes save rs)
  then show ?thesis using assms
    by (auto simp: rest_handle_def put_routes_def replace_root_def config_ok_def Let_def split: sum.splits option.splits)
next
  case (ReloadPeers load)
  then show ?thesis using assms
    by (auto simp: rest_handle_def post_reload_peers_def set_peers_def Let_def split: sum.splits)
next
  case (PostPeer key load save reload)
  then show ?thesis using assms
    by (auto simp: rest_handle_def post_authorized_peer_def set_peers_def Let_def split: sum.splits option.splits)
next
  case (Invoke bc b)
  then show ?thesis using assms
    by (auto simp: rest_handle_def post_request_bus_invoke_def Let_def split: sum.splits option.splits prod.splits)
next
  case (Submit ck id_ms rnd ms w polls b)
  then show ?thesis using assms
    by (auto simp: rest_handle_def post_task_submit_def Let_def split: sum.splits option.splits prod.splits if_splits)
qed

text \<open>C18: whatever calls arrive, the stored profiles have distinct ids and each of them is valid, so that a connector always
  has an endpoint, a profile to pull from and a target.\<close>

theorem config_well_formed:
  assumes "rest_reach R s s'" "config_ok (ts_root (rs_tun s))"
  shows "config_ok (ts_root (rs_tun s'))"
  using assms by (induction rule: rest_reach.induct) (auto intro: handle_config)

section \<open>A failed save\<close>

text \<open>when writing the configuration fails the call answers with an error, yet the new profiles are already in force for
  later reads, while queues and tasks are still those of the old ones.\<close>

theorem failed_save_applies:
  assumes "check_rest_auth (rs_bearer s) header = Inr ()" "check_profiles {} ps = Inr ()"
  shows "\<exists>s'. rest_handle R now_ms header (PutConfig (Some e) ps) s = Some (Some INTERNAL_SERVER_ERROR, s') \<and>
    ro_profiles (ts_root (rs_tun s')) = ps \<and> ts_task_queues (rs_tun s') = ts_task_queues (rs_tun s) \<and>
    ts_listener_tasks (rs_tun s') = ts_listener_tasks (rs_tun s)"
  using assms by (simp add: rest_handle_def put_config_def replace_root_def Let_def)

section \<open>Examples of calls\<close>

definition rest_example :: "nat rest_state" where
  "rest_example = \<lparr>rs_tun = tun_example [] {}, rs_bearer = Some ''a'', rs_audit = [],
     rs_stats = \<lparr>bst_received = 0, bst_blocked = 0, bst_completed = 0, bst_errors = 0\<rparr>\<rparr>"

definition rest_env_example :: rest_env where
  "rest_env_example = \<lparr>re_session = \<lparr>se_http = bus_env_example, se_text_ok = (\<lambda>_. True)\<rparr>, re_auth = crypto_sound,
     re_b64 = (\<lambda>_. None), re_b64_encode = (\<lambda>_. []), re_addr_ok = (\<lambda>_. True)\<rparr>"

lemma bearer_text: "trim (''Bearer '' @ ''a'') = ''Bearer a''" by code_simp

lemma bearer_accepted: "check_rest_auth (rs_bearer rest_example) (Some ''Bearer a'') = Inr ()"
  using bearer_text by (simp add: check_rest_auth_def rest_example_def)

lemma profile_b_valid: "check_profiles {} [profile_example ''b'' Listen RequestBus []] = Inr ()"
  by (simp add: profile_validate_def profile_example_def trim_letters)

theorem rest_requires_token_witness:
  "rest_handle rest_env_example 0 None (PutRoutes None []) rest_example = Some (Some UNAUTHORIZED, rest_example)"
  using rest_requires_token [of rest_example "''a''" None rest_env_example 0 "PutRoutes None []"] bearer_text
  by (simp add: rest_example_def trim_letters)

theorem config_well_formed_witness:
  "\<exists>s'. rest_reach rest_env_example rest_example s' \<and> ro_profiles (ts_root (rs_tun s')) = [profile_example ''b'' Listen RequestBus []] \<and>
     config_ok (ts_root (rs_tun s'))"
proof -
  obtain s' where h: "rest_handle rest_env_example 0 (Some ''Bearer a'') (PutConfig None [profile_example ''b'' Listen RequestBus []]) rest_example
      = Some (None, s')" and p: "ro_profiles (ts_root (rs_tun s')) = [profile_example ''b'' Listen RequestBus []]"
    using bearer_accepted profile_b_valid by (simp add: rest_handle_def put_config_def replace_root_def Let_def)
  have r: "rest_reach rest_env_example rest_example s'" by (rule reach_call [OF reach_start h])
  have "config_ok (ts_root (rs_tun rest_example))" by (simp add: config_ok_def rest_example_def tun_example_def)
  from config_well_formed [OF r this] r p show ?thesis by blast
qed

theorem failed_save_applies_witness:
  "\<exists>s'. rest_handle rest_env_example 0 (Some ''Bearer a'') (PutConfig (Some ''disk full'') [profile_example ''b'' Listen RequestBus []]) rest_example
      = Some (Some INTERNAL_SERVER_ERROR, s') \<and> ro_profiles (ts_root (rs_tun s')) = [profile_example ''b'' Listen RequestBus []]"
  using failed_save_applies [OF bearer_accepted profile_b_valid] by blast

end
