(* ===== verification/Chal_Auth.thy ===== *)
theory Chal_Auth
  imports Rust_Text Rust_Map
begin

text \<open>
  The challenge-response service (\<^verbatim>\<open>challenge-response-auth\<close>): the server issues a nonce with a time and a session id,
  the client answers with a MAC over them. HMAC-SHA256, hex, base64 and UUID text are third-party and collected in
  \<open>chal_crypto\<close>; random draws and clock readings are arguments. A handler is first one atomic step; then its two accesses to
  the store are separate steps, as they are in the code. The theory shows that an honest exchange succeeds, that an
  accepted answer carries the MAC of the server's own challenge, whose encoding is injective, that handled one after
  the other no challenge is redeemed twice, and that two concurrent requests redeem it twice.
\<close>

section \<open>Primitives\<close>

record chal_crypto =
  cc_hmac :: "bytes \<Rightarrow> bytes \<Rightarrow> bytes"
  cc_key_ok :: "bytes \<Rightarrow> bool"
  cc_hex_decode :: "string \<Rightarrow> string + bytes"
  cc_hex_encode :: "bytes \<Rightarrow> string"
  cc_b64_decode :: "string \<Rightarrow> string + bytes"
  cc_b64_encode :: "bytes \<Rightarrow> string"
  cc_uuid_parse :: "string \<Rightarrow> bytes option"
  cc_uuid_string :: "bytes \<Rightarrow> string"

text \<open>
  HMAC takes a key of any length and gives 32 bytes; hex and base64 text decodes to what was encoded and has no white
  space; the text of a UUID has 36 characters without white space and parses to it.
\<close>

definition chal_crypto_ok :: "chal_crypto \<Rightarrow> bool" where
  "chal_crypto_ok C \<longleftrightarrow>
     (\<forall>k m. cc_key_ok C k \<and> length (cc_hmac C k m) = 32) \<and>
     (\<forall>b. cc_hex_decode C (cc_hex_encode C b) = Inr b \<and> trim (cc_hex_encode C b) = cc_hex_encode C b) \<and>
     (\<forall>b. cc_b64_decode C (cc_b64_encode C b) = Inr b \<and> trim (cc_b64_encode C b) = cc_b64_encode C b) \<and>
     (\<forall>u. length u = 16 \<longrightarrow> cc_uuid_parse C (cc_uuid_string C u) = Some u \<and> trim (cc_uuid_string C u) = cc_uuid_string C u \<and>
        length (cc_uuid_string C u) = 36)"

datatype ChalAuthError =
    ChalSessionIdTooLong nat
  | ChalNonceLength nat nat
  | ChalInvalidSignatureHex string
  | ChalSignatureLength nat nat
  | ChalInvalidNonceB64 string
  | ChalInvalidKeyLength

fun chal_error_string :: "ChalAuthError \<Rightarrow> string" where
  "chal_error_string (ChalSessionIdTooLong n) = ''session id length invalid (max '' @ show_nat n @ '' bytes)''"
| "chal_error_string (ChalNonceLength e g) = ''nonce length invalid (expected '' @ show_nat e @ '' bytes, got '' @ show_nat g @ '')''"
| "chal_error_string (ChalInvalidSignatureHex e) = ''invalid hex signature: '' @ e"
| "chal_error_string (ChalSignatureLength e g) = ''signature must be '' @ show_nat e @ '' bytes after decode, got '' @ show_nat g"
| "chal_error_string (ChalInvalidNonceB64 e) = ''invalid base64 nonce: '' @ e"
| "chal_error_string ChalInvalidKeyLength = ''HMAC key invalid length for HMAC-SHA256''"

datatype CanonicalError = CanonSessionIdTooLong nat | CanonNonceTooLong nat

definition NONCE_LEN :: nat where "NONCE_LEN = 16"
definition MAX_SESSION_ID_BYTES :: nat where "MAX_SESSION_ID_BYTES = 128"
definition MAX_NONCE_BYTES :: nat where "MAX_NONCE_BYTES = NONCE_LEN"
definition DOMAIN_V1 :: bytes where "DOMAIN_V1 = as_bytes ''HCR1-v1'' @ [0]"
definition CLOCK_SKEW_MS :: int where "CLOCK_SKEW_MS = 120000"
definition CHALLENGE_TTL_MS :: int where "CHALLENGE_TTL_MS = 120000"

definition u16_to_le_bytes :: "u16 \<Rightarrow> bytes" where
  "u16_to_le_bytes w = List.rev (u16_to_be_bytes w)"

definition canonical_hmac_message :: "bytes \<Rightarrow> int \<Rightarrow> string \<Rightarrow> CanonicalError + bytes" where
  "canonical_hmac_message nonce timestamp_ms session_id =
    (if MAX_NONCE_BYTES < length nonce then Inl (CanonNonceTooLong MAX_NONCE_BYTES)
     else let sid = as_bytes session_id in
       if MAX_SESSION_ID_BYTES < length sid then Inl (CanonSessionIdTooLong MAX_SESSION_ID_BYTES)
       else Inr (DOMAIN_V1 @ u16_to_le_bytes (word_of_nat (length nonce)) @ nonce @ i64_to_be_bytes timestamp_ms @
         u16_to_le_bytes (word_of_nat (length sid)) @ sid))"

definition hmac_sha256_sign :: "chal_crypto \<Rightarrow> bytes \<Rightarrow> bytes \<Rightarrow> int \<Rightarrow> string \<Rightarrow> ChalAuthError + bytes" where
  "hmac_sha256_sign C secret nonce timestamp_ms session_id = (case canonical_hmac_message nonce timestamp_ms session_id of
      Inl (CanonSessionIdTooLong _) \<Rightarrow> Inl (ChalSessionIdTooLong MAX_SESSION_ID_BYTES)
    | Inl (CanonNonceTooLong _) \<Rightarrow> Inl (ChalNonceLength MAX_NONCE_BYTES (length nonce))
    | Inr msg \<Rightarrow> if \<not> cc_key_ok C secret then Inl ChalInvalidKeyLength else Inr (cc_hmac C secret msg))"

definition hmac_sha256_verify_hex :: "chal_crypto \<Rightarrow> bytes \<Rightarrow> bytes \<Rightarrow> int \<Rightarrow> string \<Rightarrow> string \<Rightarrow> ChalAuthError + bool" where
  "hmac_sha256_verify_hex C secret nonce timestamp_ms session_id signature_hex = (case cc_hex_decode C signature_hex of
      Inl e \<Rightarrow> Inl (ChalInvalidSignatureHex e)
    | Inr decoded \<Rightarrow>
       if length decoded \<noteq> 32 then Inl (ChalSignatureLength 32 (length decoded))
       else case hmac_sha256_sign C secret nonce timestamp_ms session_id of
           Inl e \<Rightarrow> Inl e | Inr expected \<Rightarrow> Inr (decoded = expected))"

definition nonce_to_base64_fixed :: "chal_crypto \<Rightarrow> bytes \<Rightarrow> string" where
  "nonce_to_base64_fixed C nonce = cc_b64_encode C nonce"

definition nonce_from_base64_fixed :: "chal_crypto \<Rightarrow> string \<Rightarrow> ChalAuthError + bytes" where
  "nonce_from_base64_fixed C s = (case cc_b64_decode C (trim s) of
      Inl e \<Rightarrow> Inl (ChalInvalidNonceB64 e)
    | Inr decoded \<Rightarrow> if length decoded \<noteq> NONCE_LEN then Inl (ChalNonceLength NONCE_LEN (length decoded)) else Inr decoded)"

section \<open>The store of pending challenges\<close>

definition i64_saturating_sub :: "int \<Rightarrow> int \<Rightarrow> int" where
  "i64_saturating_sub a b = max i64_min (min i64_max (a - b))"

definition i64_saturating_mul :: "int \<Rightarrow> int \<Rightarrow> int" where
  "i64_saturating_mul a b = max i64_min (min i64_max (a * b))"

record PendingChallenge =
  pc_nonce :: bytes
  pc_challenge_timestamp_ms :: int
  pc_created_at_wall_ms :: int

type_synonym chal_map = "(bytes, PendingChallenge) hmap"

text \<open>The clock of a store operation may be unreadable (a time before 1970).\<close>

definition chal_prune :: "int \<Rightarrow> int option \<Rightarrow> chal_map \<Rightarrow> chal_map" where
  "chal_prune ttl_ms clock m = (case clock of
      None \<Rightarrow> m
    | Some now_ms \<Rightarrow>
       let max_age = max (i64_saturating_mul ttl_ms 3) ttl_ms in
       hm_retain (\<lambda>_ p. i64_saturating_sub now_ms (pc_created_at_wall_ms p) \<le> max_age) m)"

definition record_challenge :: "int \<Rightarrow> int option \<Rightarrow> bytes \<Rightarrow> PendingChallenge \<Rightarrow> chal_map \<Rightarrow> chal_map" where
  "record_challenge ttl_ms clock i p m = hm_insert i p (chal_prune ttl_ms clock m)"

definition get_pending :: "int \<Rightarrow> int option \<Rightarrow> bytes \<Rightarrow> chal_map \<Rightarrow> PendingChallenge option \<times> chal_map" where
  "get_pending ttl_ms clock i m = (let m' = chal_prune ttl_ms clock m in (hm_get m' i, m'))"

definition nonce_and_timestamp_consistent_with :: "PendingChallenge \<Rightarrow> bytes \<Rightarrow> int \<Rightarrow> bool" where
  "nonce_and_timestamp_consistent_with p nonce ts \<longleftrightarrow> nonce = pc_nonce p \<and> pc_challenge_timestamp_ms p = ts"

section \<open>The handlers\<close>

datatype ApiError = ApiBadRequest string | ApiUnauthorized string | ApiConfig string

record ChallengeJson =
  ch_nonce :: string
  ch_timestamp :: int
  ch_session_id :: string

record AuthAttemptJson =
  at_session_id :: string
  at_nonce :: string
  at_timestamp :: int
  at_signature :: string

record chal_app =
  ca_secret :: bytes
  ca_ttl_ms :: int
  ca_skew_ms :: int

definition post_challenge ::
    "chal_crypto \<Rightarrow> chal_app \<Rightarrow> int option \<Rightarrow> int option \<Rightarrow> bytes \<Rightarrow> bytes \<Rightarrow> chal_map \<Rightarrow> (ApiError + ChallengeJson) \<times> chal_map" where
  "post_challenge C app clock clock2 nonce sid m = (case clock of
      None \<Rightarrow> (Inl (ApiConfig ''cannot read clock''), m)
    | Some ts \<Rightarrow>
       (Inr \<lparr>ch_nonce = nonce_to_base64_fixed C nonce, ch_timestamp = ts, ch_session_id = cc_uuid_string C sid\<rparr>,
        record_challenge (ca_ttl_ms app) clock2 sid
          \<lparr>pc_nonce = nonce, pc_challenge_timestamp_ms = ts, pc_created_at_wall_ms = ts\<rparr> m))"

text \<open>The checks on the pending challenge that was read; an expired one is to be removed.\<close>

datatype auth_verdict = Accept | RemoveAndRefuse ApiError | Refuse ApiError

definition check_attempt :: "chal_crypto \<Rightarrow> chal_app \<Rightarrow> int \<Rightarrow> bytes \<Rightarrow> AuthAttemptJson \<Rightarrow> PendingChallenge \<Rightarrow> auth_verdict" where
  "check_attempt C app now sid body pending =
    (if ca_ttl_ms app < i64_saturating_sub now (pc_created_at_wall_ms pending)
     then RemoveAndRefuse (ApiUnauthorized ''challenge expired; request `/v1/challenge` again'')
     else if ca_skew_ms app < i64_abs (i64_sub now (at_timestamp body)) then Refuse (ApiUnauthorized ''timestamp skew too large'')
     else case nonce_from_base64_fixed C (at_nonce body) of
         Inl _ \<Rightarrow> Refuse (ApiBadRequest ''nonce is invalid base64 or length'')
       | Inr nonce \<Rightarrow>
          if \<not> nonce_and_timestamp_consistent_with pending nonce (at_timestamp body)
          then Refuse (ApiUnauthorized ''nonce does not match session state'')
          else case hmac_sha256_verify_hex C (ca_secret app) nonce (at_timestamp body) (cc_uuid_string C sid) (trim (at_signature body)) of
              Inl e \<Rightarrow> Refuse (ApiBadRequest (''signature encoding invalid: '' @ chal_error_string e))
            | Inr ok \<Rightarrow> if ok then Accept else Refuse (ApiUnauthorized ''signature mismatch''))"

text \<open>The handler up to the check, with the session id it is about.\<close>

definition begin_authenticate ::
    "chal_crypto \<Rightarrow> chal_app \<Rightarrow> int option \<Rightarrow> int option \<Rightarrow> AuthAttemptJson \<Rightarrow> chal_map \<Rightarrow> (ApiError + bytes \<times> auth_verdict) \<times> chal_map" where
  "begin_authenticate C app clock clock2 body m = (case cc_uuid_parse C (trim (at_session_id body)) of
      None \<Rightarrow> (Inl (ApiBadRequest ''session_id must be UUID''), m)
    | Some sid \<Rightarrow>
       (case clock of
          None \<Rightarrow> (Inl (ApiConfig ''cannot read clock''), m)
        | Some now \<Rightarrow>
           (case get_pending (ca_ttl_ms app) clock2 sid m of
              (None, m') \<Rightarrow> (Inl (ApiUnauthorized ''unknown or redeemed session''), m')
            | (Some pending, m') \<Rightarrow> (Inr (sid, check_attempt C app now sid body pending), m'))))"

definition end_authenticate :: "bytes \<Rightarrow> auth_verdict \<Rightarrow> chal_map \<Rightarrow> (ApiError + unit) \<times> chal_map" where
  "end_authenticate sid v m = (case v of
      Accept \<Rightarrow> (Inr (), hm_remove sid m)
    | RemoveAndRefuse e \<Rightarrow> (Inl e, hm_remove sid m)
    | Refuse e \<Rightarrow> (Inl e, m))"

definition post_authenticate ::
    "chal_crypto \<Rightarrow> chal_app \<Rightarrow> int option \<Rightarrow> int option \<Rightarrow> AuthAttemptJson \<Rightarrow> chal_map \<Rightarrow> (ApiError + unit) \<times> chal_map" where
  "post_authenticate C app clock clock2 body m = (case begin_authenticate C app clock clock2 body m of
      (Inl e, m') \<Rightarrow> (Inl e, m')
    | (Inr (sid, v), m') \<Rightarrow> end_authenticate sid v m')"

text \<open>The client's answer; \<open>tamper\<close> is its demonstration of a forged MAC.\<close>

definition build_proof :: "chal_crypto \<Rightarrow> bytes \<Rightarrow> ChallengeJson \<Rightarrow> bool \<Rightarrow> string + AuthAttemptJson" where
  "build_proof C secret ch tamper = (case nonce_from_base64_fixed C (ch_nonce ch) of
      Inl e \<Rightarrow> Inl (''nonce decode: '' @ chal_error_string e)
    | Inr nonce \<Rightarrow>
       (case hmac_sha256_sign C secret nonce (ch_timestamp ch) (ch_session_id ch) of
          Inl e \<Rightarrow> Inl (''sign: '' @ chal_error_string e)
        | Inr tag0 \<Rightarrow>
           (let tag = (if tamper then tag0[0 := xor (tag0 ! 0) 0x73] else tag0) in
            Inr \<lparr>at_session_id = ch_session_id ch, at_nonce = ch_nonce ch, at_timestamp = ch_timestamp ch,
                 at_signature = cc_hex_encode C tag\<rparr>)))"

section \<open>The canonical message determines its parts\<close>

lemma length_u16_le [simp]: "length (u16_to_le_bytes w) = 2"
  by (simp add: u16_to_le_bytes_def)

lemma u16_le_inj: "u16_to_le_bytes a = u16_to_le_bytes b \<longleftrightarrow> a = b"
proof
  assume "u16_to_le_bytes a = u16_to_le_bytes b"
  then have "[word_of_nat (unat a div 256), ucast a] = [word_of_nat (unat b div 256), (ucast b :: u8)]"
    by (simp add: u16_to_le_bytes_def u16_to_be_bytes_eq)
  then show "a = b" using u16_be_roundtrip [of a] u16_be_roundtrip [of b] by (metis list.inject)
qed simp

text \<open>two challenges with the same canonical message are the same: the length prefixes leave no ambiguity between nonce,
  time and session id.\<close>

theorem canonical_message_injective:
  assumes "canonical_hmac_message n ts sid = Inr msg" "canonical_hmac_message n' ts' sid' = Inr msg"
    and "i64_range ts" "i64_range ts'"
  shows "n = n' \<and> ts = ts' \<and> sid = sid'"
proof -
  have l: "length n \<le> 16" "length n' \<le> 16" "length sid \<le> 128" "length sid' \<le> 128"
    and eq: "u16_to_le_bytes (word_of_nat (length n)) @ n @ i64_to_be_bytes ts @ u16_to_le_bytes (word_of_nat (length sid)) @ as_bytes sid =
      u16_to_le_bytes (word_of_nat (length n')) @ n' @ i64_to_be_bytes ts' @ u16_to_le_bytes (word_of_nat (length sid')) @ as_bytes sid'"
    using assms(1,2) by (auto simp: canonical_hmac_message_def MAX_NONCE_BYTES_def NONCE_LEN_def MAX_SESSION_ID_BYTES_def Let_def split: if_splits)
  from eq have "u16_to_le_bytes (word_of_nat (length n)) = u16_to_le_bytes (word_of_nat (length n'))" by simp
  then have "unat (word_of_nat (length n) :: u16) = unat (word_of_nat (length n') :: u16)" by (simp add: u16_le_inj)
  then have n: "length n = length n'" using l by simp
  with eq have "n = n'" "i64_to_be_bytes ts = i64_to_be_bytes ts'" "as_bytes sid = as_bytes sid'" by simp_all
  then show ?thesis using i64_be_roundtrip assms(3,4) by (metis as_bytes_inj)
qed

theorem canonical_message_injective_witness:
  "canonical_hmac_message [1] 5 ''a'' \<noteq> canonical_hmac_message [1] 6 ''a''"
proof
  have ok: "\<exists>m. canonical_hmac_message [1] 5 ''a'' = Inr m"
    by (simp add: canonical_hmac_message_def MAX_NONCE_BYTES_def NONCE_LEN_def MAX_SESSION_ID_BYTES_def Let_def)
  assume "canonical_hmac_message [1] 5 ''a'' = canonical_hmac_message [1] 6 ''a''"
  then show False using ok canonical_message_injective [of "[1]" 5 "''a''" _ "[1]" 6 "''a''"]
    by (auto simp: i64_range_def i64_min_def i64_max_def)
qed

section \<open>An honest exchange succeeds\<close>

lemma chal_cryptoD:
  assumes "chal_crypto_ok C"
  shows "cc_key_ok C k" "length (cc_hmac C k m) = 32" "cc_hex_decode C (cc_hex_encode C b) = Inr b"
    "trim (cc_hex_encode C b) = cc_hex_encode C b" "cc_b64_decode C (cc_b64_encode C b) = Inr b"
    "trim (cc_b64_encode C b) = cc_b64_encode C b" "length u = 16 \<Longrightarrow> cc_uuid_parse C (cc_uuid_string C u) = Some u"
    "length u = 16 \<Longrightarrow> trim (cc_uuid_string C u) = cc_uuid_string C u" "length u = 16 \<Longrightarrow> length (cc_uuid_string C u) = 36"
  using assms by (simp_all add: chal_crypto_ok_def)

lemma nonce_base64: "chal_crypto_ok C \<Longrightarrow> length n = NONCE_LEN \<Longrightarrow> nonce_from_base64_fixed C (nonce_to_base64_fixed C n) = Inr n"
  by (simp add: nonce_from_base64_fixed_def nonce_to_base64_fixed_def chal_cryptoD)

lemma sign_ok:
  assumes "chal_crypto_ok C" "length n = NONCE_LEN" "length sid = 16"
  obtains tag where "hmac_sha256_sign C secret n ts (cc_uuid_string C sid) = Inr tag" "length tag = 32"
  using assms by (auto simp: hmac_sha256_sign_def canonical_hmac_message_def MAX_NONCE_BYTES_def MAX_SESSION_ID_BYTES_def
      chal_cryptoD Let_def)

lemma xor_changes: "xor w 0x73 \<noteq> (w :: u8)"
proof
  assume "xor w 0x73 = w"
  then have "xor w (xor w 0x73) = xor w w" by simp
  then show False by (simp flip: xor.assoc)
qed

lemma tampered_tag:
  fixes tag :: bytes
  assumes "length tag = 32"
  shows "tag[0 := xor (tag ! 0) 0x73] \<noteq> tag"
  using assms xor_changes [of "tag ! 0"] nth_list_update_eq [of 0 tag "xor (tag ! 0) 0x73"] by fastforce

text \<open>The outcome of an answer to a stored challenge in time, honest or tampered with.\<close>

definition fresh_for :: "chal_app \<Rightarrow> int \<Rightarrow> int \<Rightarrow> bool" where
  "fresh_for app ts now \<longleftrightarrow> 0 \<le> ts \<and> ts \<le> now \<and> now \<le> i64_max \<and> now - ts \<le> ca_ttl_ms app \<and> now - ts \<le> ca_skew_ms app \<and> ca_ttl_ms app \<le> i64_max"

lemma fresh_kept:
  assumes "fresh_for app (pc_created_at_wall_ms p) now" "hm_ok m" "hm_get m sid = Some p"
  obtains m' where "get_pending (ca_ttl_ms app) (Some now) sid m = (Some p, m')" "hm_ok m'" "hm_get m' sid = Some p"
proof -
  let ?m = "chal_prune (ca_ttl_ms app) (Some now) m"
  have "i64_saturating_sub now (pc_created_at_wall_ms p) \<le> ca_ttl_ms app"
    using assms(1) by (simp add: fresh_for_def i64_saturating_sub_def i64_min_def)
  then have "hm_get ?m sid = Some p" using assms(2,3) by (simp add: chal_prune_def Let_def)
  moreover have "hm_ok ?m" using assms(2) by (simp add: chal_prune_def Let_def)
  ultimately show thesis using that [of ?m] by (simp add: get_pending_def)
qed

lemma answer_outcome:
  assumes C: "chal_crypto_ok C" and len: "length nonce = NONCE_LEN" "length sid = 16" and fresh: "fresh_for app ts now"
    and m: "hm_ok m" "hm_get m sid = Some \<lparr>pc_nonce = nonce, pc_challenge_timestamp_ms = ts, pc_created_at_wall_ms = ts\<rparr>"
  shows "\<exists>pf m'. build_proof C (ca_secret app)
      \<lparr>ch_nonce = nonce_to_base64_fixed C nonce, ch_timestamp = ts, ch_session_id = cc_uuid_string C sid\<rparr> tamper = Inr pf \<and>
    post_authenticate C app (Some now) (Some now) pf m =
      (if tamper then (Inl (ApiUnauthorized ''signature mismatch''), m') else (Inr (), hm_remove sid m')) \<and>
    hm_ok m' \<and> hm_get m' sid = hm_get m sid"
proof -
  obtain tag where tag: "hmac_sha256_sign C (ca_secret app) nonce ts (cc_uuid_string C sid) = Inr tag" "length tag = 32"
    using sign_ok [OF C len] by blast
  have age: "\<not> ca_ttl_ms app < i64_saturating_sub now ts" "\<not> ca_skew_ms app < i64_abs (i64_sub now ts)"
    using fresh i64_abs_diff [of now ts] by (auto simp: fresh_for_def i64_saturating_sub_def i64_min_def)
  obtain m' where g: "get_pending (ca_ttl_ms app) (Some now) sid m =
      (Some \<lparr>pc_nonce = nonce, pc_challenge_timestamp_ms = ts, pc_created_at_wall_ms = ts\<rparr>, m')"
      "hm_ok m'" "hm_get m' sid = hm_get m sid"
    using fresh_kept [OF _ m] fresh m(2) by auto
  show ?thesis
    using g(2,3) len tag(2) tampered_tag [OF tag(2)]
    by (cases tamper; simp add: build_proof_def nonce_base64 [OF C] tag post_authenticate_def begin_authenticate_def chal_cryptoD [OF C] g
        check_attempt_def age nonce_and_timestamp_consistent_with_def hmac_sha256_verify_hex_def end_authenticate_def; blast intro: g(2,3))
qed

lemma challenge_stored:
  assumes "post_challenge C app (Some ts) clock2 nonce sid m = (Inr ch, m1)" "hm_ok m"
  shows "ch = \<lparr>ch_nonce = nonce_to_base64_fixed C nonce, ch_timestamp = ts, ch_session_id = cc_uuid_string C sid\<rparr>" "hm_ok m1"
    "hm_get m1 sid = Some \<lparr>pc_nonce = nonce, pc_challenge_timestamp_ms = ts, pc_created_at_wall_ms = ts\<rparr>"
  using assms by (auto simp: post_challenge_def record_challenge_def chal_prune_def Let_def split: option.splits)

text \<open>C22: a client that knows the secret and answers a fresh challenge within its life time and the allowed skew is
  authenticated.\<close>

theorem honest_exchange_succeeds:
  assumes "chal_crypto_ok C" "length nonce = NONCE_LEN" "length sid = 16" "hm_ok m"
    and ch: "post_challenge C app (Some ts) clock2 nonce sid m = (Inr ch, m1)" and "fresh_for app ts now"
  shows "\<exists>pf m2. build_proof C (ca_secret app) ch False = Inr pf \<and>
    post_authenticate C app (Some now) (Some now) pf m1 = (Inr (), m2)"
  using answer_outcome [OF assms(1-3,6) challenge_stored(2,3) [OF ch assms(4)], of False] challenge_stored(1) [OF ch assms(4)] by auto

section \<open>A concrete instance of the primitives\<close>

definition pair_letter :: "nat \<Rightarrow> char" where "pair_letter n = char_of (65 + n)"

definition pair_encode :: "bytes \<Rightarrow> string" where
  "pair_encode b = concat (map (\<lambda>x. [pair_letter (unat x div 16), pair_letter (unat x mod 16)]) b)"

fun pair_decode :: "string \<Rightarrow> bytes" where
  "pair_decode (a # b # s) = word_of_nat ((of_char a - 65) * 16 + (of_char b - 65)) # pair_decode s"
| "pair_decode _ = []"

definition chal_sample :: chal_crypto where
  "chal_sample = \<lparr>cc_hmac = (\<lambda>k m. take 32 (k @ List.rev m @ replicate 32 0)), cc_key_ok = (\<lambda>_. True),
     cc_hex_decode = (\<lambda>s. Inr (pair_decode s)), cc_hex_encode = pair_encode,
     cc_b64_decode = (\<lambda>s. Inr (pair_decode s)), cc_b64_encode = pair_encode,
     cc_uuid_parse = (\<lambda>s. Some (take 16 (pair_decode s))), cc_uuid_string = (\<lambda>u. pair_encode u @ ''AAAA'')\<rparr>"

lemma pair_letter_value: "n < 16 \<Longrightarrow> of_char (pair_letter n) = 65 + n"
  by (simp add: pair_letter_def)

lemma pair_decode_encode: "pair_decode (pair_encode b @ s) = b @ pair_decode s"
proof (induction b)
  case (Cons x b)
  have "unat x < 256" using u8_less [of x] by simp
  then have "unat x div 16 < 16" by simp
  with Cons show ?case by (simp add: pair_encode_def pair_letter_value)
qed (simp add: pair_encode_def)

lemma pair_encode_solid: "list_all solid_char (pair_encode b)"
proof -
  have "solid_char (pair_letter n)" if "n < 16" for n
    using that by (simp add: solid_char_def pair_letter_value)
  moreover have "unat x div 16 < 16" for x :: u8 using u8_less [of x] by simp
  ultimately show ?thesis by (auto simp: pair_encode_def list_all_iff)
qed

lemma length_pair_encode [simp]: "length (pair_encode b) = 2 * length b"
  by (induction b) (simp_all add: pair_encode_def)

lemma chal_sample_ok: "chal_crypto_ok chal_sample"
proof -
  have "pair_decode (pair_encode b) = b" for b using pair_decode_encode [of b "[]"] by simp
  moreover have "list_all solid_char (pair_encode b @ ''AAAA'')" for b
    using pair_encode_solid [of b] by (simp add: solid_char_def)
  moreover have "length (take 32 (k @ List.rev m @ replicate 32 0)) = 32" for k m :: bytes by simp
  moreover have "length u = 16 \<Longrightarrow> length (pair_encode u @ ''AAAA'') = 36" for u by simp
  ultimately show ?thesis
    by (simp add: chal_crypto_ok_def chal_sample_def pair_decode_encode pair_encode_solid trim_all_solid del: length_take length_append)
qed

definition chal_sample_app :: chal_app where
  "chal_sample_app = \<lparr>ca_secret = [7, 9], ca_ttl_ms = CHALLENGE_TTL_MS, ca_skew_ms = CLOCK_SKEW_MS\<rparr>"

definition sample_sid :: bytes where "sample_sid = replicate 16 3"

definition sample_nonce :: bytes where "sample_nonce = replicate 16 5"

definition sample_pending :: PendingChallenge where
  "sample_pending = \<lparr>pc_nonce = sample_nonce, pc_challenge_timestamp_ms = 1000, pc_created_at_wall_ms = 1000\<rparr>"

lemmas chal_sample_defs = chal_sample_app_def sample_sid_def sample_nonce_def CHALLENGE_TTL_MS_def CLOCK_SKEW_MS_def i64_max_def

lemma sample_challenge:
  "post_challenge chal_sample chal_sample_app (Some 1000) (Some 1000) sample_nonce sample_sid [] =
    (Inr \<lparr>ch_nonce = nonce_to_base64_fixed chal_sample sample_nonce, ch_timestamp = 1000, ch_session_id = cc_uuid_string chal_sample sample_sid\<rparr>,
     [(sample_sid, sample_pending)])"
  by (simp add: post_challenge_def record_challenge_def chal_prune_def sample_pending_def hm_retain_def hm_insert_def hm_remove_def)

lemma sample_fresh: "fresh_for chal_sample_app 1000 1500" "length sample_nonce = NONCE_LEN" "length sample_sid = 16" "ca_secret chal_sample_app = [7, 9]"
  by (simp_all add: fresh_for_def chal_sample_defs NONCE_LEN_def)

theorem honest_exchange_succeeds_witness:
  "\<exists>pf m2. build_proof chal_sample [7, 9]
      (projr (fst (post_challenge chal_sample chal_sample_app (Some 1000) (Some 1000) sample_nonce sample_sid []))) False = Inr pf \<and>
    post_authenticate chal_sample chal_sample_app (Some 1500) (Some 1500) pf
      (snd (post_challenge chal_sample chal_sample_app (Some 1000) (Some 1000) sample_nonce sample_sid [])) = (Inr (), m2)"
  using honest_exchange_succeeds [OF chal_sample_ok sample_fresh(2,3) hm_ok_Nil sample_challenge sample_fresh(1)]
  unfolding sample_challenge by (simp add: sample_fresh)

section \<open>What an accepted answer proves\<close>

lemma get_pending_stored: "get_pending ttl clock i m = (Some p, m') \<Longrightarrow> hm_ok m \<Longrightarrow> hm_get m i = Some p"
  by (auto simp: get_pending_def chal_prune_def Let_def split: option.splits if_splits)

lemma check_attempt_accept:
  assumes "check_attempt C app now sid body p = Accept"
  shows "i64_saturating_sub now (pc_created_at_wall_ms p) \<le> ca_ttl_ms app" "i64_abs (i64_sub now (pc_challenge_timestamp_ms p)) \<le> ca_skew_ms app"
    "\<exists>msg. canonical_hmac_message (pc_nonce p) (pc_challenge_timestamp_ms p) (cc_uuid_string C sid) = Inr msg \<and>
       cc_hex_decode C (trim (at_signature body)) = Inr (cc_hmac C (ca_secret app) msg)"
  using assms
  by (auto simp: check_attempt_def nonce_and_timestamp_consistent_with_def hmac_sha256_verify_hex_def hmac_sha256_sign_def
      split: if_splits sum.splits CanonicalError.splits)

lemma accepted_begin:
  assumes "post_authenticate C app clock clock2 body m = (Inr (), m')"
  obtains sid now p m1 where "cc_uuid_parse C (trim (at_session_id body)) = Some sid" "clock = Some now"
    "get_pending (ca_ttl_ms app) clock2 sid m = (Some p, m1)" "check_attempt C app now sid body p = Accept" "m' = hm_remove sid m1"
  using assms
  by (auto simp: post_authenticate_def begin_authenticate_def end_authenticate_def split: option.splits sum.splits prod.splits auth_verdict.splits)

text \<open>C23: an accepted answer names a stored challenge that is neither expired nor outside the allowed skew, its signature
  is the HMAC under the server's secret of the canonical message of that stored challenge and the canonical text of its
  session id, and the challenge is gone afterwards.\<close>

theorem accepted_answer_has_mac:
  assumes "hm_ok m" "post_authenticate C app clock clock2 body m = (Inr (), m')"
  shows "\<exists>sid now p msg. cc_uuid_parse C (trim (at_session_id body)) = Some sid \<and> clock = Some now \<and> hm_get m sid = Some p \<and>
    i64_saturating_sub now (pc_created_at_wall_ms p) \<le> ca_ttl_ms app \<and>
    i64_abs (i64_sub now (pc_challenge_timestamp_ms p)) \<le> ca_skew_ms app \<and>
    canonical_hmac_message (pc_nonce p) (pc_challenge_timestamp_ms p) (cc_uuid_string C sid) = Inr msg \<and>
    cc_hex_decode C (trim (at_signature body)) = Inr (cc_hmac C (ca_secret app) msg) \<and> hm_get m' sid = None"
  using assms(2)
proof (rule accepted_begin)
  fix sid now p m1
  assume a: "cc_uuid_parse C (trim (at_session_id body)) = Some sid" "clock = Some now"
    "get_pending (ca_ttl_ms app) clock2 sid m = (Some p, m1)" "check_attempt C app now sid body p = Accept" "m' = hm_remove sid m1"
  show ?thesis using a(1,2,5) get_pending_stored [OF a(3) assms(1)] check_attempt_accept [OF a(4)] by auto
qed

lemma sample_answer:
  obtains b m' where "post_authenticate chal_sample chal_sample_app (Some 1500) (Some 1500) b [(sample_sid, sample_pending)] = (Inr (), m')"
  using answer_outcome [OF chal_sample_ok sample_fresh(2,3,1), of "[(sample_sid, sample_pending)]" False]
  by (auto simp: hm_ok_def hm_get_def sample_pending_def)

theorem accepted_answer_has_mac_witness:
  "\<exists>(body :: AuthAttemptJson) sid (p :: PendingChallenge) msg. hm_get [(sample_sid, sample_pending)] sid = Some p \<and>
     canonical_hmac_message (pc_nonce p) (pc_challenge_timestamp_ms p) (cc_uuid_string chal_sample sid) = Inr msg \<and>
     cc_hex_decode chal_sample (trim (at_signature body)) = Inr (cc_hmac chal_sample [7, 9] msg)"
proof -
  obtain b m' where b: "post_authenticate chal_sample chal_sample_app (Some 1500) (Some 1500) b [(sample_sid, sample_pending)] = (Inr (), m')"
    using sample_answer by blast
  have ok: "hm_ok [(sample_sid, sample_pending)]" by (simp add: hm_ok_def)
  show ?thesis using accepted_answer_has_mac [OF ok b] unfolding sample_fresh(4) by blast
qed

section \<open>A forged answer does not use up the challenge\<close>

text \<open>an answer with a tampered signature is refused as a mismatch, and the challenge stays: the honest answer sent
  afterwards is accepted.\<close>

theorem forged_answer_harmless:
  assumes "chal_crypto_ok C" "length nonce = NONCE_LEN" "length sid = 16" "hm_ok m"
    and ch: "post_challenge C app (Some ts) clock2 nonce sid m = (Inr ch, m1)" and "fresh_for app ts now" "fresh_for app ts later"
  shows "\<exists>forged honest m2 m3. build_proof C (ca_secret app) ch True = Inr forged \<and> build_proof C (ca_secret app) ch False = Inr honest \<and>
    post_authenticate C app (Some now) (Some now) forged m1 = (Inl (ApiUnauthorized ''signature mismatch''), m2) \<and>
    post_authenticate C app (Some later) (Some later) honest m2 = (Inr (), m3)"
proof -
  note s = challenge_stored [OF ch assms(4)]
  obtain forged m2 where f: "build_proof C (ca_secret app) ch True = Inr forged"
    "post_authenticate C app (Some now) (Some now) forged m1 = (Inl (ApiUnauthorized ''signature mismatch''), m2)"
    "hm_ok m2" "hm_get m2 sid = hm_get m1 sid"
    using answer_outcome [OF assms(1-3,6) s(2,3), of True] s(1) by auto
  show ?thesis using answer_outcome [OF assms(1-3,7) f(3), of False] f s(1,3) by auto
qed

theorem forged_answer_harmless_witness:
  "\<exists>forged m2. post_authenticate chal_sample chal_sample_app (Some 1500) (Some 1500) forged [(sample_sid, sample_pending)] =
     (Inl (ApiUnauthorized ''signature mismatch''), m2)"
  using forged_answer_harmless [OF chal_sample_ok sample_fresh(2,3) hm_ok_Nil sample_challenge sample_fresh(1,1)] by blast

section \<open>Redeeming a challenge\<close>

datatype chal_op =
    ChallengeOp "int option" "int option" bytes bytes
  | AuthenticateOp "int option" "int option" AuthAttemptJson

fun chal_step :: "chal_crypto \<Rightarrow> chal_app \<Rightarrow> chal_op \<Rightarrow> chal_map \<Rightarrow> chal_map" where
  "chal_step C app (ChallengeOp c c2 nonce sid) m = snd (post_challenge C app c c2 nonce sid m)"
| "chal_step C app (AuthenticateOp c c2 body) m = snd (post_authenticate C app c c2 body m)"

text \<open>How often a sequence of requests issues a session id, and how often it is redeemed.\<close>

fun issued :: "bytes \<Rightarrow> chal_op \<Rightarrow> nat" where
  "issued sid (ChallengeOp (Some _) _ _ i) = (if i = sid then 1 else 0)"
| "issued sid _ = 0"

fun redeemed :: "chal_crypto \<Rightarrow> chal_app \<Rightarrow> bytes \<Rightarrow> chal_op \<Rightarrow> chal_map \<Rightarrow> nat" where
  "redeemed C app sid (AuthenticateOp c c2 body) m =
    (if fst (post_authenticate C app c c2 body m) = Inr () \<and> cc_uuid_parse C (trim (at_session_id body)) = Some sid then 1 else 0)"
| "redeemed C app sid _ m = 0"

fun redeem_count :: "chal_crypto \<Rightarrow> chal_app \<Rightarrow> bytes \<Rightarrow> chal_op list \<Rightarrow> chal_map \<Rightarrow> nat" where
  "redeem_count C app sid [] m = 0"
| "redeem_count C app sid (r # rs) m = redeemed C app sid r m + redeem_count C app sid rs (chal_step C app r m)"

abbreviation stored :: "bytes \<Rightarrow> chal_map \<Rightarrow> nat" where
  "stored sid m \<equiv> (if hm_get m sid = None then 0 else 1)"

lemma prune_none: "hm_get m i = None \<Longrightarrow> hm_ok m \<Longrightarrow> hm_get (chal_prune ttl c m) i = None"
  by (auto simp: chal_prune_def Let_def split: option.splits)

lemma prune_ok [simp]: "hm_ok m \<Longrightarrow> hm_ok (chal_prune ttl c m)"
  by (auto simp: chal_prune_def Let_def split: option.splits)

lemma chal_step_ok: "hm_ok m \<Longrightarrow> hm_ok (chal_step C app r m)"
  by (cases r) (auto simp: post_challenge_def record_challenge_def post_authenticate_def begin_authenticate_def end_authenticate_def
      get_pending_def Let_def split: option.splits sum.splits prod.splits auth_verdict.splits)

lemma authenticate_none:
  assumes "hm_get m sid = None" "hm_ok m"
  shows "hm_get (snd (post_authenticate C app c c2 body m)) sid = None"
  using assms prune_none [OF assms]
  by (auto simp: post_authenticate_def begin_authenticate_def end_authenticate_def get_pending_def Let_def
      split: option.splits sum.splits prod.splits auth_verdict.splits)

lemma redeemed_step:
  assumes "hm_ok m"
  shows "redeemed C app sid r m + stored sid (chal_step C app r m) \<le> issued sid r + stored sid m"
proof (cases r)
  case (ChallengeOp c c2 nonce i)
  then show ?thesis using prune_none [OF _ assms, of sid]
    by (cases c) (auto simp: post_challenge_def record_challenge_def)
next
  case (AuthenticateOp c c2 body)
  show ?thesis
  proof (cases "redeemed C app sid r m = 0")
    case True
    then show ?thesis using authenticate_none [OF _ assms, of sid] AuthenticateOp by auto
  next
    case False
    then have "post_authenticate C app c c2 body m = (Inr (), snd (post_authenticate C app c c2 body m))"
      "cc_uuid_parse C (trim (at_session_id body)) = Some sid" using AuthenticateOp by (auto split: if_splits intro: prod_eqI)
    then have "hm_get m sid \<noteq> None" "hm_get (snd (post_authenticate C app c c2 body m)) sid = None"
      using get_pending_stored [OF _ assms] by (auto elim!: accepted_begin)
    then show ?thesis using AuthenticateOp by simp
  qed
qed

text \<open>C24: handled one after the other, requests redeem a session id at most as often as it was issued: an answer sent again
  is refused.\<close>

theorem redeemed_at_most_once:
  "redeem_count C app sid rs [] \<le> sum_list (map (issued sid) rs)"
proof -
  have "redeem_count C app sid rs m \<le> sum_list (map (issued sid) rs) + stored sid m" if "hm_ok m" for m
    using that
  proof (induction rs arbitrary: m)
    case (Cons r rs)
    show ?case using Cons.IH [OF chal_step_ok [OF Cons.prems], of C app r] redeemed_step [OF Cons.prems, of C app sid r]
      unfolding redeem_count.simps list.map sum_list.Cons by linarith
  qed simp
  from this [of "[]"] show ?thesis by simp
qed

text \<open>C38: two requests with the same answer that are handled at the same time are both accepted, since the challenge is
  removed only after both have read it.\<close>

theorem concurrent_answers_redeem_twice:
  assumes "hm_ok m" "begin_authenticate C app (Some now) (Some now) body m = (Inr (sid, Accept), m1)"
  shows "\<exists>m2 m3. begin_authenticate C app (Some now) (Some now) body m1 = (Inr (sid, Accept), m1) \<and>
    end_authenticate sid Accept m1 = (Inr (), m2) \<and> end_authenticate sid Accept m2 = (Inr (), m3)"
proof -
  have p: "chal_prune t (Some now) (chal_prune t (Some now) m) = chal_prune t (Some now) m" for t
    by (simp add: chal_prune_def hm_retain_def Let_def)
  show ?thesis using assms(2)
    by (auto simp: begin_authenticate_def get_pending_def end_authenticate_def Let_def p split: option.splits)
qed

theorem concurrent_answers_redeem_twice_witness:
  "\<exists>body sid m1 m2 m3. begin_authenticate chal_sample chal_sample_app (Some 1500) (Some 1500) body [(sample_sid, sample_pending)] = (Inr (sid, Accept), m1) \<and>
     begin_authenticate chal_sample chal_sample_app (Some 1500) (Some 1500) body m1 = (Inr (sid, Accept), m1) \<and>
     end_authenticate sid Accept m1 = (Inr (), m2) \<and> end_authenticate sid Accept m2 = (Inr (), m3)"
proof -
  obtain b m' where b: "post_authenticate chal_sample chal_sample_app (Some 1500) (Some 1500) b [(sample_sid, sample_pending)] = (Inr (), m')"
    using sample_answer by blast
  obtain sid m1 where a: "begin_authenticate chal_sample chal_sample_app (Some 1500) (Some 1500) b [(sample_sid, sample_pending)] = (Inr (sid, Accept), m1)"
    by (rule accepted_begin [OF b]) (simp add: begin_authenticate_def)
  have ok: "hm_ok [(sample_sid, sample_pending)]" by (simp add: hm_ok_def)
  show ?thesis using a concurrent_answers_redeem_twice [OF ok a] by blast
qed

end
