(* ===== verification/Cmd_Template.thy ===== *)
theory Cmd_Template
  imports Deploy_Core Net_Addr
begin

text \<open>
  Parameters in the command lines of a project manifest (\<^verbatim>\<open>deploy-core/src/cmd_template.rs\<close>):
  \<^verbatim>\<open>${NAME}\<close> and \<^verbatim>\<open>${NAME=a|b}\<close>. The two scanners of the code, one over bytes that collects the parameters
  and one over characters that replaces them, are translated with the index replaced by the rest of the text. The theory
  gives one reference segmentation of a command, shows that both scanners compute it, and states when substitution
  succeeds, with which error it fails and what text it leaves alone.
\<close>

section \<open>Parameters\<close>

record CmdPlaceholder =
  ph_name :: string
  ph_options :: "string list option"

definition is_ascii_alphabetic :: "char \<Rightarrow> bool" where
  "is_ascii_alphabetic c = (let n = of_char c :: nat in 65 \<le> n \<and> n \<le> 90 \<or> 97 \<le> n \<and> n \<le> 122)"

definition valid_placeholder_name :: "string \<Rightarrow> bool" where
  "valid_placeholder_name name = (case name of
      [] \<Rightarrow> False
    | first # chars \<Rightarrow>
       (is_ascii_alphabetic first \<or> first = CHR ''_'') \<and> list_all (\<lambda>c. is_ascii_alphanumeric c \<or> c = CHR ''_'') chars)"

definition option_list :: "string \<Rightarrow> string list option" where
  "option_list opts = (let list = filter (\<lambda>s. s \<noteq> []) (map trim (split_on ((=) (CHR ''|'')) opts)) in
     if list = [] then None else Some list)"

definition parse_placeholder_inner :: "string \<Rightarrow> (CmdPlaceholder \<times> nat) option" where
  "parse_placeholder_inner rest = (case position ((=) (CHR ''}'')) rest of
      None \<Rightarrow> None
    | Some close \<Rightarrow>
       (let inner = trim (take close rest) in
        if inner = [] then None
        else
          let (name, options) = (case split_once (CHR ''='') inner of
              Some (n, opts) \<Rightarrow> (trim n, option_list opts)
            | None \<Rightarrow> (inner, None)) in
          if \<not> valid_placeholder_name name then None
          else Some (\<lparr>ph_name = name, ph_options = options\<rparr>, close + 1)))"

definition push_new :: "CmdPlaceholder \<Rightarrow> CmdPlaceholder list \<Rightarrow> CmdPlaceholder list" where
  "push_new ph out = (if list_ex (\<lambda>p. ph_name p = ph_name ph) out then out else out @ [ph])"

function parse_loop :: "CmdPlaceholder list \<Rightarrow> string \<Rightarrow> CmdPlaceholder list" where
  "parse_loop out s =
    (if \<not> 2 < length s then out
     else if s ! 0 = CHR ''$'' \<and> s ! 1 = CHR ''{'' then
       (case parse_placeholder_inner (drop 2 s) of
          Some (ph, consumed) \<Rightarrow> parse_loop (push_new ph out) (drop (2 + consumed) s)
        | None \<Rightarrow> parse_loop out (drop 1 s))
     else parse_loop out (drop 1 s))"
  by pat_completeness auto
termination by (relation "measure (\<lambda>(_, s). length s)") auto

declare parse_loop.simps [simp del]

definition parse_cmd_placeholders :: "string \<Rightarrow> CmdPlaceholder list" where
  "parse_cmd_placeholders cmd = parse_loop [] cmd"

fun merge_one :: "CmdPlaceholder \<Rightarrow> CmdPlaceholder list \<Rightarrow> CmdPlaceholder list" where
  "merge_one ph [] = [ph]"
| "merge_one ph (p # ps) = (if ph_name p = ph_name ph
     then (if ph_options p = None then p\<lparr>ph_options := ph_options ph\<rparr> else p) # ps
     else p # merge_one ph ps)"

definition merge_cmd_placeholders :: "string list \<Rightarrow> CmdPlaceholder list" where
  "merge_cmd_placeholders cmds = fold (\<lambda>cmd out. fold merge_one (parse_cmd_placeholders cmd) out) cmds []"

section \<open>Substitution\<close>

definition check_value :: "(string \<Rightarrow> string option) \<Rightarrow> CmdPlaceholder \<Rightarrow> string + unit" where
  "check_value vals p = (case vals (ph_name p) of
      None \<Rightarrow> Inl (''missing value for parameter `'' @ ph_name p @ ''`'')
    | Some raw \<Rightarrow>
       (let v = trim raw in
        if v = [] then Inl (''empty value for parameter `'' @ ph_name p @ ''`'')
        else case ph_options p of
            None \<Rightarrow> Inr ()
          | Some opts \<Rightarrow> if v \<notin> set opts
              then Inl (''invalid value for `'' @ ph_name p @ ''`: expected one of '' @ join '', '' opts) else Inr ()))"

fun check_values :: "(string \<Rightarrow> string option) \<Rightarrow> CmdPlaceholder list \<Rightarrow> string + unit" where
  "check_values vals [] = Inr ()"
| "check_values vals (p # ps) = (case check_value vals p of Inl e \<Rightarrow> Inl e | Inr _ \<Rightarrow> check_values vals ps)"

text \<open>The number of bytes of the next character; in a \<open>str\<close> it is always well-formed.\<close>

definition len_utf8 :: "string \<Rightarrow> nat" where
  "len_utf8 s = (case utf8_next (as_bytes s) of Utf8_Char n \<Rightarrow> n | Utf8_Bad n \<Rightarrow> n)"

lemma len_utf8_pos: "0 < len_utf8 s"
  using utf8_next_pos by (auto simp: len_utf8_def split: utf8_step.splits)

definition placeholder_at :: "string \<Rightarrow> (CmdPlaceholder \<times> nat) option" where
  "placeholder_at s = (case strip_prefix ''${'' s of None \<Rightarrow> None | Some after \<Rightarrow> parse_placeholder_inner after)"

definition value_text :: "(string \<Rightarrow> string option) \<Rightarrow> CmdPlaceholder \<Rightarrow> string" where
  "value_text vals ph = (case vals (ph_name ph) of Some s \<Rightarrow> trim s | None \<Rightarrow> [])"

function substitute_loop :: "(string \<Rightarrow> string option) \<Rightarrow> string \<Rightarrow> string" where
  "substitute_loop vals s =
    (if s = [] then []
     else case placeholder_at s of
         Some (ph, consumed) \<Rightarrow> value_text vals ph @ substitute_loop vals (drop (2 + consumed) s)
       | None \<Rightarrow> take (len_utf8 s) s @ substitute_loop vals (drop (len_utf8 s) s))"
  by pat_completeness auto
termination by (relation "measure (\<lambda>(_, s). length s)") (auto simp: len_utf8_pos)

declare substitute_loop.simps [simp del]

definition substitute_cmd :: "string \<Rightarrow> (string \<Rightarrow> string option) \<Rightarrow> string + string" where
  "substitute_cmd cmd vals = (case check_values vals (parse_cmd_placeholders cmd) of
      Inl e \<Rightarrow> Inl e | Inr _ \<Rightarrow> Inr (substitute_loop vals cmd))"

definition missing_placeholders_message :: "CmdPlaceholder list \<Rightarrow> string" where
  "missing_placeholders_message ps = ''command requires parameters: '' @ join '', '' (map ph_name ps) @
     '' (set via desktop UI or pass values)''"

definition resolve_cmd_template :: "string \<Rightarrow> (string \<Rightarrow> string option) option \<Rightarrow> string + string" where
  "resolve_cmd_template cmd vals = (let placeholders = parse_cmd_placeholders cmd in
     if placeholders = [] then Inr cmd
     else case vals of None \<Rightarrow> Inl (missing_placeholders_message placeholders) | Some m \<Rightarrow> substitute_cmd cmd m)"

section \<open>The segments of a command\<close>

text \<open>The reference reading of a command, left to right: single characters, and parameters with the text they stand in.\<close>

datatype segment = Text char | Param CmdPlaceholder string

lemma placeholder_at_length: "placeholder_at s = Some (ph, n) \<Longrightarrow> 2 < length s"
  by (auto simp: placeholder_at_def strip_prefix_def starts_with_def parse_placeholder_inner_def position_Some_iff Let_def
      split: option.splits if_splits prod.splits)

function segments :: "string \<Rightarrow> segment list" where
  "segments s = (if s = [] then [] else case placeholder_at s of
      Some (ph, n) \<Rightarrow> Param ph (take (2 + n) s) # segments (drop (2 + n) s)
    | None \<Rightarrow> Text (hd s) # segments (drop 1 s))"
  by pat_completeness auto
termination by (relation "measure length") auto

declare segments.simps [simp del]

fun segment_text :: "segment \<Rightarrow> string" where
  "segment_text (Text c) = [c]"
| "segment_text (Param ph t) = t"

fun segment_params :: "segment \<Rightarrow> CmdPlaceholder list" where
  "segment_params (Text c) = []"
| "segment_params (Param ph t) = [ph]"

fun segment_value :: "(string \<Rightarrow> string option) \<Rightarrow> segment \<Rightarrow> string" where
  "segment_value vals (Text c) = [c]"
| "segment_value vals (Param ph t) = value_text vals ph"

abbreviation params :: "string \<Rightarrow> CmdPlaceholder list" where
  "params cmd \<equiv> concat (map segment_params (segments cmd))"

lemma segments_Nil [simp]: "segments [] = []"
  by (simp add: segments.simps)

lemma segments_None: "placeholder_at (c # s) = None \<Longrightarrow> segments (c # s) = Text c # segments s"
  by (subst segments.simps) simp

lemma segments_Some: "placeholder_at s = Some (ph, n) \<Longrightarrow> segments s = Param ph (take (2 + n) s) # segments (drop (2 + n) s)"
  using placeholder_at_length [of s ph n] by (subst segments.simps) auto

lemma segments_cover: "concat (map segment_text (segments s)) = s"
proof (induction s rule: segments.induct)
  case (1 s)
  show ?case
  proof (cases "placeholder_at s")
    case None
    then show ?thesis using 1 by (cases s) (simp_all add: segments_None)
  next
    case (Some x)
    then obtain ph n where x: "placeholder_at s = Some (ph, n)" by (cases x) simp
    moreover have "s \<noteq> []" using placeholder_at_length [OF x] by auto
    ultimately show ?thesis using 1 by (simp add: segments_Some)
  qed
qed

lemma params_short: "length s \<le> 2 \<Longrightarrow> params s = []"
proof (induction s rule: segments.induct)
  case (1 s)
  have "placeholder_at s = None" using placeholder_at_length [of s] 1(3) by (cases "placeholder_at s") auto
  then show ?case using 1 by (cases s) (simp_all add: segments_None)
qed

lemma placeholder_at_iff:
  "2 < length s \<Longrightarrow> placeholder_at s = (if s ! 0 = CHR ''$'' \<and> s ! 1 = CHR ''{'' then parse_placeholder_inner (drop 2 s) else None)"
  by (cases s; cases "List.tl s") (auto simp: placeholder_at_def strip_prefix_def starts_with_def)

lemma parse_loop_segments: "parse_loop out s = fold push_new (params s) out"
proof (induction out s rule: parse_loop.induct)
  case (1 out s)
  show ?case
  proof (cases "2 < length s")
    case False
    then have "params s = []" by (intro params_short) simp
    with False show ?thesis unfolding parse_loop.simps [of out s] by (simp only: if_True not_False_eq_True fold_simps)
  next
    case True
    show ?thesis
    proof (cases "placeholder_at s")
      case None
      obtain c r where s: "s = c # r" using True by (cases s) auto
      have "parse_loop out s = parse_loop out (drop 1 s)"
        using None True by (subst parse_loop.simps) (auto simp: placeholder_at_iff split: if_splits)
      moreover have "parse_loop out (drop 1 s) = fold push_new (params (drop 1 s)) out"
        using 1 None True by (auto simp: placeholder_at_iff split: if_splits)
      ultimately show ?thesis using None by (simp add: s segments_None)
    next
      case (Some x)
      then obtain ph n where x: "placeholder_at s = Some (ph, n)" by (cases x) simp
      then have "s ! 0 = CHR ''$'' \<and> s ! 1 = CHR ''{''" "parse_placeholder_inner (drop 2 s) = Some (ph, n)"
        using True by (auto simp: placeholder_at_iff split: if_splits)
      then show ?thesis using 1 True by (simp add: parse_loop.simps [of out s] segments_Some [OF x])
    qed
  qed
qed

lemma no_dollar: "s \<noteq> [] \<Longrightarrow> hd s \<noteq> CHR ''$'' \<Longrightarrow> placeholder_at s = None"
  by (cases s) (auto simp: placeholder_at_def strip_prefix_def starts_with_def)

lemma segments_plain: "list_all (\<lambda>c. c \<noteq> CHR ''$'') a \<Longrightarrow> segments (a @ b) = map Text a @ segments b"
  by (induction a) (simp_all add: segments_None no_dollar)

lemma cont_not_dollar: "utf8_cont (char_byte c) \<Longrightarrow> c \<noteq> CHR ''$''"
  by (auto simp: utf8_cont_def char_byte_def)

lemma second_cont: "utf8_second3 a b \<Longrightarrow> utf8_cont b" "utf8_second4 a b \<Longrightarrow> utf8_cont b"
  by (auto simp: utf8_second3_def utf8_second4_def utf8_cont_def word_le_nat_alt)

lemma cont_at: "utf8_cont (byte_at bs i) \<Longrightarrow> i < length bs"
  by (auto simp: byte_at_def utf8_cont_def split: if_splits)

lemma len_utf8_cont: "0 < i \<Longrightarrow> i < len_utf8 s \<Longrightarrow> utf8_cont (byte_at (as_bytes s) i)"
proof -
  assume i: "0 < i" "i < len_utf8 s"
  then have "len_utf8 s \<le> 4" "i = 1 \<or> i = 2 \<or> i = 3"
    by (auto simp: len_utf8_def utf8_next_def Let_def split: if_splits)
  moreover have "1 < len_utf8 s \<Longrightarrow> utf8_cont (byte_at (as_bytes s) 1)" "2 < len_utf8 s \<Longrightarrow> utf8_cont (byte_at (as_bytes s) 2)"
    "3 < len_utf8 s \<Longrightarrow> utf8_cont (byte_at (as_bytes s) 3)"
    using second_cont by (auto simp: len_utf8_def utf8_next_def Let_def split: if_splits)
  ultimately show ?thesis using i by blast
qed

lemma next_char_plain: "list_all (\<lambda>c. c \<noteq> CHR ''$'') (List.tl (take (len_utf8 s) s))"
proof -
  have "s ! i \<noteq> CHR ''$''" if "0 < i" "i < len_utf8 s" "i < length s" for i
    using len_utf8_cont [OF that(1,2)] that(3) cont_not_dollar [of "s ! i"] by (simp add: byte_at_def as_bytes_def)
  then show ?thesis by (auto simp: list_all_length nth_tl)
qed

lemma substitute_loop_segments: "substitute_loop vals s = concat (map (segment_value vals) (segments s))"
proof (induction vals s rule: substitute_loop.induct)
  case (1 vals s)
  show ?case
  proof (cases "s = [] \<or> placeholder_at s \<noteq> None")
    case True
    then show ?thesis using 1 by (auto simp: substitute_loop.simps [of vals s] segments_Some)
  next
    case False
    let ?n = "len_utf8 s"
    obtain c r where s: "take ?n s = c # r" using False len_utf8_pos [of s] by (cases "take ?n s") auto
    have "s = c # r @ drop ?n s" using s append_take_drop_id [of ?n s] by simp
    moreover have "list_all (\<lambda>c. c \<noteq> CHR ''$'') r" using next_char_plain [of s] by (simp add: s)
    ultimately have "segments s = map Text (c # r) @ segments (drop ?n s)"
      using False segments_None segments_plain by (metis (no_types, lifting) append_Cons list.simps(9) option.exhaust)
    moreover have "concat (map (segment_value vals) (map Text t)) = t" for t by (induction t) simp_all
    moreover have "placeholder_at s = None" using False by blast
    ultimately show ?thesis using False 1 s by (simp add: substitute_loop.simps [of vals s])
  qed
qed

section \<open>Which parameters a command has\<close>

lemma push_new_eq: "push_new ph out = (if ph_name ph \<in> ph_name ` set out then out else out @ [ph])"
  by (auto simp: push_new_def list_ex_iff intro: rev_image_eqI [OF _ sym])

lemma push_new_names: "ph_name ` set (push_new ph out) = insert (ph_name ph) (ph_name ` set out)"
  by (auto simp: push_new_eq)

lemma push_new_distinct: "distinct (map ph_name out) \<Longrightarrow> distinct (map ph_name (push_new ph out))"
  by (auto simp: push_new_eq)

lemma fold_push_names: "ph_name ` set (fold push_new ps out) = ph_name ` set out \<union> ph_name ` set ps"
  by (induction ps arbitrary: out) (simp_all add: push_new_names)

lemma fold_push_distinct: "distinct (map ph_name out) \<Longrightarrow> distinct (map ph_name (fold push_new ps out))"
  by (induction ps arbitrary: out) (simp_all add: push_new_distinct)

definition first_named :: "CmdPlaceholder \<Rightarrow> CmdPlaceholder list \<Rightarrow> bool" where
  "first_named p ps \<longleftrightarrow> find (\<lambda>q. ph_name q = ph_name p) ps = Some p"

lemma first_named_Cons: "first_named p (a # ps) \<longleftrightarrow> (if ph_name a = ph_name p then a = p else first_named p ps)"
  by (simp add: first_named_def)

lemma fold_push_mem:
  "p \<in> set (fold push_new ps out) \<longleftrightarrow> p \<in> set out \<or> ph_name p \<notin> ph_name ` set out \<and> first_named p ps"
proof (induction ps arbitrary: out)
  case (Cons a ps)
  have "p \<in> set (fold push_new (a # ps) out) \<longleftrightarrow>
    p \<in> set (push_new a out) \<or> ph_name p \<notin> ph_name ` set (push_new a out) \<and> first_named p ps"
    unfolding fold_Cons comp_apply by (rule Cons.IH)
  also have "\<dots> \<longleftrightarrow> p \<in> set out \<or> ph_name p \<notin> ph_name ` set out \<and> first_named p (a # ps)"
    unfolding push_new_names first_named_Cons push_new_eq by (cases "ph_name a = ph_name p") (simp_all, blast+)
  finally show ?case .
qed (simp add: first_named_def)

lemma parsed_mem: "p \<in> set (parse_cmd_placeholders cmd) \<longleftrightarrow> first_named p (params cmd)"
  unfolding parse_cmd_placeholders_def parse_loop_segments fold_push_mem by simp

lemma parsed_names: "ph \<in> set (params cmd) \<Longrightarrow> \<exists>p \<in> set (parse_cmd_placeholders cmd). ph_name p = ph_name ph"
proof -
  assume "ph \<in> set (params cmd)"
  then have "ph_name ph \<in> ph_name ` set (fold push_new (params cmd) [])" unfolding fold_push_names by (rule UnI2 [OF imageI])
  then show ?thesis unfolding parse_cmd_placeholders_def parse_loop_segments by (metis imageE)
qed

text \<open>the parameters reported for a command have distinct names, and they are the first occurrences of each name in its
  segments; the segments put together are the command.\<close>

theorem parsed_placeholders:
  "distinct (map ph_name (parse_cmd_placeholders cmd)) \<and>
   set (parse_cmd_placeholders cmd) = {p. first_named p (params cmd)} \<and>
   ph_name ` set (parse_cmd_placeholders cmd) = ph_name ` set (params cmd) \<and> concat (map segment_text (segments cmd)) = cmd"
proof (intro conjI)
  show "distinct (map ph_name (parse_cmd_placeholders cmd))"
    using fold_push_distinct [of "[]" "params cmd"] unfolding parse_cmd_placeholders_def parse_loop_segments by simp
  show "set (parse_cmd_placeholders cmd) = {p. first_named p (params cmd)}" by (auto simp only: parsed_mem)
  show "ph_name ` set (parse_cmd_placeholders cmd) = ph_name ` set (params cmd)"
    using fold_push_names [of "params cmd" "[]"] unfolding parse_cmd_placeholders_def parse_loop_segments by simp
qed (rule segments_cover)

section \<open>Substitution replaces exactly the parameters\<close>

definition usable :: "(string \<Rightarrow> string option) \<Rightarrow> CmdPlaceholder \<Rightarrow> bool" where
  "usable vals p \<longleftrightarrow> (\<exists>raw. vals (ph_name p) = Some raw \<and> trim raw \<noteq> [] \<and> (\<forall>opts. ph_options p = Some opts \<longrightarrow> trim raw \<in> set opts))"

lemma check_value_ok: "check_value vals p = Inr () \<longleftrightarrow> usable vals p"
  by (auto simp: check_value_def usable_def Let_def split: option.splits)

lemma check_values_find:
  "check_values vals ps = (case find (\<lambda>p. \<not> usable vals p) ps of None \<Rightarrow> Inr () | Some p \<Rightarrow> check_value vals p)"
proof (induction ps)
  case (Cons p ps)
  then show ?case using check_value_ok [of vals p] by (cases "check_value vals p") (auto split: option.splits)
qed simp

lemma substitute_find:
  "substitute_cmd cmd vals = (case find (\<lambda>p. \<not> usable vals p) (parse_cmd_placeholders cmd) of
      None \<Rightarrow> Inr (concat (map (segment_value vals) (segments cmd)))
    | Some p \<Rightarrow> Inl (projl (check_value vals p)))"
proof (cases "find (\<lambda>p. \<not> usable vals p) (parse_cmd_placeholders cmd)")
  case (Some p)
  then have "\<not> usable vals p" by (auto simp: find_Some_iff)
  then have "check_value vals p \<noteq> Inr ()" by (simp add: check_value_ok)
  then show ?thesis using Some by (cases "check_value vals p") (auto simp: substitute_cmd_def check_values_find)
qed (simp add: substitute_cmd_def check_values_find substitute_loop_segments)

lemma substitute_ok: "substitute_cmd cmd vals = Inr out \<longleftrightarrow>
  (\<forall>p \<in> set (parse_cmd_placeholders cmd). usable vals p) \<and> out = concat (map (segment_value vals) (segments cmd))"
proof (cases "find (\<lambda>p. \<not> usable vals p) (parse_cmd_placeholders cmd)")
  case None
  then have "\<forall>p \<in> set (parse_cmd_placeholders cmd). usable vals p" by (auto simp: find_None_iff)
  then show ?thesis unfolding substitute_find None by auto
next
  case (Some p)
  then have "p \<in> set (parse_cmd_placeholders cmd)" "\<not> usable vals p" by (auto simp: find_Some_iff)
  then show ?thesis unfolding substitute_find using Some by auto
qed

text \<open>C25: when substitution succeeds, every parameter occurrence has a value that is not blank, and the result is the command
  with each of them replaced by its trimmed value and no other character changed.\<close>

theorem substitution_exact:
  assumes "substitute_cmd cmd vals = Inr out"
  shows "out = concat (map (\<lambda>seg. case seg of Text c \<Rightarrow> [c] | Param ph _ \<Rightarrow> trim (the (vals (ph_name ph)))) (segments cmd)) \<and>
    (\<forall>ph \<in> set (params cmd). \<exists>raw. vals (ph_name ph) = Some raw \<and> trim raw \<noteq> [])"
proof -
  have u: "usable vals p" if "p \<in> set (parse_cmd_placeholders cmd)" for p using assms that by (simp add: substitute_ok)
  have v: "\<exists>raw. vals (ph_name ph) = Some raw \<and> trim raw \<noteq> []" if "ph \<in> set (params cmd)" for ph
    using parsed_names [OF that] u by (metis usable_def)
  have "segment_value vals seg = (case seg of Text c \<Rightarrow> [c] | Param ph _ \<Rightarrow> trim (the (vals (ph_name ph))))" if "seg \<in> set (segments cmd)" for seg
  proof (cases seg)
    case (Param ph t)
    then have "ph \<in> set (params cmd)" using that by force
    from v [OF this] show ?thesis using Param by (auto simp: value_text_def)
  qed simp
  then have e: "map (segment_value vals) (segments cmd) =
    map (\<lambda>seg. case seg of Text c \<Rightarrow> [c] | Param ph _ \<Rightarrow> trim (the (vals (ph_name ph)))) (segments cmd)" by simp
  have out: "out = concat (map (segment_value vals) (segments cmd))" using assms unfolding substitute_ok by blast
  show ?thesis by (intro conjI ballI v trans [OF out arg_cong [OF e, of concat]])
qed

section \<open>Errors\<close>

lemma params_parsed: "parse_cmd_placeholders cmd = [] \<longleftrightarrow> params cmd = []"
proof -
  have "ph_name ` set (parse_cmd_placeholders cmd) = ph_name ` set (params cmd)"
    using fold_push_names [of "params cmd" "[]"] unfolding parse_cmd_placeholders_def parse_loop_segments by simp
  then show ?thesis by (metis image_is_empty set_empty)
qed

lemma resolve_error:
  assumes "resolve_cmd_template cmd (Some vals) = Inl e"
  obtains p where "first_named p (params cmd)" "\<not> usable vals p" "check_value vals p = Inl e"
proof -
  from assms obtain p where p: "find (\<lambda>p. \<not> usable vals p) (parse_cmd_placeholders cmd) = Some p" "e = projl (check_value vals p)"
    by (auto simp: resolve_cmd_template_def Let_def substitute_find split: if_splits option.splits)
  then have m: "p \<in> set (parse_cmd_placeholders cmd)" "\<not> usable vals p" by (auto simp: find_Some_iff)
  then have "check_value vals p = Inl e" using p(2) check_value_ok [of vals p] by (cases "check_value vals p") auto
  then show thesis using that m by (simp only: parsed_mem)
qed

text \<open>C26: resolving a command fails exactly when one of its parameters, read at its first occurrence, has no value, a blank
  value or a value that is not among its options, and the message names such a parameter and says which of the three it
  is.\<close>

theorem resolve_error_cases:
  "((\<exists>e. resolve_cmd_template cmd (Some vals) = Inl e) \<longleftrightarrow> (\<exists>p. first_named p (params cmd) \<and> \<not> usable vals p)) \<and>
   (\<forall>e. resolve_cmd_template cmd (Some vals) = Inl e \<longrightarrow> (\<exists>p. first_named p (params cmd) \<and>
     (vals (ph_name p) = None \<and> e = ''missing value for parameter `'' @ ph_name p @ ''`'' \<or>
      (\<exists>raw. vals (ph_name p) = Some raw \<and> trim raw = [] \<and> e = ''empty value for parameter `'' @ ph_name p @ ''`'') \<or>
      (\<exists>raw opts. vals (ph_name p) = Some raw \<and> ph_options p = Some opts \<and> trim raw \<notin> set opts \<and>
         e = ''invalid value for `'' @ ph_name p @ ''`: expected one of '' @ join '', '' opts))))"
proof (intro conjI iffI allI impI)
  assume "\<exists>p. first_named p (params cmd) \<and> \<not> usable vals p"
  then obtain p where p: "p \<in> set (parse_cmd_placeholders cmd)" "\<not> usable vals p" unfolding parsed_mem by blast
  then have "find (\<lambda>p. \<not> usable vals p) (parse_cmd_placeholders cmd) \<noteq> None" by (auto simp: find_None_iff)
  with p show "\<exists>e. resolve_cmd_template cmd (Some vals) = Inl e"
    by (auto simp: resolve_cmd_template_def Let_def substitute_find split: option.splits)
next
  fix e assume "resolve_cmd_template cmd (Some vals) = Inl e"
  then obtain p where p: "first_named p (params cmd)" "check_value vals p = Inl e" using resolve_error by blast
  show "\<exists>p. first_named p (params cmd) \<and>
     (vals (ph_name p) = None \<and> e = ''missing value for parameter `'' @ ph_name p @ ''`'' \<or>
      (\<exists>raw. vals (ph_name p) = Some raw \<and> trim raw = [] \<and> e = ''empty value for parameter `'' @ ph_name p @ ''`'') \<or>
      (\<exists>raw opts. vals (ph_name p) = Some raw \<and> ph_options p = Some opts \<and> trim raw \<notin> set opts \<and>
         e = ''invalid value for `'' @ ph_name p @ ''`: expected one of '' @ join '', '' opts))"
    by (rule exI [of _ p], rule conjI [OF p(1)])
      (use p(2) in \<open>auto simp only: check_value_def Let_def sum.inject sum.distinct split: option.splits if_splits\<close>)
qed (use resolve_error in blast)

section \<open>Merging the parameters of several commands\<close>

lemma merge_one_names: "ph_name ` set (merge_one ph ps) = insert (ph_name ph) (ph_name ` set ps)"
  by (induction ps) auto

lemma fold_merge_names: "ph_name ` set (fold merge_one qs ps) = ph_name ` set ps \<union> ph_name ` set qs"
  by (induction qs arbitrary: ps) (auto simp: merge_one_names)

lemma merged_names:
  "ph_name ` set (fold (\<lambda>cmd out. fold merge_one (parse_cmd_placeholders cmd) out) cmds out) =
     ph_name ` set out \<union> (\<Union>cmd \<in> set cmds. ph_name ` set (parse_cmd_placeholders cmd))"
  by (induction cmds arbitrary: out) (auto simp: fold_merge_names)

text \<open>values for the merged parameters of several commands are enough for each of them: the only error left is a value
  outside the options of that command.\<close>

theorem merged_values_suffice:
  assumes "\<And>p. p \<in> set (merge_cmd_placeholders cmds) \<Longrightarrow> \<exists>raw. vals (ph_name p) = Some raw \<and> trim raw \<noteq> []"
    and "cmd \<in> set cmds" "resolve_cmd_template cmd (Some vals) = Inl e"
  shows "\<exists>p opts. first_named p (params cmd) \<and> ph_options p = Some opts \<and> trim (the (vals (ph_name p))) \<notin> set opts \<and>
    e = ''invalid value for `'' @ ph_name p @ ''`: expected one of '' @ join '', '' opts"
proof -
  obtain p where p: "first_named p (params cmd)" "check_value vals p = Inl e" using resolve_error [OF assms(3)] by blast
  have "ph_name p \<in> ph_name ` set (merge_cmd_placeholders cmds)"
    using p(1) assms(2) unfolding merge_cmd_placeholders_def merged_names by (auto simp flip: parsed_mem)
  then obtain raw where "vals (ph_name p) = Some raw" "trim raw \<noteq> []" using assms(1) by (metis imageE)
  then show ?thesis using p by (auto simp: check_value_def Let_def split: option.splits if_splits)
qed

lemma sample_substitution: "substitute_cmd ''m ${A=b|p}'' [''A'' \<mapsto> '' b''] = Inr ''m b''"
  by code_simp

lemma sample_invalid: "resolve_cmd_template ''m ${A=b|p}'' (Some [''A'' \<mapsto> ''c'']) = Inl ''invalid value for `A`: expected one of b, p''"
  by code_simp

theorem substitution_exact_witness:
  "''m b'' = concat (map (\<lambda>seg. case seg of Text c \<Rightarrow> [c] | Param ph _ \<Rightarrow> trim (the ([''A'' \<mapsto> '' b''] (ph_name ph)))) (segments ''m ${A=b|p}''))"
  using substitution_exact [OF sample_substitution] by (rule conjunct1)

theorem resolve_error_cases_witness:
  "\<exists>p. first_named p (params ''m ${A=b|p}'') \<and> \<not> usable [''A'' \<mapsto> ''c''] p"
  using resolve_error_cases [of "''m ${A=b|p}''" "[''A'' \<mapsto> ''c'']"] sample_invalid by blast

lemma sample_merged: "map ph_name (merge_cmd_placeholders [''m ${A=b|p}'']) = [''A'']"
  by code_simp

lemma sample_trim: "trim ''c'' = ''c''"
  by code_simp

theorem merged_values_suffice_witness:
  "\<exists>p opts. first_named p (params ''m ${A=b|p}'') \<and> ph_options p = Some opts"
proof -
  have v: "\<exists>raw. [''A'' \<mapsto> ''c''] (ph_name p) = Some raw \<and> trim raw \<noteq> []" if "p \<in> set (merge_cmd_placeholders [''m ${A=b|p}''])" for p
    using arg_cong [OF sample_merged, of set] that sample_trim by auto
  have "''m ${A=b|p}'' \<in> set [''m ${A=b|p}'']" by simp
  from merged_values_suffice [OF v this sample_invalid] show ?thesis by blast
qed

text \<open>only the options of the first occurrence of a name count: a value that a later occurrence does not allow is
  substituted there.\<close>

theorem later_options_unchecked:
  "substitute_cmd ''${A} ${A=b|p}'' [''A'' \<mapsto> ''c''] = Inr ''c c''"
  by code_simp

end
