(* ===== verification/Client_Rules.thy ===== *)
theory Client_Rules
  imports Net_Addr Json_Value
begin

text \<open>
  The traffic rules of the local proxy: bypass lists (\<^verbatim>\<open>client/src/bypass.rs\<close>), rule bundles in JSON files
  (\<^verbatim>\<open>default_rules.rs\<close>) and the decision per host (\<^verbatim>\<open>routing_rules.rs\<close>). CIDR networks (\<^verbatim>\<open>ipnet\<close>), regular
  expressions (\<^verbatim>\<open>regex\<close>) and JSON text (\<^verbatim>\<open>serde_json\<close>) are third-party and arguments of the operations. The theory
  gives the meaning of a single rule and shows that a compiled list matches a host exactly when one of its rules does, that
  the three decision procedures follow one specification, that saving and reading a bundle gives it back, and two patterns
  that never match what they say.
\<close>

section \<open>Bypass lists\<close>

record ('n, 'r) rule_lib =
  rl_net_parse :: "string \<Rightarrow> 'n option"
  rl_net_contains :: "'n \<Rightarrow> host_kind \<Rightarrow> bool"
  rl_regex_new :: "string \<Rightarrow> string + 'r"
  rl_is_match :: "'r \<Rightarrow> string \<Rightarrow> bool"

text \<open>A network is written with its prefix length after a slash.\<close>

definition rule_lib_ok :: "('n, 'r) rule_lib \<Rightarrow> bool" where
  "rule_lib_ok L \<longleftrightarrow> (\<forall>s n. rl_net_parse L s = Some n \<longrightarrow> CHR ''/'' \<in> set s)"

record 'n BypassMatcher =
  bm_exact :: "string set"
  bm_suffixes :: "string list"
  bm_cidrs :: "'n list"

definition normalize_ipv6_for_match :: "bytes \<Rightarrow> string" where
  "normalize_ipv6_for_match ip = to_ascii_lowercase (ipv6_to_string ip)"

definition add_rule :: "('n, 'r) rule_lib \<Rightarrow> string \<Rightarrow> 'n BypassMatcher \<Rightarrow> string + 'n BypassMatcher" where
  "add_rule L raw m = (let r = trim raw in
     if r = [] then Inr m
     else case rl_net_parse L r of
         Some net \<Rightarrow> Inr (m\<lparr>bm_cidrs := bm_cidrs m @ [net]\<rparr>)
       | None \<Rightarrow>
          if CHR ''/'' \<in> set r then Inl (''invalid CIDR: '' @ r)
          else case classify_host r of
              HostV4 v4 \<Rightarrow> Inr (m\<lparr>bm_exact := insert (ipv4_to_string v4) (bm_exact m)\<rparr>)
            | HostV6 v6 \<Rightarrow> Inr (m\<lparr>bm_exact := insert (normalize_ipv6_for_match v6) (bm_exact m)\<rparr>)
            | HostName \<Rightarrow>
               (let lc = to_ascii_lowercase r in
                case strip_prefix ''*.'' lc of
                  Some rest \<Rightarrow>
                    if rest = [] then Inl ''invalid bypass *. pattern''
                    else Inr (m\<lparr>bm_suffixes := bm_suffixes m @ [CHR ''.'' # rest], bm_exact := insert rest (bm_exact m)\<rparr>)
                | None \<Rightarrow> Inr (m\<lparr>bm_exact := insert lc (bm_exact m)\<rparr>)))"

fun add_rules :: "('n, 'r) rule_lib \<Rightarrow> string list \<Rightarrow> 'n BypassMatcher \<Rightarrow> string + 'n BypassMatcher" where
  "add_rules L [] m = Inr m"
| "add_rules L (raw # rs) m = (case add_rule L raw m of Inl e \<Rightarrow> Inl e | Inr m' \<Rightarrow> add_rules L rs m')"

definition BypassMatcher_from_rules :: "('n, 'r) rule_lib \<Rightarrow> string list \<Rightarrow> string + 'n BypassMatcher" where
  "BypassMatcher_from_rules L rules = add_rules L rules \<lparr>bm_exact = {}, bm_suffixes = [], bm_cidrs = []\<rparr>"

definition BypassMatcher_matches_host :: "('n, 'r) rule_lib \<Rightarrow> 'n BypassMatcher \<Rightarrow> string \<Rightarrow> bool" where
  "BypassMatcher_matches_host L m host = (let h = to_ascii_lowercase (trim host) in
     h \<in> bm_exact m \<or> list_ex (\<lambda>suf. ends_with h suf) (bm_suffixes m) \<or>
     (case classify_host h of HostName \<Rightarrow> False | ip \<Rightarrow> list_ex (\<lambda>c. rl_net_contains L c ip) (bm_cidrs m)))"

section \<open>Rule sets of a bundle\<close>

record ('n, 'r) HostRuleSet =
  hr_bypass :: "'n BypassMatcher"
  hr_glob_regex :: "'r list"
  hr_has_rules :: bool

definition HostRuleSet_matches_host :: "('n, 'r) rule_lib \<Rightarrow> ('n, 'r) HostRuleSet \<Rightarrow> string \<Rightarrow> bool" where
  "HostRuleSet_matches_host L s host \<longleftrightarrow>
     BypassMatcher_matches_host L (hr_bypass s) host \<or> list_ex (\<lambda>re. rl_is_match L re (trim host)) (hr_glob_regex s)"

definition needs_glob_regex :: "string \<Rightarrow> bool" where
  "needs_glob_regex s = (let c = length (filter ((=) (CHR ''*'')) s) in 1 < c \<or> c = 1 \<and> \<not> starts_with s ''*'')"

definition expand_simple_rule :: "string \<Rightarrow> string list" where
  "expand_simple_rule raw = (let r = trim raw; rest = drop 1 r in
     if r = [] then []
     else if CHR ''/'' \<in> set r \<and> CHR ''*'' \<notin> set r then [r]
     else if classify_host r \<noteq> HostName then [r]
     else if starts_with r ''*'' \<and> \<not> starts_with r ''*.'' \<and> rest \<noteq> [] \<and> CHR ''.'' \<in> set rest \<and> CHR ''*'' \<notin> set rest
       then [''*.'' @ rest, rest]
     else [r])"

definition glob_char :: "char \<Rightarrow> string" where
  "glob_char ch = (if ch = CHR ''*'' then ''.*'' else if ch = CHR ''.'' then [CHR 0x5C, CHR ''.'']
     else if ch = CHR ''?'' then ''.'' else [ch])"

definition glob_pattern_to_regex :: "('n, 'r) rule_lib \<Rightarrow> string \<Rightarrow> string + 'r" where
  "glob_pattern_to_regex L pattern = (let p = trim pattern; out = ''(?i)^'' @ concat (map glob_char p) @ ''$'' in
     case rl_regex_new L out of Inl e \<Rightarrow> Inl (''regex '' @ p @ '': '' @ e) | Inr re \<Rightarrow> Inr re)"

fun compile_lines :: "('n, 'r) rule_lib \<Rightarrow> string list \<Rightarrow> string list \<Rightarrow> 'r list \<Rightarrow> string + string list \<times> 'r list" where
  "compile_lines L [] simple globs = Inr (simple, globs)"
| "compile_lines L (raw # ls) simple globs = (let r = trim raw in
     if r = [] then compile_lines L ls simple globs
     else if needs_glob_regex r then
       (case glob_pattern_to_regex L r of Inl e \<Rightarrow> Inl e | Inr re \<Rightarrow> compile_lines L ls simple (globs @ [re]))
     else compile_lines L ls (simple @ expand_simple_rule r) globs)"

definition compile_from_strings :: "('n, 'r) rule_lib \<Rightarrow> string list \<Rightarrow> string + ('n, 'r) HostRuleSet" where
  "compile_from_strings L lines = (case compile_lines L lines [] [] of
      Inl e \<Rightarrow> Inl e
    | Inr (simple, globs) \<Rightarrow>
       (case BypassMatcher_from_rules L simple of
          Inl e \<Rightarrow> Inl e
        | Inr b \<Rightarrow> Inr \<lparr>hr_bypass = b, hr_glob_regex = globs, hr_has_rules = (simple \<noteq> [] \<or> globs \<noteq> [])\<rparr>))"

definition HostRuleSet_default :: "('n, 'r) HostRuleSet" where
  "HostRuleSet_default = \<lparr>hr_bypass = \<lparr>bm_exact = {}, bm_suffixes = [], bm_cidrs = []\<rparr>, hr_glob_regex = [], hr_has_rules = False\<rparr>"

section \<open>Bundles in JSON\<close>

fun flatten_json_values :: "Json \<Rightarrow> string list" where
  "flatten_json_values (JString s) = [s]"
| "flatten_json_values (JArray a) = concat (map flatten_json_values a)"
| "flatten_json_values (JObject fs) = concat (map (\<lambda>(k, x). flatten_json_values x) fs)"
| "flatten_json_values JNull = []"
| "flatten_json_values (JBool b) = []"
| "flatten_json_values (JInt i) = []"
| "flatten_json_values (JFloat x) = []"

definition strings_from_key :: "(string \<times> Json) list \<Rightarrow> string \<Rightarrow> string list" where
  "strings_from_key obj key = (case map_of obj key of None \<Rightarrow> [] | Some v \<Rightarrow> flatten_json_values v)"

datatype RuleKind = RuleBlock | RulePass | RuleOur

text \<open>The source spells the keys in each function that uses them, and so does the model.\<close>

fun kind_keys :: "RuleKind \<Rightarrow> string \<times> string \<times> string" where
  "kind_keys RuleBlock = (''domains_block'', ''domain_patterns_block'', ''ips_block'')"
| "kind_keys RulePass = (''domains_pass'', ''domain_patterns_pass'', ''ips_pass'')"
| "kind_keys RuleOur = (''domains_our'', ''domain_patterns_our'', ''ips_our'')"

text \<open>The message for an unknown kind quotes it; only its fixed part is kept.\<close>

definition parse_kind :: "string \<Rightarrow> string + RuleKind" where
  "parse_kind kind = (let k = trim kind in
     if k = ''block'' then Inr RuleBlock
     else if k = ''pass'' then Inr RulePass
     else if k = ''our'' then Inr RuleOur
     else Inl ''kind must be block, pass, or our'')"

definition rule_lines :: "RuleKind \<Rightarrow> (string \<times> Json) list \<Rightarrow> string list" where
  "rule_lines kind obj = (case kind_keys kind of (dk, pk, ik) \<Rightarrow>
     strings_from_key obj dk @ strings_from_key obj pk @ strings_from_key obj ik @
     (if kind = RuleOur then (case map_of obj ''categories_our'' of None \<Rightarrow> [] | Some c \<Rightarrow> flatten_json_values c) else []))"

definition collect_rule_lines :: "(string \<Rightarrow> string + Json) \<Rightarrow> string \<Rightarrow> RuleKind \<Rightarrow> string + string list" where
  "collect_rule_lines from_str raw kind = (case from_str raw of
      Inl e \<Rightarrow> Inl (''JSON: '' @ e)
    | Inr (JObject obj) \<Rightarrow> Inr (rule_lines kind obj)
    | Inr _ \<Rightarrow> Inl ''rule JSON must be an object'')"

record RuleBundleEdit =
  rb_domains :: "string list"
  rb_domain_patterns :: "string list"
  rb_ips :: "string list"
  rb_categories_our :: "Json option"

fun edit_keys :: "RuleKind \<Rightarrow> string \<times> string \<times> string" where
  "edit_keys RuleBlock = (''domains_block'', ''domain_patterns_block'', ''ips_block'')"
| "edit_keys RulePass = (''domains_pass'', ''domain_patterns_pass'', ''ips_pass'')"
| "edit_keys RuleOur = (''domains_our'', ''domain_patterns_our'', ''ips_our'')"

definition edit_of_object :: "RuleKind \<Rightarrow> (string \<times> Json) list \<Rightarrow> RuleBundleEdit" where
  "edit_of_object k obj = (case edit_keys k of (dk, pk, ik) \<Rightarrow>
     \<lparr>rb_domains = strings_from_key obj dk, rb_domain_patterns = strings_from_key obj pk, rb_ips = strings_from_key obj ik,
      rb_categories_our = (if k = RuleOur then map_of obj ''categories_our'' else None)\<rparr>)"

definition parse_rule_bundle_json :: "(string \<Rightarrow> string + Json) \<Rightarrow> string \<Rightarrow> string \<Rightarrow> string + RuleBundleEdit" where
  "parse_rule_bundle_json from_str raw kind = (case parse_kind kind of
      Inl e \<Rightarrow> Inl e
    | Inr k \<Rightarrow>
       (case (if trim raw = [] then Inr (JObject []) else from_str raw) of
          Inl e \<Rightarrow> Inl (''JSON: '' @ e)
        | Inr (JObject obj) \<Rightarrow> Inr (edit_of_object k obj)
        | Inr _ \<Rightarrow> Inl ''rule JSON must be an object''))"

definition json_strings :: "string list \<Rightarrow> Json" where
  "json_strings xs = JArray (map JString xs)"

text \<open>The object that is written; its keys are distinct.\<close>

definition bundle_object :: "RuleBundleEdit \<Rightarrow> RuleKind \<Rightarrow> u32 \<Rightarrow> string \<Rightarrow> (string \<times> Json) list" where
  "bundle_object edit k version last_updated =
     [(''version'', JInt (uint version)), (''last_updated'', JString last_updated)] @
     (case k of
        RuleBlock \<Rightarrow>
          [(''domains_block'', json_strings (rb_domains edit)), (''domain_patterns_block'', json_strings (rb_domain_patterns edit)),
           (''ips_block'', json_strings (rb_ips edit))]
      | RulePass \<Rightarrow>
          [(''domains_pass'', json_strings (rb_domains edit)), (''domain_patterns_pass'', json_strings (rb_domain_patterns edit)),
           (''ips_pass'', json_strings (rb_ips edit))]
      | RuleOur \<Rightarrow>
          [(''domains_our'', json_strings (rb_domains edit)), (''domain_patterns_our'', json_strings (rb_domain_patterns edit)),
           (''ips_our'', json_strings (rb_ips edit))] @
          (case rb_categories_our edit of None \<Rightarrow> [] | Some c \<Rightarrow> [(''categories_our'', c)]))"

definition serialize_rule_bundle_json ::
    "(Json \<Rightarrow> string + string) \<Rightarrow> RuleBundleEdit \<Rightarrow> string \<Rightarrow> u32 \<Rightarrow> string \<Rightarrow> string + string" where
  "serialize_rule_bundle_json to_string_pretty edit kind version last_updated = (case parse_kind kind of
      Inl e \<Rightarrow> Inl e
    | Inr k \<Rightarrow> to_string_pretty (JObject (bundle_object edit k version last_updated)))"

definition validate_default_rules_json ::
    "('n, 'r) rule_lib \<Rightarrow> (string \<Rightarrow> string + Json) \<Rightarrow> string \<Rightarrow> string \<Rightarrow> string + unit" where
  "validate_default_rules_json L from_str kind raw = (case parse_kind kind of
      Inl e \<Rightarrow> Inl e
    | Inr k \<Rightarrow> (case collect_rule_lines from_str raw k of
        Inl e \<Rightarrow> Inl e
      | Inr lines \<Rightarrow> (case compile_from_strings L lines of Inl e \<Rightarrow> Inl e | Inr _ \<Rightarrow> Inr ())))"

text \<open>The file system as \<open>exists\<close> and \<open>read_to_string\<close> see it: no file, or the result of reading it.\<close>

type_synonym file_view = "string \<Rightarrow> (string + string) option"

definition resolve_path :: "string \<Rightarrow> string \<Rightarrow> string" where
  "resolve_path base_dir p = (let path = trim p in
     if starts_with path ''/'' then path
     else if base_dir = [] then path
     else if ends_with base_dir ''/'' then base_dir @ path else base_dir @ ''/'' @ path)"

record DefaultRulesPaths =
  dr_block_json :: "string option"
  dr_pass_json :: "string option"
  dr_our_json :: "string option"

record ('n, 'r) CompiledDefaultRules =
  cd_block :: "('n, 'r) HostRuleSet"
  cd_pass :: "('n, 'r) HostRuleSet"
  cd_our :: "('n, 'r) HostRuleSet"

definition our_has_rules :: "('n, 'r) CompiledDefaultRules \<Rightarrow> bool" where
  "our_has_rules r = hr_has_rules (cd_our r)"

definition load_rules ::
    "('n, 'r) rule_lib \<Rightarrow> (string \<Rightarrow> string + Json) \<Rightarrow> file_view \<Rightarrow> string \<Rightarrow> RuleKind \<Rightarrow> string option \<Rightarrow> string + ('n, 'r) HostRuleSet" where
  "load_rules L from_str fv parent kind p = (case p of
      None \<Rightarrow> Inr HostRuleSet_default
    | Some p \<Rightarrow>
       (let path = resolve_path parent p in
        case fv path of
          None \<Rightarrow> Inr HostRuleSet_default
        | Some (Inl e) \<Rightarrow> Inl (''read '' @ path @ '': '' @ e)
        | Some (Inr raw) \<Rightarrow>
           (case collect_rule_lines from_str raw kind of Inl e \<Rightarrow> Inl e | Inr lines \<Rightarrow> compile_from_strings L lines)))"

definition compile_default_rules ::
    "('n, 'r) rule_lib \<Rightarrow> (string \<Rightarrow> string + Json) \<Rightarrow> file_view \<Rightarrow> DefaultRulesPaths \<Rightarrow> string \<Rightarrow>
     string + ('n, 'r) CompiledDefaultRules option" where
  "compile_default_rules L from_str fv paths parent =
    (if dr_block_json paths = None \<and> dr_pass_json paths = None \<and> dr_our_json paths = None then Inr None
     else case load_rules L from_str fv parent RuleBlock (dr_block_json paths) of
         Inl e \<Rightarrow> Inl e
       | Inr block \<Rightarrow>
          (case load_rules L from_str fv parent RulePass (dr_pass_json paths) of
             Inl e \<Rightarrow> Inl e
           | Inr pass \<Rightarrow>
              (case load_rules L from_str fv parent RuleOur (dr_our_json paths) of
                 Inl e \<Rightarrow> Inl e
               | Inr our \<Rightarrow> Inr (Some \<lparr>cd_block = block, cd_pass = pass, cd_our = our\<rparr>))))"

definition read_rule_bundle_file ::
    "(string \<Rightarrow> string + Json) \<Rightarrow> file_view \<Rightarrow> string \<Rightarrow> string option \<Rightarrow> string \<Rightarrow> string + RuleBundleEdit" where
  "read_rule_bundle_file from_str fv parent rel kind =
    (let none = \<lparr>rb_domains = [], rb_domain_patterns = [], rb_ips = [], rb_categories_our = None\<rparr> in
     case rel of
       None \<Rightarrow> Inr none
     | Some r \<Rightarrow>
        (if trim r = [] then Inr none
         else let path = resolve_path parent (trim r) in
           case fv path of
             None \<Rightarrow> Inr none
           | Some (Inl e) \<Rightarrow> Inl (''read '' @ path @ '': '' @ e)
           | Some (Inr raw) \<Rightarrow> parse_rule_bundle_json from_str raw kind))"

section \<open>The decision for a host\<close>

datatype TunnelDecision = DecTunnel | DecDirect | DecBlock

datatype TrafficRuleSource = SourceMerged | SourceBundles | SourceBoard

definition TrafficRuleSource_parse :: "string \<Rightarrow> TrafficRuleSource" where
  "TrafficRuleSource_parse s = (let t = to_ascii_lowercase (trim s) in
     if t = ''bundles'' then SourceBundles else if t = ''board'' then SourceBoard else SourceMerged)"

fun TrafficRuleSource_as_str :: "TrafficRuleSource \<Rightarrow> string" where
  "TrafficRuleSource_as_str SourceMerged = ''merged''"
| "TrafficRuleSource_as_str SourceBundles = ''bundles''"
| "TrafficRuleSource_as_str SourceBoard = ''board''"

definition json_block :: "('n, 'r) rule_lib \<Rightarrow> ('n, 'r) CompiledDefaultRules option \<Rightarrow> string \<Rightarrow> bool" where
  "json_block L rules host = (case rules of None \<Rightarrow> False | Some r \<Rightarrow> HostRuleSet_matches_host L (cd_block r) host)"

definition json_pass :: "('n, 'r) rule_lib \<Rightarrow> ('n, 'r) CompiledDefaultRules option \<Rightarrow> string \<Rightarrow> bool" where
  "json_pass L rules host = (case rules of None \<Rightarrow> False | Some r \<Rightarrow> HostRuleSet_matches_host L (cd_pass r) host)"

definition outside_our :: "('n, 'r) rule_lib \<Rightarrow> ('n, 'r) CompiledDefaultRules option \<Rightarrow> string \<Rightarrow> bool" where
  "outside_our L rules host = (case rules of None \<Rightarrow> False | Some r \<Rightarrow> our_has_rules r \<and> \<not> HostRuleSet_matches_host L (cd_our r) host)"

definition tunnel_decision_merged ::
    "('n, 'r) rule_lib \<Rightarrow> string \<Rightarrow> string list \<Rightarrow> string list \<Rightarrow> ('n, 'r) CompiledDefaultRules option \<Rightarrow> string + TunnelDecision" where
  "tunnel_decision_merged L host board_bypass global_bypass rules =
    (if json_block L rules host then Inr DecBlock
     else if outside_our L rules host then Inr DecDirect
     else case BypassMatcher_from_rules L global_bypass of
         Inl e \<Rightarrow> Inl e
       | Inr g \<Rightarrow>
          (case BypassMatcher_from_rules L board_bypass of
             Inl e \<Rightarrow> Inl e
           | Inr b \<Rightarrow>
              if BypassMatcher_matches_host L g host \<or> BypassMatcher_matches_host L b host then Inr DecDirect
              else if json_pass L rules host then Inr DecDirect else Inr DecTunnel))"

definition tunnel_decision_bundles ::
    "('n, 'r) rule_lib \<Rightarrow> string \<Rightarrow> string list \<Rightarrow> ('n, 'r) CompiledDefaultRules option \<Rightarrow> string + TunnelDecision" where
  "tunnel_decision_bundles L host global_bypass rules =
    (if json_block L rules host then Inr DecBlock
     else if outside_our L rules host then Inr DecDirect
     else case BypassMatcher_from_rules L global_bypass of
         Inl e \<Rightarrow> Inl e
       | Inr g \<Rightarrow>
          if BypassMatcher_matches_host L g host then Inr DecDirect
          else if json_pass L rules host then Inr DecDirect else Inr DecTunnel)"

definition tunnel_decision_board :: "('n, 'r) rule_lib \<Rightarrow> string \<Rightarrow> string list \<Rightarrow> string list \<Rightarrow> string + TunnelDecision" where
  "tunnel_decision_board L host board_bypass global_bypass = (case BypassMatcher_from_rules L global_bypass of
      Inl e \<Rightarrow> Inl e
    | Inr g \<Rightarrow>
       (case BypassMatcher_from_rules L board_bypass of
          Inl e \<Rightarrow> Inl e
        | Inr b \<Rightarrow>
           if BypassMatcher_matches_host L g host \<or> BypassMatcher_matches_host L b host then Inr DecDirect else Inr DecTunnel))"

definition tunnel_decision ::
    "('n, 'r) rule_lib \<Rightarrow> string \<Rightarrow> string list \<Rightarrow> string list \<Rightarrow> string \<Rightarrow> ('n, 'r) CompiledDefaultRules option \<Rightarrow> string + TunnelDecision" where
  "tunnel_decision L host board_bypass global_bypass source rules = (case TrafficRuleSource_parse source of
      SourceMerged \<Rightarrow> tunnel_decision_merged L host board_bypass global_bypass rules
    | SourceBundles \<Rightarrow> tunnel_decision_bundles L host global_bypass rules
    | SourceBoard \<Rightarrow> tunnel_decision_board L host board_bypass global_bypass)"

section \<open>What a rule covers\<close>

text \<open>One rule of a bypass list, read on its own, against the trimmed host in lower case.\<close>

definition rule_covers :: "('n, 'r) rule_lib \<Rightarrow> string \<Rightarrow> string \<Rightarrow> bool" where
  "rule_covers L raw h = (let r = trim raw; lc = to_ascii_lowercase r in
     r \<noteq> [] \<and>
     (case rl_net_parse L r of
        Some net \<Rightarrow> classify_host h \<noteq> HostName \<and> rl_net_contains L net (classify_host h)
      | None \<Rightarrow>
         (case classify_host r of
            HostV4 v4 \<Rightarrow> h = ipv4_to_string v4
          | HostV6 v6 \<Rightarrow> h = normalize_ipv6_for_match v6
          | HostName \<Rightarrow> (case strip_prefix ''*.'' lc of Some rest \<Rightarrow> h = rest \<or> ends_with h (CHR ''.'' # rest) | None \<Rightarrow> h = lc))))"

definition rule_invalid :: "('n, 'r) rule_lib \<Rightarrow> string \<Rightarrow> bool" where
  "rule_invalid L raw \<longleftrightarrow> (let r = trim raw in rl_net_parse L r = None \<and>
     (CHR ''/'' \<in> set r \<or> classify_host r = HostName \<and> to_ascii_lowercase r = ''*.''))"

definition matcher_covers :: "('n, 'r) rule_lib \<Rightarrow> 'n BypassMatcher \<Rightarrow> string \<Rightarrow> bool" where
  "matcher_covers L m h \<longleftrightarrow> h \<in> bm_exact m \<or> (\<exists>suf \<in> set (bm_suffixes m). ends_with h suf) \<or>
     (classify_host h \<noteq> HostName \<and> (\<exists>c \<in> set (bm_cidrs m). rl_net_contains L c (classify_host h)))"

lemma matches_covers: "BypassMatcher_matches_host L m host = matcher_covers L m (to_ascii_lowercase (trim host))"
  by (auto simp: BypassMatcher_matches_host_def matcher_covers_def list_ex_iff Let_def split: host_kind.splits)

lemma add_rule_covers: "add_rule L raw m = Inr m' \<Longrightarrow> matcher_covers L m' h \<longleftrightarrow> matcher_covers L m h \<or> rule_covers L raw h"
  by (auto simp: add_rule_def rule_covers_def matcher_covers_def Let_def split: if_splits option.splits host_kind.splits)

lemma add_rules_covers:
  "add_rules L rules m = Inr m' \<Longrightarrow> matcher_covers L m' h \<longleftrightarrow> matcher_covers L m h \<or> (\<exists>raw \<in> set rules. rule_covers L raw h)"
  by (induction rules arbitrary: m) (auto simp: add_rule_covers split: sum.splits)

lemma strip_star_self: "strip_prefix ''*.'' ''*.'' = Some []"
  by (simp add: strip_prefix_def starts_with_def)

lemma strip_star: "strip_prefix ''*.'' s = Some [] \<longleftrightarrow> s = ''*.''"
  by (auto simp: strip_prefix_def starts_with_def split: if_splits)

lemma add_rule_fails: "(\<exists>e. add_rule L raw m = Inl e) \<longleftrightarrow> rule_invalid L raw"
proof -
  have "to_ascii_lowercase [] = []" by (simp add: to_ascii_lowercase_def)
  then show ?thesis
    by (auto simp: add_rule_def rule_invalid_def Let_def strip_star_self strip_star split: option.splits host_kind.splits)
qed

lemma add_rules_fails: "(\<exists>e. add_rules L rules m = Inl e) \<longleftrightarrow> (\<exists>raw \<in> set rules. rule_invalid L raw)"
proof (induction rules arbitrary: m)
  case (Cons raw rs)
  then show ?case using add_rule_fails [of L raw m] by (cases "add_rule L raw m") auto
qed simp

lemma from_rules_covers:
  assumes "BypassMatcher_from_rules L rules = Inr m"
  shows "BypassMatcher_matches_host L m host \<longleftrightarrow> (\<exists>raw \<in> set rules. rule_covers L raw (to_ascii_lowercase (trim host)))"
proof -
  have "\<not> matcher_covers L \<lparr>bm_exact = {}, bm_suffixes = [], bm_cidrs = []\<rparr> h" for h by (simp add: matcher_covers_def)
  then show ?thesis using add_rules_covers [OF assms [unfolded BypassMatcher_from_rules_def]] by (simp add: matches_covers)
qed

lemma from_rules_fails: "(\<exists>e. BypassMatcher_from_rules L rules = Inl e) \<longleftrightarrow> (\<exists>raw \<in> set rules. rule_invalid L raw)"
  unfolding BypassMatcher_from_rules_def by (rule add_rules_fails)

text \<open>a bypass list is refused exactly when one of its rules is neither a network nor a host, and otherwise it matches a
  host exactly when one of its rules does, whatever their order.\<close>

theorem bypass_list_exact:
  "(case BypassMatcher_from_rules L rules of
      Inl e \<Rightarrow> \<exists>raw \<in> set rules. rule_invalid L raw
    | Inr m \<Rightarrow> \<not> (\<exists>raw \<in> set rules. rule_invalid L raw) \<and>
        (\<forall>host. BypassMatcher_matches_host L m host \<longleftrightarrow> (\<exists>raw \<in> set rules. rule_covers L raw (to_ascii_lowercase (trim host)))))"
  using from_rules_fails [of L rules] from_rules_covers [of L rules] by (cases "BypassMatcher_from_rules L rules") auto

section \<open>What a line of a bundle covers\<close>

definition line_covers :: "('n, 'r) rule_lib \<Rightarrow> string \<Rightarrow> string \<Rightarrow> bool" where
  "line_covers L raw host = (let r = trim raw in
     if needs_glob_regex r
     then r \<noteq> [] \<and> (\<exists>re. glob_pattern_to_regex L r = Inr re \<and> rl_is_match L re (trim host))
     else \<exists>x \<in> set (expand_simple_rule r). rule_covers L x (to_ascii_lowercase (trim host)))"

lemma needs_glob_Nil: "\<not> needs_glob_regex []"
  by (simp add: needs_glob_regex_def)

lemma expand_Nil: "expand_simple_rule r = [] \<longleftrightarrow> trim r = []"
  by (simp add: expand_simple_rule_def Let_def)

lemma compile_lines_covers:
  "compile_lines L lines simple globs = Inr (simple', globs') \<Longrightarrow>
   (\<exists>x \<in> set simple'. rule_covers L x (to_ascii_lowercase (trim host))) \<or> (\<exists>re \<in> set globs'. rl_is_match L re (trim host)) \<longleftrightarrow>
   (\<exists>x \<in> set simple. rule_covers L x (to_ascii_lowercase (trim host))) \<or> (\<exists>re \<in> set globs. rl_is_match L re (trim host)) \<or>
   (\<exists>raw \<in> set lines. line_covers L raw host)"
proof (induction lines arbitrary: simple globs)
  case (Cons raw ls)
  consider "trim raw = []" | "trim raw \<noteq> []" "needs_glob_regex (trim raw)" | "trim raw \<noteq> []" "\<not> needs_glob_regex (trim raw)" by blast
  then show ?case
  proof cases
    case 1
    then have "\<not> line_covers L raw host" by (simp add: line_covers_def needs_glob_Nil expand_simple_rule_def)
    then show ?thesis using Cons.IH [of simple globs] Cons.prems 1 by simp
  next
    case 2
    then obtain re where re: "glob_pattern_to_regex L (trim raw) = Inr re" "compile_lines L ls simple (globs @ [re]) = Inr (simple', globs')"
      using Cons.prems by (auto split: sum.splits)
    then have "line_covers L raw host \<longleftrightarrow> rl_is_match L re (trim host)" using 2 by (simp add: line_covers_def)
    then show ?thesis using Cons.IH [OF re(2)] by auto
  next
    case 3
    then have "line_covers L raw host \<longleftrightarrow> (\<exists>x \<in> set (expand_simple_rule (trim raw)). rule_covers L x (to_ascii_lowercase (trim host)))"
      by (simp add: line_covers_def)
    moreover have "compile_lines L ls (simple @ expand_simple_rule (trim raw)) globs = Inr (simple', globs')" using Cons.prems 3 by simp
    ultimately show ?thesis using Cons.IH by auto
  qed
qed simp

lemma compile_lines_has_rules:
  "compile_lines L lines simple globs = Inr (simple', globs') \<Longrightarrow>
   (simple' \<noteq> [] \<or> globs' \<noteq> []) \<longleftrightarrow> simple \<noteq> [] \<or> globs \<noteq> [] \<or> (\<exists>raw \<in> set lines. trim raw \<noteq> [])"
proof (induction lines arbitrary: simple globs)
  case (Cons raw ls)
  then show ?case by (fastforce simp: expand_Nil Let_def split: if_splits sum.splits)
qed simp

lemma compiled_exact:
  assumes "compile_from_strings L lines = Inr s"
  shows "HostRuleSet_matches_host L s host \<longleftrightarrow> (\<exists>raw \<in> set lines. line_covers L raw host)"
    and "hr_has_rules s \<longleftrightarrow> (\<exists>raw \<in> set lines. trim raw \<noteq> [])"
proof -
  obtain simple globs b where c: "compile_lines L lines [] [] = Inr (simple, globs)" "BypassMatcher_from_rules L simple = Inr b"
    "s = \<lparr>hr_bypass = b, hr_glob_regex = globs, hr_has_rules = (simple \<noteq> [] \<or> globs \<noteq> [])\<rparr>"
    using assms by (auto simp: compile_from_strings_def split: sum.splits prod.splits)
  show "HostRuleSet_matches_host L s host \<longleftrightarrow> (\<exists>raw \<in> set lines. line_covers L raw host)"
    using compile_lines_covers [OF c(1), of host] from_rules_covers [OF c(2), of host]
    by (simp add: HostRuleSet_matches_host_def c(3) list_ex_iff)
  show "hr_has_rules s \<longleftrightarrow> (\<exists>raw \<in> set lines. trim raw \<noteq> [])"
    using compile_lines_has_rules [OF c(1)] by (simp add: c(3))
qed

section \<open>The decision\<close>

text \<open>The lines behind compiled bundles; without rule files there are none.\<close>

definition compiled_lines ::
    "('n, 'r) rule_lib \<Rightarrow> string list \<Rightarrow> string list \<Rightarrow> string list \<Rightarrow> ('n, 'r) CompiledDefaultRules option \<Rightarrow> bool" where
  "compiled_lines L block pass our rules = (case rules of
      None \<Rightarrow> block = [] \<and> pass = [] \<and> our = []
    | Some r \<Rightarrow> compile_from_strings L block = Inr (cd_block r) \<and> compile_from_strings L pass = Inr (cd_pass r) \<and>
        compile_from_strings L our = Inr (cd_our r))"

lemma compiled_lines_exact:
  assumes "compiled_lines L block pass our rules"
  shows "json_block L rules host \<longleftrightarrow> (\<exists>raw \<in> set block. line_covers L raw host)"
    "json_pass L rules host \<longleftrightarrow> (\<exists>raw \<in> set pass. line_covers L raw host)"
    "outside_our L rules host \<longleftrightarrow> (\<exists>raw \<in> set our. trim raw \<noteq> []) \<and> \<not> (\<exists>raw \<in> set our. line_covers L raw host)"
  using assms compiled_exact [where L = L]
  by (cases rules; simp add: compiled_lines_def json_block_def json_pass_def outside_our_def our_has_rules_def; metis)+

text \<open>
  C20: The decision for a host, with or without rule files, is read off the lines of the rule files and the bypass lists. A
  covered block line blocks, unless bundles are ignored; then a host outside a non-empty list of tunnelled hosts goes direct;
  then an invalid bypass rule is an error; then a covered bypass rule or pass line sends the host direct, and every other host
  is tunnelled. Board lists count unless only bundles do, bundles count unless only the board does. That is all: a further
  step for hosts under \<^verbatim>\<open>.ru\<close>, which comments of the code announce between the lists of tunnelled and of passed hosts, is not there.
\<close>

theorem decision_follows_rules:
  assumes "compiled_lines L block pass our rules"
  shows "let decision = tunnel_decision L host board_bypass global_bypass source rules; src = TrafficRuleSource_parse source;
      bypass = set global_bypass \<union> (if src = SourceBundles then {} else set board_bypass);
      listed = (\<lambda>lines. src \<noteq> SourceBoard \<and> (\<exists>raw \<in> set lines. line_covers L raw host)) in
    if listed block then decision = Inr DecBlock
    else if src \<noteq> SourceBoard \<and> (\<exists>raw \<in> set our. trim raw \<noteq> []) \<and> \<not> listed our then decision = Inr DecDirect
    else if \<exists>raw \<in> bypass. rule_invalid L raw then \<exists>e. decision = Inl e
    else decision = Inr (if listed pass \<or> (\<exists>raw \<in> bypass. rule_covers L raw (to_ascii_lowercase (trim host))) then DecDirect else DecTunnel)"
proof -
  note c = compiled_lines_exact [OF assms, of host]
  have e: "(\<exists>e. BypassMatcher_from_rules L rs = Inl e) \<longleftrightarrow> (\<exists>raw \<in> set rs. rule_invalid L raw)" for rs by (rule from_rules_fails)
  have m: "BypassMatcher_matches_host L g host \<longleftrightarrow> (\<exists>raw \<in> set rs. rule_covers L raw (to_ascii_lowercase (trim host)))"
    if "BypassMatcher_from_rules L rs = Inr g" for rs g by (rule from_rules_covers [OF that])
  show ?thesis
    using e [of global_bypass] e [of board_bypass] m [of global_bypass] m [of board_bypass]
    by (cases "TrafficRuleSource_parse source"; cases "BypassMatcher_from_rules L global_bypass"; cases "BypassMatcher_from_rules L board_bypass")
      (auto simp: tunnel_decision_def tunnel_decision_merged_def tunnel_decision_bundles_def tunnel_decision_board_def c Let_def)
qed

section \<open>Saving and reading a bundle\<close>

text \<open>Reading back the text of an object gives an object with the same fields; the text is not blank.\<close>

definition json_text_ok :: "(string \<Rightarrow> string + Json) \<Rightarrow> (Json \<Rightarrow> string + string) \<Rightarrow> (string \<times> Json) list \<Rightarrow> bool" where
  "json_text_ok from_str to_string_pretty obj \<longleftrightarrow> (\<exists>s obj'. to_string_pretty (JObject obj) = Inr s \<and> trim s \<noteq> [] \<and>
     from_str s = Inr (JObject obj') \<and> map_of obj' = map_of obj)"

lemma flatten_strings: "flatten_json_values (json_strings xs) = xs"
  by (induction xs) (simp_all add: json_strings_def)

lemma bundle_read:
  assumes "map_of obj' = map_of (bundle_object edit k version upd)"
  shows "edit_of_object k obj' = edit\<lparr>rb_categories_our := (if k = RuleOur then rb_categories_our edit else None)\<rparr>"
    "rule_lines k obj' = rb_domains edit @ rb_domain_patterns edit @ rb_ips edit @
      (case rb_categories_our edit of Some c \<Rightarrow> if k = RuleOur then flatten_json_values c else [] | None \<Rightarrow> [])"
  using assms
  by (cases k; cases "rb_categories_our edit";
      simp add: edit_of_object_def rule_lines_def strings_from_key_def bundle_object_def flatten_strings)+

text \<open>C37: a saved bundle is read back as it was, except that the categories of a bundle of another kind are dropped, and
  the lines compiled from it are its domains, patterns and addresses, followed by its categories.\<close>

theorem bundle_roundtrip:
  assumes "parse_kind kind = Inr k" "json_text_ok from_str to_string_pretty (bundle_object edit k version upd)"
  shows "\<exists>s. serialize_rule_bundle_json to_string_pretty edit kind version upd = Inr s \<and>
    parse_rule_bundle_json from_str s kind = Inr (edit\<lparr>rb_categories_our := (if k = RuleOur then rb_categories_our edit else None)\<rparr>) \<and>
    collect_rule_lines from_str s k = Inr (rb_domains edit @ rb_domain_patterns edit @ rb_ips edit @
      (case rb_categories_our edit of Some c \<Rightarrow> if k = RuleOur then flatten_json_values c else [] | None \<Rightarrow> []))"
proof -
  obtain s obj' where s: "to_string_pretty (JObject (bundle_object edit k version upd)) = Inr s" "trim s \<noteq> []"
    "from_str s = Inr (JObject obj')" "map_of obj' = map_of (bundle_object edit k version upd)"
    using assms(2) by (auto simp: json_text_ok_def)
  show ?thesis using assms(1) s(1-3) bundle_read [OF s(4)]
    by (auto simp: serialize_rule_bundle_json_def parse_rule_bundle_json_def collect_rule_lines_def)
qed

section \<open>Two patterns that do not match what they say\<close>

lemma replicate_numeral_Cons: "replicate (numeral k) x = x # replicate (pred_numeral k) x"
  by (simp add: numeral_eq_Suc)

lemma read_groups_numeral:
  "read_groups (numeral k) first s =
    (case (if 0 < pred_numeral k then Option.bind (read_sep first s) read_ipv4_addr else None) of
       Some (v, r) \<Rightarrow> ([v ! 0 * 256 + v ! 1, v ! 2 * 256 + v ! 3], True, r)
     | None \<Rightarrow>
        (case Option.bind (read_sep first s) (read_number 16 4 True 65535) of
           None \<Rightarrow> ([], False, s)
         | Some (g, r) \<Rightarrow> (case read_groups (pred_numeral k) False r of (gs, v4, r') \<Rightarrow> (g # gs, v4, r'))))"
  by (simp add: numeral_eq_Suc)

lemmas ip_eval = classify_host_def ipv4_parse_def read_ipv4_addr_def ipv6_parse_def read_ipv6_addr_def read_number_def radix_digits_def
  digit_radix_def digits_value_def read_sep_def read_given_char_def read_groups_numeral

lemma star_texts: "trim ''*'' = ''*''" "classify_host ''*'' = HostName" "to_ascii_lowercase ''*'' = ''*''" "strip_prefix ''*.'' ''*'' = None"
  by (simp_all add: ip_eval trim_all_solid solid_char_def to_ascii_lowercase_def ascii_lower_def strip_prefix_def starts_with_def)

text \<open>The pattern \<open>*\<close> in a rule file covers no host but the text \<open>*\<close> itself: a block list with it blocks nothing.\<close>

theorem star_covers_nothing:
  assumes "rule_lib_ok L"
  shows "line_covers L ''*'' host \<longleftrightarrow> to_ascii_lowercase (trim host) = ''*''"
proof -
  have "rl_net_parse L ''*'' = None" using assms by (cases "rl_net_parse L ''*''") (auto simp: rule_lib_ok_def)
  moreover have "\<not> needs_glob_regex ''*''" "expand_simple_rule ''*'' = [''*'']"
    by (simp_all add: needs_glob_regex_def starts_with_def expand_simple_rule_def star_texts)
  ultimately show ?thesis by (simp add: line_covers_def rule_covers_def star_texts)
qed

lemma loopback_text: "trim ''::1'' = ''::1''" "to_ascii_lowercase (trim ''0:0:0:0:0:0:0:1'') = ''0:0:0:0:0:0:0:1''"
  by (simp_all add: trim_all_solid solid_char_def to_ascii_lowercase_def ascii_lower_def)

lemma loopback_short: "classify_host ''::1'' = HostV6 [0, 0, 0, 0, 0, 0, 0, 0, 0, 0, 0, 0, 0, 0, 0, 1]"
  by (simp add: ip_eval numeral_2_eq_2 replicate_numeral_Cons)

lemma loopback_long: "classify_host ''0:0:0:0:0:0:0:1'' = HostV6 [0, 0, 0, 0, 0, 0, 0, 0, 0, 0, 0, 0, 0, 0, 0, 1]"
  by (simp add: ip_eval numeral_2_eq_2)

lemma loopback_printed: "ipv6_to_string [0, 0, 0, 0, 0, 0, 0, 0, 0, 0, 0, 0, 0, 0, 0, 1] = ''::1''"
  by (simp add: ipv6_to_string_def fmt_groups_def show_hex.simps Let_def char_of_def bit_0)

lemma loopback_match: "normalize_ipv6_for_match [0, 0, 0, 0, 0, 0, 0, 0, 0, 0, 0, 0, 0, 0, 0, 1] = ''::1''"
  by (simp add: normalize_ipv6_for_match_def loopback_printed to_ascii_lowercase_def ascii_lower_def)

lemmas loopback_texts = loopback_text loopback_short loopback_long loopback_match

text \<open>a rule with an IPv6 address does not cover another spelling of the same address.\<close>

theorem ipv6_spelling_missed:
  assumes "rule_lib_ok L"
  shows "classify_host ''0:0:0:0:0:0:0:1'' = classify_host ''::1'' \<and>
    (\<exists>m. BypassMatcher_from_rules L [''::1''] = Inr m \<and> \<not> BypassMatcher_matches_host L m ''0:0:0:0:0:0:0:1'')"
proof -
  have n: "rl_net_parse L ''::1'' = None" using assms by (cases "rl_net_parse L ''::1''") (auto simp: rule_lib_ok_def)
  then have "\<not> rule_invalid L ''::1''" by (simp add: rule_invalid_def loopback_texts)
  then obtain m where m: "BypassMatcher_from_rules L [''::1''] = Inr m"
    using from_rules_fails [of L "[''::1'']"] by (cases "BypassMatcher_from_rules L [''::1'']") auto
  have "\<not> BypassMatcher_matches_host L m ''0:0:0:0:0:0:0:1''"
    unfolding from_rules_covers [OF m] using n by (simp add: rule_covers_def loopback_texts)
  then show ?thesis using m by (simp add: loopback_texts)
qed

section \<open>Instances\<close>

definition sample_lib :: "(unit, string) rule_lib" where
  "sample_lib = \<lparr>rl_net_parse = (\<lambda>s. if s = ''10.0.0.0/8'' then Some () else None),
     rl_net_contains = (\<lambda>_ ip. case ip of HostV4 b \<Rightarrow> b ! 0 = 10 | _ \<Rightarrow> False), rl_regex_new = Inr, rl_is_match = (=)\<rparr>"

lemma sample_lib_ok: "rule_lib_ok sample_lib"
  by (simp add: rule_lib_ok_def sample_lib_def)

theorem star_covers_nothing_witness: "\<not> line_covers sample_lib ''*'' ''a''"
proof -
  have "to_ascii_lowercase (trim ''a'') = ''a''" by (simp add: trim_all_solid solid_char_def to_ascii_lowercase_def ascii_lower_def)
  then show ?thesis using star_covers_nothing [OF sample_lib_ok, of "''a''"] by simp
qed

theorem ipv6_spelling_missed_witness:
  "\<exists>m. BypassMatcher_from_rules sample_lib [''::1''] = Inr m \<and> \<not> BypassMatcher_matches_host sample_lib m ''0:0:0:0:0:0:0:1''"
  using ipv6_spelling_missed [OF sample_lib_ok] by blast

lemma letter_texts: "trim ''a'' = ''a''" "to_ascii_lowercase ''a'' = ''a''" "classify_host ''a'' = HostName" "strip_prefix ''*.'' ''a'' = None"
  by (simp_all add: ip_eval trim_all_solid solid_char_def to_ascii_lowercase_def ascii_lower_def strip_prefix_def starts_with_def)

lemma sample_compiled: "\<exists>b. compile_from_strings sample_lib [''a''] = Inr b" "compile_from_strings sample_lib [] = Inr HostRuleSet_default"
  by (simp_all add: compile_from_strings_def letter_texts needs_glob_regex_def expand_simple_rule_def starts_with_def sample_lib_def
      BypassMatcher_from_rules_def add_rule_def HostRuleSet_default_def Let_def)

lemma sample_line: "line_covers sample_lib ''a'' ''a''"
  by (simp add: line_covers_def rule_covers_def letter_texts needs_glob_regex_def expand_simple_rule_def starts_with_def sample_lib_def Let_def)

lemma merged_default: "TrafficRuleSource_parse [] = SourceMerged"
  by (simp add: TrafficRuleSource_parse_def to_ascii_lowercase_def)

theorem decision_follows_rules_witness:
  "(\<exists>b. compile_from_strings sample_lib [''a''] = Inr b \<and>
     tunnel_decision sample_lib ''a'' [] [] [] (Some \<lparr>cd_block = b, cd_pass = HostRuleSet_default, cd_our = HostRuleSet_default\<rparr>) = Inr DecBlock) \<and>
   tunnel_decision sample_lib ''a'' [] [] [] None = Inr DecTunnel"
proof -
  obtain b where b: "compile_from_strings sample_lib [''a''] = Inr b" using sample_compiled(1) by blast
  have l: "compiled_lines sample_lib [''a''] [] [] (Some \<lparr>cd_block = b, cd_pass = HostRuleSet_default, cd_our = HostRuleSet_default\<rparr>)"
    "compiled_lines sample_lib [] [] [] None"
    using b sample_compiled(2) by (simp_all add: compiled_lines_def)
  show ?thesis
    using b sample_line decision_follows_rules [OF l(1), of "''a''" "[]" "[]" "[]"] decision_follows_rules [OF l(2), of "''a''" "[]" "[]" "[]"]
    by (simp add: merged_default)
qed

definition sample_edit :: RuleBundleEdit where
  "sample_edit = \<lparr>rb_domains = [''a''], rb_domain_patterns = [], rb_ips = [], rb_categories_our = Some (JArray [JString ''b''])\<rparr>"

lemma sample_kind: "parse_kind ''our'' = Inr RuleOur"
proof -
  have "trim ''our'' = ''our''" by (simp add: trim_all_solid solid_char_def)
  then show ?thesis by (simp add: parse_kind_def)
qed

theorem bundle_roundtrip_witness:
  "\<exists>s. serialize_rule_bundle_json (\<lambda>_. Inr ''a'') sample_edit ''our'' 1 ''b'' = Inr s \<and>
     parse_rule_bundle_json (\<lambda>_. Inr (JObject (bundle_object sample_edit RuleOur 1 ''b''))) s ''our'' = Inr sample_edit"
proof -
  have "json_text_ok (\<lambda>_. Inr (JObject (bundle_object sample_edit RuleOur 1 ''b''))) (\<lambda>_. Inr ''a'') (bundle_object sample_edit RuleOur 1 ''b'')"
    by (simp add: json_text_ok_def letter_texts)
  from bundle_roundtrip [OF sample_kind this] show ?thesis by (auto simp: sample_edit_def)
qed

theorem bypass_list_exact_witness:
  "case BypassMatcher_from_rules sample_lib [''a''] of Inl e \<Rightarrow> False
   | Inr m \<Rightarrow> BypassMatcher_matches_host sample_lib m ''a''"
proof -
  have "\<not> rule_invalid sample_lib ''a''" "rule_covers sample_lib ''a'' ''a''"
    by (simp_all add: rule_invalid_def rule_covers_def letter_texts sample_lib_def)
  then show ?thesis using bypass_list_exact [where L = sample_lib and rules = "[''a'']"] by (auto simp: letter_texts split: sum.splits)
qed

end
