(* ===== verification/Client_Route.thy ===== *)
theory Client_Route
  imports Client_Rules Wire_Relay Wire_Uri Proxy_Open
begin

text \<open>
  The local HTTP proxy of the client (\<^verbatim>\<open>client/src/board.rs\<close>) from the bytes of a \<^verbatim>\<open>CONNECT\<close> request to the messages
  of the tunnel, with the choice of the board (\<^verbatim>\<open>routing.rs\<close>) and the settings and their reloading (\<^verbatim>\<open>settings.rs\<close>).
  What is read from the socket is an argument; the slot of the connection pool and the channel are not modelled. The
  theory shows how the request is split off the stream, that a request line and the target it names correspond, that
  blocked hosts are answered with 403, and, together with the relay of the server, that what an application writes through the proxy is what
  the target receives.
\<close>

section \<open>Reading the request\<close>

definition MAX_HEADER_READ :: nat where "MAX_HEADER_READ = 64 * 1024"

definition MAX_CHUNK :: nat where "MAX_CHUNK = 256 * 1024"

datatype sock_read = ReadErr string | ReadBytes bytes

fun find_headers_end :: "bytes \<Rightarrow> nat option" where
  "find_headers_end [] = None"
| "find_headers_end (b # bs) = (if take 4 (b # bs) = [13, 10, 13, 10] then Some 4 else map_option Suc (find_headers_end bs))"

text \<open>\<open>None\<close>: the reads so far do not complete the headers and the proxy waits.\<close>

fun read_http_headers :: "bytes \<Rightarrow> sock_read list \<Rightarrow> (string + bytes \<times> bytes \<times> sock_read list) option" where
  "read_http_headers buf rs =
    (if MAX_HEADER_READ < length buf then Some (Inl ''HTTP headers too large'')
     else case rs of
         [] \<Rightarrow> None
       | ReadErr e # _ \<Rightarrow> Some (Inl e)
       | ReadBytes d # rs' \<Rightarrow>
          if d = [] then Some (Inl ''connection closed before headers'')
          else (let buf' = buf @ d in
            case find_headers_end buf' of
              Some n \<Rightarrow> Some (Inr (take n buf', drop n buf', rs'))
            | None \<Rightarrow> read_http_headers buf' rs'))"

declare read_http_headers.simps [simp del]

definition parse_connect_target :: "string \<Rightarrow> (string \<times> u16) option" where
  "parse_connect_target target = (let t = trim target in
     if t = [] then None
     else if starts_with t ''['' then
       (case position ((=) (CHR '']'')) t of
          None \<Rightarrow> None
        | Some e \<Rightarrow>
           (let host = take (e - 1) (drop 1 t); rest = dropWhile (\<lambda>c. c = CHR '':'') (drop (e + 1) t) in
            if rest = [] then Some (host, 443) else map_option (Pair host) (parse_u16 rest)))
     else case rsplit_once (CHR '':'') t of
         Some (h, p) \<Rightarrow> if p \<noteq> [] \<and> list_all dec_char p then map_option (Pair h) (parse_u16 p) else Some (t, 443)
       | None \<Rightarrow> Some (t, 443))"

text \<open>\<open>lines().next()\<close> and the next part of \<open>split_whitespace\<close>.\<close>

definition first_line :: "string \<Rightarrow> string option" where
  "first_line s = (if s = [] then None
     else let l = takeWhile (\<lambda>c. c \<noteq> CHR 0x0A) s in
       Some (if length l < length s \<and> l \<noteq> [] \<and> last l = CHR 0x0D then butlast l else l))"

fun word_len :: "string \<Rightarrow> nat" where
  "word_len [] = 0"
| "word_len (c # s) = (if ws_front (c # s) \<noteq> 0 then 0 else Suc (word_len s))"

definition next_word :: "string \<Rightarrow> (string \<times> string) option" where
  "next_word s = (let t = trim_start s in if t = [] then None else Some (take (word_len t) t, drop (word_len t) t))"

definition parse_connect_request :: "bytes \<Rightarrow> string + string \<times> u16" where
  "parse_connect_request header_bytes = (case from_utf8 header_bytes of
      None \<Rightarrow> Inl (utf8_error_text header_bytes)
    | Some text \<Rightarrow>
       (case first_line text of
          None \<Rightarrow> Inl ''empty request''
        | Some line \<Rightarrow>
           (case next_word line of
              None \<Rightarrow> Inl ''bad request line''
            | Some (meth, rest) \<Rightarrow>
               if \<not> eq_ignore_ascii_case meth ''CONNECT''
               then Inl ''only HTTP CONNECT is supported (set HTTPS_PROXY to this listener)''
               else case next_word rest of
                   None \<Rightarrow> Inl ''missing CONNECT target''
                 | Some (target, _) \<Rightarrow>
                    (case parse_connect_target target of None \<Rightarrow> Inl ''invalid CONNECT target'' | Some hp \<Rightarrow> Inr hp))))"

section \<open>Settings\<close>

text \<open>The fields of a board that the proxy reads; those of the TLS and stealth profiles are left out.\<close>

record BoardConfig =
  bo_url :: "string option"
  bo_enabled :: bool
  bo_bypass :: "string list"
  bo_session_token :: "string option"
  bo_max_concurrent_tunnels :: "nat option"
  bo_tunnel_priority :: "int option"
  bo_wire_subscription_uri :: "string option"
  bo_transport_mode :: "string option"
  bo_quic_port :: "u16 option"
  bo_quic_tls_insecure :: bool

text \<open>The derived \<open>Default\<close>, in which every flag is false.\<close>

definition BoardConfig_default :: BoardConfig where
  "BoardConfig_default = \<lparr>bo_url = None, bo_enabled = False, bo_bypass = [], bo_session_token = None,
     bo_max_concurrent_tunnels = None, bo_tunnel_priority = None, bo_wire_subscription_uri = None, bo_transport_mode = None,
     bo_quic_port = None, bo_quic_tls_insecure = False\<rparr>"

record GlobalSettings =
  gs_bypass :: "string list"
  gs_default_rules :: DefaultRulesPaths
  gs_traffic_rule_source :: string

record RoutingRule =
  ro_suffix :: string
  ro_board :: string

record SettingsFile =
  sf_global :: GlobalSettings
  sf_default_board :: string
  sf_boards :: "(string, BoardConfig) hmap"
  sf_routing :: "RoutingRule list"

definition SettingsFile_default :: SettingsFile where
  "SettingsFile_default = \<lparr>sf_global = \<lparr>gs_bypass = [], gs_default_rules = \<lparr>dr_block_json = None, dr_pass_json = None, dr_our_json = None\<rparr>,
     gs_traffic_rule_source = []\<rparr>, sf_default_board = [], sf_boards = [], sf_routing = []\<rparr>"

definition path_given :: "string option \<Rightarrow> bool" where
  "path_given p = (case p of None \<Rightarrow> False | Some s \<Rightarrow> trim s \<noteq> [])"

definition migrate_traffic_rule_settings :: "SettingsFile \<Rightarrow> SettingsFile" where
  "migrate_traffic_rule_settings d = (let g = sf_global d; rules = gs_default_rules g in
     if trim (gs_traffic_rule_source g) \<noteq> [] then d
     else if \<not> (path_given (dr_block_json rules) \<or> path_given (dr_pass_json rules) \<or> path_given (dr_our_json rules)) then d
     else let key = (if trim (sf_default_board d) = [] then ''default'' else sf_default_board d);
              d' = d\<lparr>sf_global := g\<lparr>gs_traffic_rule_source := ''bundles''\<rparr>\<rparr> in
       case hm_get (sf_boards d) key of
         None \<Rightarrow> d'
       | Some board \<Rightarrow>
          if bo_bypass board = [] then d'\<lparr>sf_boards := hm_insert key (board\<lparr>bo_enabled := True\<rparr>) (sf_boards d)\<rparr> else d)"

text \<open>Decoding \<^verbatim>\<open>settings.json\<close> is an argument.\<close>

definition load_settings_from_path :: "(string \<Rightarrow> string + SettingsFile) \<Rightarrow> file_view \<Rightarrow> string \<Rightarrow> string + SettingsFile" where
  "load_settings_from_path decode fv path = (case fv path of
      None \<Rightarrow> Inr SettingsFile_default
    | Some (Inl e) \<Rightarrow> Inl e
    | Some (Inr text) \<Rightarrow> (case decode text of Inl e \<Rightarrow> Inl e | Inr s \<Rightarrow> Inr (migrate_traffic_rule_settings s)))"

record ('n, 'r) SettingsSnapshot =
  sn_path :: string
  sn_data :: SettingsFile
  sn_compiled_default_rules :: "('n, 'r) CompiledDefaultRules option"

definition init_global_settings ::
    "('n, 'r) rule_lib \<Rightarrow> (string \<Rightarrow> string + Json) \<Rightarrow> (string \<Rightarrow> string + SettingsFile) \<Rightarrow> file_view \<Rightarrow> string \<Rightarrow> string \<Rightarrow>
     string + ('n, 'r) SettingsSnapshot" where
  "init_global_settings L from_str decode fv path parent = (case load_settings_from_path decode fv path of
      Inl e \<Rightarrow> Inl e
    | Inr d \<Rightarrow>
       (case compile_default_rules L from_str fv (gs_default_rules (sf_global d)) parent of
          Inl e \<Rightarrow> Inl e
        | Inr rules \<Rightarrow> Inr \<lparr>sn_path = path, sn_data = d, sn_compiled_default_rules = rules\<rparr>))"

text \<open>One turn of the thread that watches the file.\<close>

definition reload_settings ::
    "('n, 'r) rule_lib \<Rightarrow> (string \<Rightarrow> string + Json) \<Rightarrow> (string \<Rightarrow> string + SettingsFile) \<Rightarrow> file_view \<Rightarrow> string \<Rightarrow> string \<Rightarrow>
     ('n, 'r) SettingsSnapshot \<Rightarrow> ('n, 'r) SettingsSnapshot" where
  "reload_settings L from_str decode fv path parent snap = (case load_settings_from_path decode fv path of
      Inl e \<Rightarrow> snap
    | Inr d \<Rightarrow>
       snap\<lparr>sn_data := d, sn_compiled_default_rules :=
         (case compile_default_rules L from_str fv (gs_default_rules (sf_global d)) parent of Inl e \<Rightarrow> None | Inr rules \<Rightarrow> rules)\<rparr>)"

section \<open>The plan for a connection\<close>

fun resolve_board_for_host :: "string \<Rightarrow> RoutingRule list \<Rightarrow> string \<Rightarrow> string" where
  "resolve_board_for_host host [] default_board = default_board"
| "resolve_board_for_host host (r # rules) default_board =
    (let h = to_ascii_lowercase (trim host); suf = to_ascii_lowercase (trim (ro_suffix r)) in
     if suf \<noteq> [] \<and> (h = suf \<or> ends_with h (CHR ''.'' # suf)) then ro_board r
     else resolve_board_for_host host rules default_board)"

definition board_config :: "SettingsFile \<Rightarrow> string \<Rightarrow> BoardConfig \<times> string" where
  "board_config d board_id =
    (let def = trim (sf_default_board d);
         i = (if board_id = [] then (if def = [] then ''default'' else def) else board_id) in
     (case hm_get (sf_boards d) i of None \<Rightarrow> BoardConfig_default | Some c \<Rightarrow> c, i))"

definition normalize_endpoint :: "string \<Rightarrow> string" where
  "normalize_endpoint s = List.rev (dropWhile (\<lambda>c. c = CHR ''/'') (List.rev (trim s)))"

definition resolve_grpc_url :: "BoardConfig \<Rightarrow> string \<Rightarrow> string \<Rightarrow> string" where
  "resolve_grpc_url board cli_endpoint connection_url =
    (case bo_url board of
       Some u \<Rightarrow> if trim u \<noteq> [] then normalize_endpoint (trim u)
         else if trim cli_endpoint \<noteq> [] then normalize_endpoint (trim cli_endpoint) else normalize_endpoint connection_url
     | None \<Rightarrow> if trim cli_endpoint \<noteq> [] then normalize_endpoint (trim cli_endpoint) else normalize_endpoint connection_url)"

definition nonblank :: "string option \<Rightarrow> string option" where
  "nonblank x = (case x of None \<Rightarrow> None | Some s \<Rightarrow> if trim s = [] then None else Some (trim s))"

definition session_token_for_board :: "BoardConfig \<Rightarrow> string option \<Rightarrow> string option" where
  "session_token_for_board board override_tok = (case nonblank override_tok of Some t \<Rightarrow> Some t | None \<Rightarrow> nonblank (bo_session_token board))"

definition client_wants_quic :: "BoardConfig \<Rightarrow> bool" where
  "client_wants_quic cfg = (case bo_transport_mode cfg of None \<Rightarrow> True | Some s \<Rightarrow> to_ascii_lowercase (trim s) \<noteq> ''tcp'')"

definition grpc_host_from_endpoint :: "string \<Rightarrow> string" where
  "grpc_host_from_endpoint ep =
    (let u = trim ep;
         rest = (case strip_prefix ''https://'' u of Some r \<Rightarrow> r
           | None \<Rightarrow> (case strip_prefix ''http://'' u of Some r \<Rightarrow> r | None \<Rightarrow> u));
         host = takeWhile (\<lambda>c. c \<noteq> CHR '':'' \<and> c \<noteq> CHR ''/'') rest in
     if host = [] then ''127.0.0.1'' else host)"

text \<open>The third-party functions behind the plan: rules, wire cryptography, links and the JSON of wire settings.\<close>

record ('n, 'r, 'k, 'c) board_env =
  be_rules :: "('n, 'r) rule_lib"
  be_wire :: "('k, 'c) wire_env"
  be_b64_decode :: "string \<Rightarrow> string + bytes"
  be_json_from_slice :: "bytes \<Rightarrow> string + Json"
  be_params_json :: "WireParams \<Rightarrow> string + string"
  be_wire_error :: "WireError \<Rightarrow> string"
  be_max_tunnels_default :: "string option"

definition wire_subscription :: "('n, 'r, 'k, 'c) board_env \<Rightarrow> BoardConfig \<Rightarrow> ParsedSubscription option" where
  "wire_subscription E cfg = (case bo_wire_subscription_uri cfg of
      None \<Rightarrow> None
    | Some u \<Rightarrow>
       if trim u = [] then None
       else (case parse_subscription_uri (be_b64_decode E) (be_json_from_slice E) (trim u) of Inl _ \<Rightarrow> None | Inr p \<Rightarrow> Some p))"

definition max_tunnels :: "('n, 'r, 'k, 'c) board_env \<Rightarrow> BoardConfig \<Rightarrow> nat" where
  "max_tunnels E cfg = (case bo_max_concurrent_tunnels cfg of
      Some n \<Rightarrow> n
    | None \<Rightarrow> (case Option.bind (be_max_tunnels_default E) (parse_unsigned (2 ^ 64 - 1)) of Some n \<Rightarrow> n | None \<Rightarrow> 10))"

text \<open>A tunnel: where it goes, its first message, and the first data of a wire mode.\<close>

record tunnel_plan =
  tp_endpoint :: string
  tp_max_tunnels :: nat
  tp_wire :: "ParsedSubscription option"
  tp_open :: ProxyOpen
  tp_first :: "bytes option"

text \<open>The answer to a blocked request, with the line ends of HTTP.\<close>

definition FORBIDDEN_RESPONSE :: bytes where
  "FORBIDDEN_RESPONSE = as_bytes (''HTTP/1.1 403 Forbidden'' @ [CHR 0x0D, CHR 0x0A] @ ''Connection: close'' @ [CHR 0x0D, CHR 0x0A] @
     ''Content-Length: 0'' @ [CHR 0x0D, CHR 0x0A] @ [CHR 0x0D, CHR 0x0A])"

datatype conn_plan = PlanForbidden bytes | PlanDirect string u16 | PlanTunnel string u16 tunnel_plan

definition tunnel_open ::
    "('n, 'r, 'k, 'c) board_env \<Rightarrow> draws \<Rightarrow> BoardConfig \<Rightarrow> string \<Rightarrow> string option \<Rightarrow> string \<Rightarrow> u16 \<Rightarrow> bytes \<Rightarrow> string + tunnel_plan" where
  "tunnel_open E D cfg ep session_tok host port tail =
    (let mk = (\<lambda>h p wm wj. \<lparr>po_host = h, po_port = p, po_session_token = (case session_tok of None \<Rightarrow> [] | Some t \<Rightarrow> t),
            po_stream_correlation_id = [], po_wire_mode = wm, po_wire_config_json = wj,
            po_tunnel_priority = bo_tunnel_priority cfg, po_prefer_quic_data_plane = Some (client_wants_quic cfg)\<rparr>) in
     case wire_subscription E cfg of
       None \<Rightarrow> Inr \<lparr>tp_endpoint = ep, tp_max_tunnels = max_tunnels E cfg, tp_wire = None,
                 tp_open = mk host (ucast port) None None, tp_first = None\<rparr>
     | Some p \<Rightarrow>
        (case be_params_json E (ps_params p) of
           Inl e \<Rightarrow> Inl (''wire config: '' @ e)
         | Inr wj \<Rightarrow>
            (case wire_tunnel_first_chunk (be_wire E) D (ps_mode p) (ps_params p) host port tail of
               Inl e \<Rightarrow> Inl (''wire handshake: '' @ be_wire_error E e)
             | Inr chunk \<Rightarrow> Inr \<lparr>tp_endpoint = ep, tp_max_tunnels = max_tunnels E cfg, tp_wire = Some p,
                 tp_open = mk ''pirate.wire.local'' 1 (Some (wire_mode_to_proto (ps_mode p))) (Some wj), tp_first = Some chunk\<rparr>)))"

text \<open>The settings are read twice; a reload may come in between.\<close>

definition plan_connection ::
    "('n, 'r, 'k, 'c) board_env \<Rightarrow> draws \<Rightarrow> ('n, 'r) SettingsSnapshot \<Rightarrow> ('n, 'r) SettingsSnapshot \<Rightarrow> string \<Rightarrow> string \<Rightarrow> string \<Rightarrow>
     string option \<Rightarrow> bytes \<Rightarrow> bytes \<Rightarrow> string + conn_plan" where
  "plan_connection E D snap snap2 board_id grpc_endpoint connection_url session_token_cli headers tail =
    (case parse_connect_request headers of
       Inl e \<Rightarrow> Inl e
     | Inr (host, port) \<Rightarrow>
        (let d = sn_data snap;
             use_board = (if board_id \<noteq> [] then board_id else resolve_board_for_host host (sf_routing d) (sf_default_board d));
             cfg = fst (board_config d use_board) in
         if \<not> bo_enabled cfg then Inl (''board '' @ use_board @ '' is disabled in settings'')
         else
           let ep = resolve_grpc_url cfg grpc_endpoint connection_url;
               session_tok = session_token_for_board cfg session_token_cli;
               g = sf_global (sn_data snap2) in
           case tunnel_decision (be_rules E) host (bo_bypass cfg) (gs_bypass g) (gs_traffic_rule_source g) (sn_compiled_default_rules snap2) of
             Inl e \<Rightarrow> Inl e
           | Inr DecBlock \<Rightarrow> Inr (PlanForbidden FORBIDDEN_RESPONSE)
           | Inr DecDirect \<Rightarrow> Inr (PlanDirect host port)
           | Inr DecTunnel \<Rightarrow>
              (case tunnel_open E D cfg ep session_tok host port tail of Inl e \<Rightarrow> Inl e | Inr p \<Rightarrow> Inr (PlanTunnel host port p))))"

section \<open>The data of a tunnel\<close>

record ProxyOpenResult =
  or_ok :: bool
  or_error :: string
  or_quic_data_plane :: bool
  or_data_plane_ticket :: string
  or_quic_host :: string
  or_quic_port :: u32

datatype client_msg = ClientData bytes | ClientFin

datatype data_path = ViaQuic string u16 string bytes | ViaStream "bytes list"

text \<open>What follows a successful open: the hand-over to QUIC, or the data that came with the request.\<close>

definition after_open :: "BoardConfig \<Rightarrow> tunnel_plan \<Rightarrow> bytes \<Rightarrow> ProxyOpenResult \<Rightarrow> string + data_path" where
  "after_open cfg p tail r =
    (if \<not> or_ok r then Inl (''upstream connect failed: '' @ or_error r)
     else if tp_wire p = None \<and> or_quic_data_plane r \<and> client_wants_quic cfg \<and> or_data_plane_ticket r \<noteq> []
     then Inr (ViaQuic (if trim (or_quic_host r) = [] then grpc_host_from_endpoint (tp_endpoint p) else or_quic_host r)
       (if 0 < or_quic_port r then ucast (or_quic_port r) else (case bo_quic_port cfg of None \<Rightarrow> 7844 | Some q \<Rightarrow> q))
       (or_data_plane_ticket r) tail)
     else Inr (ViaStream (if tp_wire p = None \<and> tail \<noteq> [] then [tail] else [])))"

text \<open>The task that sends what the application writes; a timeout counts as a failed read.\<close>

fun to_server :: "sock_read list \<Rightarrow> client_msg list" where
  "to_server [] = []"
| "to_server (ReadErr e # rs) = []"
| "to_server (ReadBytes d # rs) = (if d = [] then [ClientFin] else if MAX_CHUNK < length d then [] else ClientData d # to_server rs)"

text \<open>All messages after the first one, when the data stays on the stream.\<close>

definition stream_messages :: "tunnel_plan \<Rightarrow> bytes list \<Rightarrow> sock_read list \<Rightarrow> client_msg list" where
  "stream_messages p early rs = map ClientData (case tp_first p of None \<Rightarrow> [] | Some c \<Rightarrow> [c]) @ map ClientData early @ to_server rs"

section \<open>The request is split off exactly\<close>

lemma empty_line_length: "take 4 s = [13, 10, 13, 10 :: u8] \<Longrightarrow> 4 \<le> length s"
proof -
  assume "take 4 s = [13, 10, 13, 10]"
  then have "length (take 4 s) = 4" by simp
  then show ?thesis by simp
qed

lemma find_headers_end_bound: "find_headers_end b = Some n \<Longrightarrow> 4 \<le> n \<and> n \<le> length b \<and> take 4 (drop (n - 4) b) = [13, 10, 13, 10]"
proof (induction b arbitrary: n)
  case (Cons c b)
  show ?case
  proof (cases "take 4 (c # b) = [13, 10, 13, 10]")
    case True
    then show ?thesis using Cons.prems empty_line_length [OF True] by simp
  next
    case False
    then obtain k where k: "find_headers_end b = Some k" "n = Suc k" using Cons.prems by auto
    then obtain m where "k = m + 4" using Cons.IH [of k] by (metis le_add_diff_inverse2)
    then show ?thesis using Cons.IH [OF k(1)] k(2) by simp
  qed
qed simp

lemma find_headers_end_prefix: "find_headers_end (a @ b) = Some n \<Longrightarrow> n \<le> length a \<Longrightarrow> find_headers_end a = Some n"
proof (induction a arbitrary: n)
  case Nil
  then show ?case using find_headers_end_bound [of b n] by simp
next
  case (Cons c a)
  show ?case
  proof (cases "take 4 (c # a @ b) = [13, 10, 13, 10]")
    case True
    then have n: "n = 4" using Cons.prems(1) by simp
    then have "take 4 ((c # a) @ b) = take 4 (c # a)" using Cons.prems(2) unfolding take_append by simp
    then have "take 4 (c # a) = [13, 10, 13, 10]" using True unfolding append_Cons by (rule trans [OF sym])
    then show ?thesis unfolding find_headers_end.simps n by (simp only: if_True refl)
  next
    case False
    then obtain k where k: "find_headers_end (a @ b) = Some k" "n = Suc k" using Cons.prems(1) by auto
    have "take 4 (c # a) \<noteq> [13, 10, 13, 10]"
    proof
      assume t: "take 4 (c # a) = [13, 10, 13, 10]"
      have "take 4 ((c # a) @ b) = take 4 (c # a)" using empty_line_length [OF t] unfolding take_append by simp
      with t False show False by simp
    qed
    then show ?thesis using Cons.IH [OF k(1)] Cons.prems(2) k(2) by auto
  qed
qed

lemma read_headers_split:
  assumes "read_http_headers buf rs = Some (Inr (h, t, rest))" "find_headers_end buf = None"
  shows "\<exists>ds d. rs = map ReadBytes (ds @ [d]) @ rest \<and> h @ t = buf @ concat (ds @ [d]) \<and>
    find_headers_end (h @ t) = Some (length h) \<and> length t < length d"
  using assms
proof (induction buf rs rule: read_http_headers.induct)
  case (1 buf rs)
  from 1(2) have small: "\<not> MAX_HEADER_READ < length buf" by (subst (asm) read_http_headers.simps) (auto split: if_splits)
  from 1(2) small obtain d rs' where rs: "rs = ReadBytes d # rs'" "d \<noteq> []"
    by (subst (asm) read_http_headers.simps) (auto split: list.splits sock_read.splits if_splits)
  show ?case
  proof (cases "find_headers_end (buf @ d)")
    case None
    then have r: "read_http_headers (buf @ d) rs' = Some (Inr (h, t, rest))"
      using 1(2) small rs by (subst (asm) read_http_headers.simps) (simp add: Let_def)
    obtain ds e where "rs' = map ReadBytes (ds @ [e]) @ rest" "h @ t = (buf @ d) @ concat (ds @ [e])"
      "find_headers_end (h @ t) = Some (length h)" "length t < length e"
      using 1(1) [OF small _ _ _ _ None r None] rs by auto
    then show ?thesis using rs(1) by (intro exI [of _ "d # ds"] exI [of _ e]) simp
  next
    case (Some n)
    then have e: "h = take n (buf @ d)" "t = drop n (buf @ d)" "rest = rs'"
      using 1(2) small rs by (subst (asm) read_http_headers.simps, simp add: Let_def)+
    have "length buf < n" using find_headers_end_prefix [OF Some] 1(3) by force
    then show ?thesis using e Some rs find_headers_end_bound [OF Some]
      by (intro exI [of _ "[]"] exI [of _ d]) (simp del: take_append drop_append, auto)
  qed
qed

text \<open>when the headers have been read, they end with the first empty line of what was received, the bytes after them are
  kept, nothing is lost, and those bytes are part of the last read.\<close>

theorem request_split_exact:
  assumes "read_http_headers [] rs = Some (Inr (h, t, rest))"
  shows "\<exists>ds d. rs = map ReadBytes (ds @ [d]) @ rest \<and> h @ t = concat (ds @ [d]) \<and>
    find_headers_end (concat (ds @ [d])) = Some (length h) \<and> take_end 4 h = [13, 10, 13, 10] \<and> length t < length d"
proof -
  obtain ds d where s: "rs = map ReadBytes (ds @ [d]) @ rest" "h @ t = concat (ds @ [d])" "find_headers_end (h @ t) = Some (length h)" "length t < length d"
    using read_headers_split [OF assms] by auto
  have "take_end 4 h = [13, 10, 13, 10]" using find_headers_end_bound [OF s(3)] by (auto simp: take_end_def)
  then show ?thesis using s by metis
qed

theorem request_split_exact_witness:
  "\<exists>ds d. [ReadBytes [1, 13, 10], ReadBytes [13, 10, 2]] = map ReadBytes (ds @ [d]) \<and> [1, 13, 10, 13, 10] @ [2] = concat (ds @ [d])"
proof -
  have "read_http_headers [] [ReadBytes [1, 13, 10], ReadBytes [13, 10, 2]] = Some (Inr ([1, 13, 10, 13, 10], [2], []))"
    by (simp add: read_http_headers.simps MAX_HEADER_READ_def Let_def)
  from request_split_exact [OF this] show ?thesis unfolding append_Nil2 by (elim exE conjE) (intro exI conjI)
qed

section \<open>A request line names its target\<close>

lemma word_len_solid: "list_all solid_char w \<Longrightarrow> word_len (w @ CHR '' '' # s) = length w"
proof (induction w)
  case Nil
  show ?case by (simp add: ws_front_def)
qed (simp add: ws_front_solid)

lemma next_word_solid:
  assumes "list_all solid_char w" "w \<noteq> []"
  shows "next_word (w @ CHR '' '' # s) = Some (w, CHR '' '' # s)" "next_word (CHR '' '' # w @ CHR '' '' # s) = Some (w, CHR '' '' # s)"
proof -
  obtain c r where w: "w = c # r" using assms(2) by (cases w) auto
  have t: "trim_start (w @ CHR '' '' # s) = w @ CHR '' '' # s" using assms(1) by (simp add: w trim_start_id ws_front_solid)
  moreover have "trim_start (CHR '' '' # w @ CHR '' '' # s) = trim_start (w @ CHR '' '' # s)"
    by (subst trim_start.simps) (simp add: ws_front_def)
  ultimately show "next_word (w @ CHR '' '' # s) = Some (w, CHR '' '' # s)" "next_word (CHR '' '' # w @ CHR '' '' # s) = Some (w, CHR '' '' # s)"
    using word_len_solid [OF assms(1)] assms(2) by (simp_all add: next_word_def)
qed

lemma show_nat_solid: "list_all solid_char (show_nat n)"
  using show_nat_digits dec_char_solid by (auto simp: list_all_iff)

lemma rsplit_target: "rsplit_once (CHR '':'') (h @ CHR '':'' # show_nat n) = Some (h, show_nat n)"
proof (rule rsplit_once_append)
  show "CHR '':'' \<notin> set (show_nat n)" using show_nat_digits [of "CHR '':''" n] by (auto simp: dec_char_def digit_val_def)
qed

lemma connect_target_port:
  assumes "list_all solid_char h" "h \<noteq> []" "hd h \<noteq> CHR ''[''"
  shows "parse_connect_target (h @ CHR '':'' # show_nat (unat port)) = Some (h, port)"
proof -
  have "trim (h @ CHR '':'' # show_nat (unat port)) = h @ CHR '':'' # show_nat (unat port)"
    by (rule trim_all_solid) (simp add: assms(1) show_nat_solid solid_char_def)
  moreover have "list_all dec_char (show_nat (unat port))" using show_nat_digits by (auto simp: list_all_iff)
  moreover have "\<not> starts_with (h @ CHR '':'' # show_nat (unat port)) ''[''" using assms(2,3) by (cases h) (auto simp: starts_with_def)
  ultimately show ?thesis using assms(2) by (simp add: parse_connect_target_def rsplit_target show_nat_nonempty)
qed

lemma connect_target_bracket:
  assumes "list_all solid_char h" "CHR '']'' \<notin> set h"
  shows "parse_connect_target (CHR ''['' # h @ CHR '']'' # CHR '':'' # show_nat (unat port)) = Some (h, port)"
proof -
  let ?t = "CHR ''['' # h @ CHR '']'' # CHR '':'' # show_nat (unat port)"
  have "trim ?t = ?t" by (rule trim_all_solid) (simp add: assms(1) show_nat_solid solid_char_def)
  moreover have "position ((=) (CHR '']'')) ?t = Some (Suc (length h))"
  proof -
    have "position ((=) (CHR '']'')) h = None" using assms(2) by (auto simp: position_None_iff)
    then show ?thesis by (simp add: position_append_None)
  qed
  moreover have "dropWhile (\<lambda>c. c = CHR '':'') (show_nat (unat port)) = show_nat (unat port)"
    using show_nat_digits [of "hd (show_nat (unat port))" "unat port"] show_nat_nonempty [of "unat port"]
    by (cases "show_nat (unat port)") (auto simp: dec_char_def digit_val_def)
  ultimately show ?thesis by (simp add: parse_connect_target_def starts_with_def show_nat_nonempty)
qed

text \<open>The first line of a request as clients send it.\<close>

definition connect_line :: "string \<Rightarrow> string \<Rightarrow> string" where
  "connect_line target hs = ''CONNECT '' @ target @ '' HTTP/1.1'' @ [CHR 0x0D, CHR 0x0A] @ hs"

lemma connect_line_parsed:
  assumes "wf_str (connect_line target hs)" "list_all solid_char target" "target \<noteq> []"
  shows "parse_connect_request (as_bytes (connect_line target hs)) =
    (case parse_connect_target target of None \<Rightarrow> Inl ''invalid CONNECT target'' | Some hp \<Rightarrow> Inr hp)"
proof -
  have n: "CHR 0x0A \<notin> set target" using assms(2) by (auto simp: list_all_iff solid_char_def)
  have "takeWhile (\<lambda>c. c \<noteq> CHR 0x0A) (connect_line target hs) = ''CONNECT '' @ target @ '' HTTP/1.1'' @ [CHR 0x0D]"
    using n by (auto simp: connect_line_def takeWhile_append)
  then have l: "first_line (connect_line target hs) = Some (''CONNECT '' @ target @ '' HTTP/1.1'')"
    by (simp add: first_line_def connect_line_def butlast_append)
  have w: "next_word (''CONNECT'' @ CHR '' '' # target @ CHR '' '' # ''HTTP/1.1'') = Some (''CONNECT'', CHR '' '' # target @ CHR '' '' # ''HTTP/1.1'')"
    by (rule next_word_solid(1)) (simp_all add: solid_char_def)
  have "from_utf8 (as_bytes (connect_line target hs)) = Some (connect_line target hs)" using assms(1) by (simp add: from_utf8_def wf_str_def)
  then show ?thesis using l w next_word_solid(2) [OF assms(2,3), of "''HTTP/1.1''"]
    by (simp add: parse_connect_request_def eq_ignore_ascii_case_def)
qed

text \<open>the proxy reads from a request for a name or an IPv4 address with a port, or for an IPv6 address in brackets with a
  port, exactly that host and port.\<close>

theorem connect_request_roundtrip:
  assumes "list_all solid_char h" "h \<noteq> []"
    and "target = (if CHR '':'' \<in> set h then CHR ''['' # h @ '']:'' @ show_nat (unat port) else h @ CHR '':'' # show_nat (unat port))"
    and "CHR '']'' \<notin> set h" "hd h \<noteq> CHR ''[''" "wf_str (connect_line target hs)"
  shows "parse_connect_request (as_bytes (connect_line target hs)) = Inr (h, port)"
proof -
  have "list_all solid_char target" "target \<noteq> []" using assms(1-3) by (auto simp: show_nat_solid solid_char_def split: if_splits)
  from connect_line_parsed [OF assms(6) this] show ?thesis
    using connect_target_port [OF assms(1,2,5)] connect_target_bracket [OF assms(1,4)] assms(3) by auto
qed

theorem connect_request_roundtrip_witness:
  "parse_connect_request (as_bytes (connect_line ''a:80'' [])) = Inr (''a'', 80)"
proof -
  have "show_nat (unat (80 :: u16)) = ''80''" by code_simp
  moreover have "wf_str (connect_line ''a:80'' [])" by code_simp
  ultimately show ?thesis using connect_request_roundtrip [of "''a''" "''a:80''" 80 "[]"] by (simp add: solid_char_def)
qed

section \<open>From the application to the target\<close>

lemma plan_tunnel:
  assumes "plan_connection E D snap snap2 bid ge cu tok headers tail = Inr (PlanTunnel host port p)"
  obtains cfg ep st where "parse_connect_request headers = Inr (host, port)" "bo_enabled cfg" "tunnel_open E D cfg ep st host port tail = Inr p"
  using assms
  by (auto simp: plan_connection_def Let_def split: sum.splits prod.splits if_splits TunnelDecision.splits)

lemma tunnel_open_wire:
  assumes "tunnel_open E D cfg ep st host port tail = Inr p" "tp_wire p = Some w"
  obtains f where "tp_first p = Some f" "wire_tunnel_first_chunk (be_wire E) D (ps_mode w) (ps_params w) host port tail = Inr f"
    "po_wire_mode (tp_open p) = Some (wire_mode_to_proto (ps_mode w))"
  using assms by (auto simp: tunnel_open_def Let_def split: option.splits sum.splits)

lemma tunnel_open_raw:
  assumes "tunnel_open E D cfg ep st host port tail = Inr p" "tp_wire p = None"
  shows "tp_first p = None" "po_wire_mode (tp_open p) = None" "po_host (tp_open p) = host" "po_port (tp_open p) = ucast port"
  using assms by (auto simp: tunnel_open_def Let_def split: option.splits sum.splits)

lemma to_server_data: "\<forall>u \<in> set us. u \<noteq> [] \<and> length u \<le> MAX_CHUNK \<Longrightarrow> to_server (map ReadBytes us) = map ClientData us"
  by (induction us) auto

text \<open>C3: end to end through the local proxy. For a connection that is tunnelled in a wire mode, once the server has opened it,
  the messages of the proxy make the relay of the server connect to the host and port of the application's request and
  forward to it exactly the bytes that followed the request and then those the application writes.\<close>

theorem application_data_reaches_target:
  assumes plan: "plan_connection E D snap snap2 bid ge cu tok headers tail = Inr (PlanTunnel host port p)" and w: "tp_wire p = Some w"
    and "or_ok r" "wire_env_ok (be_wire E)" "wf_str host" "length host \<le> 255"
    and "mode_ready (ps_mode w) (ps_params w) D cache i t" "target_open R host port"
    and "length (the (tp_first p)) \<le> MAX_PROXY_CHUNK" "\<forall>u \<in> set us. u \<noteq> [] \<and> length u \<le> MAX_CHUNK"
  shows "parse_connect_request headers = Inr (host, port) \<and>
    (\<exists>early ds. after_open cfg p tail r = Inr (ViaStream early) \<and> stream_messages p early (map ReadBytes us) = map ClientData ds \<and>
      fst (wire_view (run_wire_relay (be_wire E) R (the (po_wire_mode (tp_open p))) (ps_params w) cache i t (map ItemData ds))) =
        Inr (upstream_addr (canonical_host host) port, tail @ concat us))"
proof -
  obtain c ep st where h: "parse_connect_request headers = Inr (host, port)" and o: "tunnel_open E D c ep st host port tail = Inr p"
    using plan_tunnel [OF plan] by blast
  obtain f where f: "tp_first p = Some f" "wire_tunnel_first_chunk (be_wire E) D (ps_mode w) (ps_params w) host port tail = Inr f"
    "po_wire_mode (tp_open p) = Some (wire_mode_to_proto (ps_mode w))"
    using tunnel_open_wire [OF o w] by blast
  have "chunks_ok (f # us)" using assms(9,10) f(1) by (simp add: chunks_ok_def MAX_CHUNK_def MAX_PROXY_CHUNK_def)
  moreover have "concat (f # us) = f @ concat us" by simp
  ultimately have "fst (wire_view (run_wire_relay (be_wire E) R (wire_mode_to_proto (ps_mode w)) (ps_params w) cache i t (map ItemData (f # us)))) =
      Inr (upstream_addr (canonical_host host) port, tail @ concat us)"
    using relay_delivers [OF assms(4-7) f(2) _ _ assms(8)] by blast
  moreover have "after_open cfg p tail r = Inr (ViaStream [])" using assms(3) w by (simp add: after_open_def)
  moreover have "stream_messages p [] (map ReadBytes us) = map ClientData (f # us)"
    using f(1) to_server_data [OF assms(10)] by (simp add: stream_messages_def)
  ultimately show ?thesis using h f(3) by (intro conjI exI [of _ "[]"] exI [of _ "f # us"]) simp_all
qed

text \<open>on a raw tunnel that stays on the stream, the data messages together are the bytes that followed the request and then
  those the application writes, none is empty and none exceeds the limit of the server.\<close>

theorem raw_upload_exact:
  assumes plan: "plan_connection E D snap snap2 bid ge cu tok headers tail = Inr (PlanTunnel host port p)" and "tp_wire p = None"
    and "after_open cfg p tail r = Inr (ViaStream early)" "length tail \<le> MAX_CHUNK" "\<forall>u \<in> set us. u \<noteq> [] \<and> length u \<le> MAX_CHUNK"
  shows "po_host (tp_open p) = host \<and> po_port (tp_open p) = ucast port \<and> po_wire_mode (tp_open p) = None \<and>
    (\<exists>ds. stream_messages p early (map ReadBytes us) = map ClientData ds \<and> concat ds = tail @ concat us \<and>
      (\<forall>d \<in> set ds. d \<noteq> [] \<and> length d \<le> MAX_PROXY_CHUNK))"
proof -
  obtain c ep st where o: "tunnel_open E D c ep st host port tail = Inr p" using plan_tunnel [OF plan] by blast
  have e: "early = (if tail \<noteq> [] then [tail] else [])" using assms(2,3) by (auto simp: after_open_def split: if_splits)
  have "stream_messages p early (map ReadBytes us) = map ClientData (early @ us)"
    using tunnel_open_raw(1) [OF o assms(2)] to_server_data [OF assms(5)] by (simp add: stream_messages_def)
  moreover have "\<forall>d \<in> set (early @ us). d \<noteq> [] \<and> length d \<le> MAX_PROXY_CHUNK"
    using assms(4,5) by (auto simp: e MAX_CHUNK_def MAX_PROXY_CHUNK_def split: if_splits)
  moreover have "concat (early @ us) = tail @ concat us" by (simp add: e)
  ultimately show ?thesis using tunnel_open_raw [OF o assms(2)] by blast
qed

section \<open>Who is refused\<close>

text \<open>C21: a host that a block rule of the loaded bundles covers is answered with 403, whatever the other rules say, unless the
  bundles are switched off.\<close>

theorem blocked_host_forbidden:
  assumes "parse_connect_request headers = Inr (host, port)" "sn_compiled_default_rules snap2 = Some rules"
    and "compile_from_strings (be_rules E) lines = Inr (cd_block rules)" "line \<in> set lines" "line_covers (be_rules E) line host"
    and "TrafficRuleSource_parse (gs_traffic_rule_source (sf_global (sn_data snap2))) \<noteq> SourceBoard"
    and "plan_connection E D snap snap2 bid ge cu tok headers tail = Inr plan"
  shows "plan = PlanForbidden FORBIDDEN_RESPONSE"
proof -
  have b: "json_block (be_rules E) (Some rules) host" using compiled_exact(1) [OF assms(3)] assms(4,5) by (auto simp: json_block_def)
  let ?g = "sf_global (sn_data snap2)"
  have "tunnel_decision (be_rules E) host bb (gs_bypass ?g) (gs_traffic_rule_source ?g) (Some rules) = Inr DecBlock" for bb
    using b assms(6)
    by (cases "TrafficRuleSource_parse (gs_traffic_rule_source ?g)")
      (simp_all add: tunnel_decision_def tunnel_decision_merged_def tunnel_decision_bundles_def)
  then show ?thesis using assms(1,2,7) by (auto simp: plan_connection_def Let_def split: if_splits)
qed

text \<open>a wire link that cannot be parsed is ignored: the tunnel is opened without its wire mode.\<close>

theorem bad_wire_link_opens_raw:
  assumes "bo_wire_subscription_uri cfg = Some u" "parse_subscription_uri (be_b64_decode E) (be_json_from_slice E) (trim u) = Inl e"
  shows "\<exists>p. tunnel_open E D cfg ep st host port tail = Inr p \<and> po_wire_mode (tp_open p) = None \<and> tp_first p = None \<and> po_host (tp_open p) = host"
  using assms by (simp add: tunnel_open_def wire_subscription_def Let_def)

section \<open>Instances\<close>

definition sample_snapshot :: "string option \<Rightarrow> (unit, string) SettingsSnapshot" where
  "sample_snapshot link = \<lparr>sn_path = [], sn_data = SettingsFile_default\<lparr>sf_boards := [(''default'',
     BoardConfig_default\<lparr>bo_enabled := True, bo_wire_subscription_uri := link\<rparr>)]\<rparr>, sn_compiled_default_rules = None\<rparr>"

definition sample_env :: "(unit, string, unit, unit) board_env" where
  "sample_env = \<lparr>be_rules = sample_lib, be_wire = wire_example, be_b64_decode = (\<lambda>_. Inl ''b''), be_json_from_slice = (\<lambda>_. Inl ''j''),
     be_params_json = (\<lambda>_. Inr ''{}''), be_wire_error = (\<lambda>_. ''e''), be_max_tunnels_default = None\<rparr>"

definition sample_headers :: bytes where "sample_headers = as_bytes (connect_line ''10.0.0.7:80'' [])"

lemma sample_request: "parse_connect_request sample_headers = Inr (''10.0.0.7'', 80)"
proof -
  have "wf_str (connect_line ''10.0.0.7:80'' [])" by code_simp
  moreover have "show_nat (unat (80 :: u16)) = ''80''" by code_simp
  then have "parse_connect_target ''10.0.0.7:80'' = Some (''10.0.0.7'', 80)"
    using connect_target_port [of "''10.0.0.7''" 80] by (simp only: append_Cons append_Nil) (simp add: solid_char_def)
  ultimately show ?thesis unfolding sample_headers_def by (subst connect_line_parsed) (simp_all add: solid_char_def)
qed

definition sample_link :: string where "sample_link = link_text ''trojan'' ''p'' ''a'' 1 []"

definition sample_wire :: ParsedSubscription where
  "sample_wire = \<lparr>ps_mode = Trojan, ps_params = wire_params_default\<lparr>wp_password := Some ''p''\<rparr>, ps_remote_host = unbracket ''a'', ps_remote_port = 1\<rparr>"

lemma sample_link_trim: "trim sample_link = sample_link" "sample_link \<noteq> []"
  by (simp_all add: sample_link_def link_text_def trim_all_solid show_nat_solid solid_char_def)

lemma sample_link_parsed: "parse_subscription_uri b j sample_link = Inr sample_wire"
proof -
  have "trim (link_text s ''p'' ''a'' 1 []) = link_text s ''p'' ''a'' 1 []" if "list_all solid_char s" for s
    by (rule trim_all_solid) (use that in \<open>simp add: link_text_def show_nat_solid solid_char_def\<close>)
  moreover have "trim ''p'' = ''p''" by (simp add: trim_all_solid solid_char_def)
  ultimately show ?thesis using subscription_link_parsed [of "''p''" "''a''" "[]" 1 b j]
    by (simp add: sample_link_def sample_wire_def link_suffix_def solid_char_def)
qed

definition sample_plan :: "string option \<Rightarrow> string + conn_plan" where
  "sample_plan link = plan_connection sample_env draws_example (sample_snapshot link) (sample_snapshot link) [] [] ''http://s'' None sample_headers [9]"

lemma sample_decision: "tunnel_decision L host [] [] [] None = Inr DecTunnel"
  by (simp add: tunnel_decision_def merged_default tunnel_decision_merged_def json_block_def json_pass_def outside_our_def
      BypassMatcher_from_rules_def BypassMatcher_matches_host_def split: host_kind.splits)

lemmas sample_defs = sample_plan_def plan_connection_def sample_request sample_snapshot_def SettingsFile_default_def BoardConfig_default_def
  board_config_def sample_decision hm_get_def Let_def

lemma sample_plan_wire: "\<exists>p. sample_plan (Some sample_link) = Inr (PlanTunnel ''10.0.0.7'' 80 p) \<and> tp_wire p = Some sample_wire \<and> length (the (tp_first p)) \<le> 100"
proof -
  have "classify_host ''10.0.0.7'' = HostV4 [10, 0, 0, 7]" by code_simp
  then have "\<exists>f. wire_tunnel_first_chunk wire_example draws_example Trojan (wire_params_default\<lparr>wp_password := Some ''p''\<rparr>) ''10.0.0.7'' 80 [9] = Inr f \<and> length f \<le> 100"
    by (simp add: wire_tunnel_first_chunk_def trojan_build_address_def trojan_auth_line_def wire_example_def CRLF_def u16_to_be_bytes_eq
        length_concat sum_list_replicate Let_def)
  then show ?thesis
    by (auto simp: sample_defs tunnel_open_def wire_subscription_def sample_link_trim sample_link_parsed sample_env_def sample_wire_def)
qed


lemma sample_plan_raw: "\<exists>p. sample_plan None = Inr (PlanTunnel ''10.0.0.7'' 80 p) \<and> tp_wire p = None"
  by (simp add: sample_defs tunnel_open_def wire_subscription_def)

definition sample_open_result :: ProxyOpenResult where
  "sample_open_result = \<lparr>or_ok = True, or_error = [], or_quic_data_plane = False, or_data_plane_ticket = [], or_quic_host = [], or_quic_port = 0\<rparr>"

theorem application_data_reaches_target_witness:
  "\<exists>ds params. fst (wire_view (run_wire_relay wire_example env_example (wire_mode_to_proto Trojan) params None 0 0 (map ItemData ds))) =
     Inr (upstream_addr (canonical_host ''10.0.0.7'') 80, [9] @ concat [[1, 2], [3]])"
proof -
  obtain p where p: "plan_connection sample_env draws_example (sample_snapshot (Some sample_link)) (sample_snapshot (Some sample_link)) [] [] ''http://s'' None
      sample_headers [9] = Inr (PlanTunnel ''10.0.0.7'' 80 p)" "tp_wire p = Some sample_wire" "length (the (tp_first p)) \<le> 100"
    using sample_plan_wire unfolding sample_plan_def by blast
  have w: "be_wire sample_env = wire_example" "ps_mode sample_wire = Trojan" by (simp_all add: sample_env_def sample_wire_def)
  have m: "mode_ready (ps_mode sample_wire) (ps_params sample_wire) draws_example None 0 0" by (simp add: mode_ready_def sample_wire_def)
  obtain c ep st where o: "tunnel_open sample_env draws_example c ep st ''10.0.0.7'' 80 [9] = Inr p" using plan_tunnel [OF p(1)] by blast
  have "the (po_wire_mode (tp_open p)) = wire_mode_to_proto Trojan" using tunnel_open_wire [OF o p(2)] w(2) by (metis option.sel)
  moreover have "or_ok sample_open_result" by (simp add: sample_open_result_def)
  moreover have "wire_env_ok (be_wire sample_env)" unfolding w by (rule wire_example_ok)
  moreover have "length (the (tp_first p)) \<le> MAX_PROXY_CHUNK" using p(3) by (simp add: MAX_PROXY_CHUNK_def)
  moreover have "\<forall>u \<in> set [[1, 2], [3 :: u8]]. u \<noteq> [] \<and> length u \<le> MAX_CHUNK" by (simp add: MAX_CHUNK_def)
  ultimately show ?thesis
    using application_data_reaches_target [OF p(1,2) _ _ wf_str_example _ m target_example, of sample_open_result "[[1, 2], [3]]" BoardConfig_default]
    unfolding w by auto
qed

theorem raw_upload_exact_witness:
  "\<exists>p ds. sample_plan None = Inr (PlanTunnel ''10.0.0.7'' 80 p) \<and> stream_messages p [[9]] (map ReadBytes [[1, 2], [3]]) = map ClientData ds \<and> concat ds = [9] @ concat [[1, 2], [3]]"
proof -
  obtain p where p: "sample_plan None = Inr (PlanTunnel ''10.0.0.7'' 80 p)" "tp_wire p = None" using sample_plan_raw by blast
  have a: "after_open BoardConfig_default p [9] sample_open_result = Inr (ViaStream [[9]])" using p(2) by (simp add: after_open_def sample_open_result_def)
  have l: "length [9 :: u8] \<le> MAX_CHUNK" "\<forall>u \<in> set [[1, 2], [3 :: u8]]. u \<noteq> [] \<and> length u \<le> MAX_CHUNK" by (simp_all add: MAX_CHUNK_def)
  from raw_upload_exact [OF p(1) [unfolded sample_plan_def] p(2) a l] show ?thesis using p(1) by blast
qed

theorem bad_wire_link_opens_raw_witness:
  "\<exists>p. tunnel_open sample_env draws_example (BoardConfig_default\<lparr>bo_wire_subscription_uri := Some ''a''\<rparr>) [] None ''h'' 80 [] = Inr p \<and>
     po_wire_mode (tp_open p) = None"
proof -
  have "parse_subscription_uri (be_b64_decode sample_env) (be_json_from_slice sample_env) (trim ''a'') =
      Inl (Parse ''unsupported URI scheme (use vless://, vmess://, trojan://)'')"
    by (simp add: parse_subscription_uri_def letter_texts starts_with_def)
  from bad_wire_link_opens_raw [OF _ this, of "BoardConfig_default\<lparr>bo_wire_subscription_uri := Some ''a''\<rparr>"] show ?thesis by fastforce
qed


lemma net_texts: "trim ''10.0.0.0/8'' = ''10.0.0.0/8''" "trim ''10.0.0.7'' = ''10.0.0.7''" "to_ascii_lowercase ''10.0.0.7'' = ''10.0.0.7''"
  by (simp_all add: trim_all_solid solid_char_def to_ascii_lowercase_def ascii_lower_def)

lemma sample_net: "\<exists>b. compile_from_strings sample_lib [''10.0.0.0/8''] = Inr b" "line_covers sample_lib ''10.0.0.0/8'' ''10.0.0.7''"
proof -
  have c: "classify_host ''10.0.0.7'' = HostV4 [10, 0, 0, 7]" by code_simp
  show "\<exists>b. compile_from_strings sample_lib [''10.0.0.0/8''] = Inr b" "line_covers sample_lib ''10.0.0.0/8'' ''10.0.0.7''"
    by (simp_all add: compile_from_strings_def line_covers_def rule_covers_def net_texts needs_glob_regex_def expand_simple_rule_def starts_with_def
        sample_lib_def BypassMatcher_from_rules_def add_rule_def c Let_def)
qed

theorem blocked_host_forbidden_witness:
  "\<exists>b. plan_connection sample_env draws_example (sample_snapshot None)
     (sample_snapshot None\<lparr>sn_compiled_default_rules := Some \<lparr>cd_block = b, cd_pass = HostRuleSet_default, cd_our = HostRuleSet_default\<rparr>\<rparr>)
     [] [] ''http://s'' None sample_headers [] = Inr (PlanForbidden FORBIDDEN_RESPONSE)"
proof -
  obtain b where b: "compile_from_strings sample_lib [''10.0.0.0/8''] = Inr b" using sample_net(1) by blast
  let ?s = "sample_snapshot None\<lparr>sn_compiled_default_rules := Some \<lparr>cd_block = b, cd_pass = HostRuleSet_default, cd_our = HostRuleSet_default\<rparr>\<rparr>"
  let ?p = "plan_connection sample_env draws_example (sample_snapshot None) ?s [] [] ''http://s'' None sample_headers []"
  have l: "be_rules sample_env = sample_lib" by (simp add: sample_env_def)
  have "json_block sample_lib (sn_compiled_default_rules ?s) ''10.0.0.7''" using compiled_exact(1) [OF b] sample_net(2) by (simp add: json_block_def)
  then obtain plan where plan: "?p = Inr plan"
    by (simp add: plan_connection_def sample_request sample_snapshot_def SettingsFile_default_def BoardConfig_default_def board_config_def hm_get_def
        tunnel_decision_def merged_default tunnel_decision_merged_def l Let_def)
  have r: "sn_compiled_default_rules ?s = Some \<lparr>cd_block = b, cd_pass = HostRuleSet_default, cd_our = HostRuleSet_default\<rparr>" by simp
  have c: "compile_from_strings (be_rules sample_env) [''10.0.0.0/8''] = Inr (cd_block \<lparr>cd_block = b, cd_pass = HostRuleSet_default, cd_our = HostRuleSet_default\<rparr>)"
    using b l by simp
  have "plan = PlanForbidden FORBIDDEN_RESPONSE"
    by (rule blocked_host_forbidden [OF sample_request r c _ _ _ plan, of "''10.0.0.0/8''"])
      (simp_all add: l sample_net(2) sample_snapshot_def SettingsFile_default_def merged_default)
  then show ?thesis using plan by blast
qed

end
