(* ===== verification/Spec2Isabelle.thy ===== *)
theory Spec2Isabelle
  imports Wire_Client Wire_Uri Quic_Frame Proxy_Open Tun_Rest Chal_Auth Cmd_Template Client_Route
begin

text \<open>
  A verification development for the Pirate server: its wire protocols, request authentication, managed
  sessions, tunnels, the task queue and request bus of its stack tunnel service, the local proxy of its client,
  command templates, and the challenge-response service kept beside it.

  \<^bold>\<open>How the parts interact.\<close> A client signs every call with its key; the server checks the signature, the time
  and the nonce of a call and knows its clients by pairing. A client creates a managed session and receives a
  token. With the token it opens a tunnel: the server checks the limits of the session, admits the tunnel,
  registers it, runs the handshake of its wire protocol, connects to the target and copies bytes in both
  directions, and writes the usage back to the session. On the client, a local proxy decides by rules which
  connections of applications go through such a tunnel. Independently, the stack tunnel service routes single
  HTTP requests by rules or stores them for workers.

  \<^bold>\<open>Conventions.\<close> Machine integers are words where wrap-around or width matters; \<open>i64\<close> is \<open>int\<close> with the wrap
  written out; a \<open>String\<close> is the list of its UTF-8 bytes; \<open>Result\<close> is a sum type with the error left; a map is
  an association list without repeated keys (\<open>Rust_Map\<close>), whose list order stands for the traversal order.
  A handler takes a state and returns an answer with the new state. A panic, or a call that never returns, is
  \<open>None\<close>. Code of other packages (ciphers, digests, signatures, JSON, base64, Redis, the HTTP client, the time
  zone data) is a parameter; a predicate ending in \<open>_ok\<close> states the documented behaviour that is relied on, and
  a witness shows an instance.

  \<^bold>\<open>Foundations.\<close> \<open>Prelude\<close>, \<open>Rust_Text\<close>, \<open>Rust_Map\<close>, \<open>Net_Addr\<close> and \<open>Json_Value\<close> model what the sources use of the
  standard library. \<open>Handshake_Iface\<close> is the contract between an incremental parser and the relays,
  \<open>Replay_Iface\<close> that of a replay guard; both are interpreted on the models of the components.

  \<^bold>\<open>Wire protocols\<close> (\<^verbatim>\<open>wire-protocol/src\<close>): \<open>Wire_Params\<close>, \<open>Wire_Vless\<close>, \<open>Wire_Trojan\<close>, \<open>Wire_Socks5\<close>, \<open>Wire_Vmess\<close>,
  \<open>Wire_Shadowsocks\<close>, \<open>Wire_Client\<close>, \<open>Wire_Uri\<close> and \<open>Quic_Frame\<close>, each the file of its name. They show round trips of
  builder and parser, that a decision of a parser is stable under more input, authentication, and the
  rejection of replays.

  \<^bold>\<open>Authentication\<close> (\<^verbatim>\<open>deploy-auth/src\<close>, \<^verbatim>\<open>server/src/auth.rs\<close>): \<open>Deploy_Auth\<close>, \<open>Auth_Trust\<close> and \<open>Server_Auth\<close> show that
  what a client attaches is accepted, that what is accepted was signed unless its signature was forged, that a nonce
  is refused a second time while it is remembered, that a paired client stays authorised whatever calls and
  pairings follow, that pairing adds only keys whose possession was proved, and where these guarantees end.

  \<^bold>\<open>Sessions and tunnels\<close> (\<^verbatim>\<open>server/src\<close>, \<^verbatim>\<open>deploy-db/src/lib.rs\<close>): \<open>Proxy_Session\<close> and \<open>Session_Db\<close> are policy and
  tables, \<open>Connection_Api\<close> the four connection calls, \<open>Proxy_Open\<close> the opening of a tunnel, \<open>Tunnel_Admission\<close> the
  slots as interleaved steps, \<open>Tunnel_Registry\<close> the Redis registry, \<open>Wire_Relay\<close> the handshake loops, \<open>Raw_Bridge\<close> the
  two copy tasks as interleaved turns, in which a write may fail after part of its bytes, and \<open>Tunnel_Flush\<close> the
  accounting. They show that every step of the service is at most one operation on the session table, that only the
  owner changes a session, when a created token opens and that a closed one is refused, the limits, what each
  of the wire modes forwards of the client's bytes, and that the flushes the database accepts charge what was used
  since the reading before them. \<open>Deploy_Core\<close>
  (\<^verbatim>\<open>deploy-core/src/lib.rs\<close>) shows that directories of releases are disjoint.

  \<^bold>\<open>Stack tunnel service\<close> (\<^verbatim>\<open>stack-tun-api/src\<close>): \<open>Task_Queue\<close> and \<open>Task_Order\<close> model \<^verbatim>\<open>task_queue.rs\<close>; runs are sequences of
  calls. They show which calls return, that tasks are handed out in order, that none is lost and that a lease
  is exclusive. Discarding expired tasks is split into its passes: one expired task at the front blocks the queue, and
  a pass that overlaps another call may drop a task. \<open>Request_Bus\<close> models \<^verbatim>\<open>types.rs\<close> and
  \<^verbatim>\<open>request_bus.rs\<close>: the choice of a rule, where a request may be sent, and the journal. \<open>Tun_State\<close> models
  \<^verbatim>\<open>state.rs\<close> and \<^verbatim>\<open>queue.rs\<close>: reconciliation with the stored profiles and the admission of a stream, which rests on
  the authentication above. \<open>Tun_Session\<close> models the sessions of \<^verbatim>\<open>grpc_svc.rs\<close>: the parts of a
  request, with other messages between them, are joined into one, an answer may be cut into parts, and a worker keeps to its profile. \<open>Tun_Rest\<close> models \<^verbatim>\<open>http_api.rs\<close>: every reachable configuration is valid.

  \<^bold>\<open>Local proxy\<close> (\<^verbatim>\<open>local-stack/client/src\<close>): \<open>Client_Rules\<close> models \<^verbatim>\<open>bypass.rs\<close>, \<^verbatim>\<open>default_rules.rs\<close> and \<^verbatim>\<open>routing_rules.rs\<close>; the
  decision for a host is the one its rule lines prescribe, and a saved bundle is read back. \<open>Client_Route\<close> models
  \<^verbatim>\<open>board.rs\<close> up to the messages of a tunnel, \<^verbatim>\<open>routing.rs\<close> and \<^verbatim>\<open>settings.rs\<close>; together with \<open>Wire_Relay\<close> it shows that the
  target of a request receives what the application writes, and that a blocked host is answered with 403.

  \<^bold>\<open>Command templates and challenge-response.\<close> \<open>Cmd_Template\<close> (\<^verbatim>\<open>deploy-core/src/cmd_template.rs\<close>) shows that substitution
  replaces exactly the parameters of a command, and its errors. \<open>Chal_Auth\<close> (\<^verbatim>\<open>challenge-response-auth\<close>) shows that an honest
  exchange succeeds, what an accepted answer proves, and that a challenge is redeemed once by requests handled one after
  the other but twice by two at the same time.

  \<^bold>\<open>Bounds.\<close> Loops over input recurse on the input or on a measure. Constants are those of the code, such as the
  512 entries of the journal. The claim loop of the task queue may spin, so it is a partial function whose
  \<open>None\<close> is not returning; which calls return is a theorem.

  \<^bold>\<open>Simplifications.\<close> In a run of the task queue a call is one atomic step although the code takes its two locks
  one after the other; the steps between the locks are modelled for discarding only. The attempts of one claim see one instant. The mirror of the admission wait list in Redis is
  not part of the admission steps. What the HTTP client does for a request, such as following a redirect, is
  inside its parameter. A session of the stack tunnel service sees no other session between its messages. Removing old
  challenges and reading one is a single step of the challenge store. The error for an unknown kind of rule bundle does not
  quote the kind.

  \<^bold>\<open>Not modelled.\<close> The TCP relay and the start-up of the stack tunnel service; the raw
  and QUIC serving loops of \<^verbatim>\<open>deploy_service.rs\<close>, which repeat the bridge on another transport; deployment,
  certificates, nginx, host control and agents, which run system commands; HTTP plumbing of the control API;
  other database tables; the command line client apart from pairing and the local proxy, and of the proxy its channel
  pool, QUIC connection, download direction and direct connections; the desktop and web interfaces; generated code
  and scripts.
\<close>

end
